(* ===== verification/Prelude.thy ===== *)
theory Prelude
  imports Main "HOL-Library.AList" "HOL-Library.Word"
begin

text \<open>
  Shared vocabulary of the development: the machine integers and clock readings the crate
  uses, the standard library's \<open>HashMap\<close>, the pieces of HTTP every component names (status
  codes and header maps), and two generic contracts proved once: what a keyed store promises its
  clients (\<open>keyed_store\<close>) and how an invariant of one operation lifts to a run of operations
  (\<open>guarded_invariant\<close>) or to every reachable state of a step relation (\<open>step_invariant\<close>).
\<close>

named_theorems store_simps "lookups and sizes after an operation on a keyed store"
named_theorems gate_simps "unfolding rules of guards and early returns"

section \<open>Machine integers\<close>

text \<open>The crate runs on 64-bit targets: \<open>usize\<close> and \<open>u64\<close> are both 64 bits wide.\<close>

type_synonym u8 = "8 word"
type_synonym u16 = "16 word"
type_synonym u32 = "32 word"
type_synonym u64 = "64 word"
type_synonym usize = "64 word"

definition saturating_sub :: "'a::len word \<Rightarrow> 'a word \<Rightarrow> 'a word" where
  "saturating_sub a b = (if b \<le> a then a - b else 0)"

definition checked_add :: "'a::len word \<Rightarrow> 'a word \<Rightarrow> 'a word option" where
  "checked_add a b = (if unat a + unat b < 2 ^ LENGTH('a) then Some (a + b) else None)"

lemma unat_saturating_sub: "unat (saturating_sub a b) = unat a - unat b"
  by (auto simp: saturating_sub_def unat_sub word_le_nat_alt not_le)

lemma checked_add_SomeD: "checked_add a b = Some c \<Longrightarrow> unat c = unat a + unat b"
  by (auto simp: checked_add_def unat_word_ariths split: if_splits)

section \<open>Clock readings and durations\<close>

text \<open>
  A monotonic \<open>Instant\<close> is a number of nanoseconds since an arbitrary origin, a \<open>Duration\<close> a
  number of nanoseconds. \<open>Instant::elapsed\<close> and \<open>duration_since\<close> saturate at zero, as
  subtraction of \<open>nat\<close> does.
\<close>

type_synonym instant = nat
type_synonym duration = nat

definition nanos_per_sec :: nat where
  "nanos_per_sec = 1000000000"

definition from_secs :: "nat \<Rightarrow> duration" where
  "from_secs s = s * nanos_per_sec"

definition from_millis :: "nat \<Rightarrow> duration" where
  "from_millis s = s * 1000000"

definition elapsed :: "instant \<Rightarrow> instant \<Rightarrow> duration" where
  "elapsed now t = now - t"

definition as_secs :: "duration \<Rightarrow> u64" where
  "as_secs d = word_of_nat (d div nanos_per_sec)"

lemma elapsed_mono: "now \<le> now' \<Longrightarrow> elapsed now t \<le> elapsed now' t"
  by (simp add: elapsed_def)

section \<open>\<open>std::collections::HashMap\<close>\<close>

text \<open>
  A hash map is the list of its entries in the order it would iterate them, with distinct keys.
  Nothing below depends on that order; where the code iterates, the model takes the iteration
  order as an argument.
\<close>

type_synonym ('k, 'v) hash_map = "('k \<times> 'v) list"

definition hm_wf :: "('k, 'v) hash_map \<Rightarrow> bool" where
  "hm_wf m \<longleftrightarrow> distinct (map fst m)"

definition hm_new :: "('k, 'v) hash_map" where
  "hm_new = []"

definition hm_get :: "('k, 'v) hash_map \<Rightarrow> 'k \<Rightarrow> 'v option" where
  "hm_get m k = map_of m k"

definition hm_insert :: "'k \<Rightarrow> 'v \<Rightarrow> ('k, 'v) hash_map \<Rightarrow> ('k, 'v) hash_map" where
  "hm_insert k v m = AList.update k v m"

definition hm_remove :: "'k \<Rightarrow> ('k, 'v) hash_map \<Rightarrow> ('k, 'v) hash_map" where
  "hm_remove k m = AList.delete k m"

definition hm_retain :: "('k \<Rightarrow> 'v \<Rightarrow> bool) \<Rightarrow> ('k, 'v) hash_map \<Rightarrow> ('k, 'v) hash_map" where
  "hm_retain p m = filter (\<lambda>(k, v). p k v) m"

definition hm_len :: "('k, 'v) hash_map \<Rightarrow> nat" where
  "hm_len m = length m"

text \<open>What a keyed store promises, whatever represents it.\<close>

locale keyed_store =
  fixes new :: "'m"
    and get :: "'m \<Rightarrow> 'k \<Rightarrow> 'v option"
    and put :: "'k \<Rightarrow> 'v \<Rightarrow> 'm \<Rightarrow> 'm"
    and del :: "'k \<Rightarrow> 'm \<Rightarrow> 'm"
    and keep :: "('k \<Rightarrow> 'v \<Rightarrow> bool) \<Rightarrow> 'm \<Rightarrow> 'm"
    and size_of :: "'m \<Rightarrow> nat"
    and wf :: "'m \<Rightarrow> bool"
  assumes wf_new: "wf new"
    and wf_put: "wf m \<Longrightarrow> wf (put k v m)"
    and wf_del: "wf m \<Longrightarrow> wf (del k m)"
    and wf_keep: "wf m \<Longrightarrow> wf (keep p m)"
    and get_new: "get new k = None"
    and get_put: "get (put k v m) k' = (if k' = k then Some v else get m k')"
    and get_del: "wf m \<Longrightarrow> get (del k m) k' = (if k' = k then None else get m k')"
    and get_keep: "wf m \<Longrightarrow> get (keep p m) k =
      (case get m k of None \<Rightarrow> None | Some v \<Rightarrow> if p k v then Some v else None)"
    and size_card: "wf m \<Longrightarrow> size_of m = card (dom (get m))"
    and fin_get: "finite (dom (get m))"
begin

lemma size_new: "size_of new = 0"
  by (simp add: size_card wf_new get_new dom_def)

lemma size_put: "wf m \<Longrightarrow> size_of (put k v m) = (if get m k = None then Suc (size_of m) else size_of m)"
proof -
  assume wf: "wf m"
  have "dom (get (put k v m)) = insert k (dom (get m))"
    by (auto simp: get_put)
  then show ?thesis
    using wf fin_get[of m] by (auto simp: size_card wf_put card_insert_if dom_def)
qed

lemma size_put_le: "wf m \<Longrightarrow> size_of (put k v m) \<le> Suc (size_of m)"
  by (simp add: size_put)

lemma size_del: "wf m \<Longrightarrow> size_of (del k m) = (if get m k = None then size_of m else size_of m - 1)"
proof -
  assume wf: "wf m"
  have "dom (get (del k m)) = dom (get m) - {k}"
    using wf by (auto simp: get_del split: if_splits)
  then show ?thesis
    using wf fin_get[of m] by (auto simp: size_card wf_del card_Diff_singleton_if dom_def)
qed

lemma size_pos: "wf m \<Longrightarrow> get m k \<noteq> None \<Longrightarrow> 0 < size_of m"
  using fin_get[of m] by (auto simp: size_card card_gt_0_iff)

lemma size_keep_le: "wf m \<Longrightarrow> size_of (keep p m) \<le> size_of m"
proof -
  assume wf: "wf m"
  have "dom (get (keep p m)) \<subseteq> dom (get m)"
    using wf by (auto simp: get_keep split: option.splits)
  then show ?thesis
    using wf fin_get[of m] by (simp add: size_card wf_keep card_mono)
qed

text \<open>Counting the values that satisfy a predicate.\<close>

definition count where
  "count P m = size_of (keep (\<lambda>_. P) m)"

lemma count_card: "wf m \<Longrightarrow> count P m = card {k. \<exists>v. get m k = Some v \<and> P v}"
proof -
  assume "wf m"
  then have "dom (get (keep (\<lambda>_. P) m)) = {k. \<exists>v. get m k = Some v \<and> P v}"
    by (auto simp: get_keep split: option.splits if_splits)
  with \<open>wf m\<close> show ?thesis
    by (simp add: count_def size_card wf_keep)
qed

lemma fin_matching: "finite {k. \<exists>v. get m k = Some v \<and> P v}"
  by (rule finite_subset[OF _ fin_get[of m]]) auto

lemma count_put_le: "wf m \<Longrightarrow> count P (put k v m) \<le> count P m + (if P v then 1 else 0)"
proof -
  assume wf: "wf m"
  let ?A = "{k. \<exists>v. get m k = Some v \<and> P v}"
  have "{k'. \<exists>v'. get (put k v m) k' = Some v' \<and> P v'} \<subseteq> (if P v then insert k ?A else ?A)"
    by (auto simp: get_put split: if_splits)
  then have "card {k'. \<exists>v'. get (put k v m) k' = Some v' \<and> P v'} \<le> card (if P v then insert k ?A else ?A)"
    by (intro card_mono) (simp_all add: fin_matching)
  also have "\<dots> \<le> card ?A + (if P v then 1 else 0)"
    by (simp add: card_insert_if fin_matching)
  finally show ?thesis
    by (simp add: count_card wf wf_put)
qed

lemma count_del_le: "wf m \<Longrightarrow> count P (del k m) \<le> count P m"
  by (auto simp: count_card wf_del get_del intro!: card_mono fin_matching split: if_splits)

lemma count_del_hit:
  assumes "wf m" and "get m k = Some v" and "P v"
  shows "Suc (count P (del k m)) = count P m"
proof -
  let ?A = "{k. \<exists>v. get m k = Some v \<and> P v}"
  have del: "{k'. \<exists>v'. get (del k m) k' = Some v' \<and> P v'} = ?A - {k}"
    using assms(1) by (auto simp: get_del split: if_splits)
  have "k \<in> ?A" using assms by auto
  then have "card ?A = Suc (card (?A - {k}))"
    by (intro card.remove fin_matching)
  then show ?thesis
    by (simp only: count_card[OF assms(1)] count_card[OF wf_del[OF assms(1)]] del)
qed

lemma count_keep_le: "wf m \<Longrightarrow> count P (keep q m) \<le> count P m"
  by (auto simp: count_card wf_keep get_keep intro!: card_mono fin_matching split: option.splits if_splits)

lemma count_split: "wf m \<Longrightarrow> size_of m = count P m + count (\<lambda>v. \<not> P v) m"
proof -
  assume wf: "wf m"
  have "dom (get m) = {k. \<exists>v. get m k = Some v \<and> P v} \<union> {k. \<exists>v. get m k = Some v \<and> \<not> P v}"
    by (auto simp: dom_def)
  then show ?thesis
    using wf fin_matching by (subst size_card) (auto simp: count_card intro!: card_Un_disjoint)
qed

end

lemma dom_map_of_filter:
  "distinct (map fst m) \<Longrightarrow> map_of (filter (\<lambda>(k, v). p k v) m) k =
     (case map_of m k of None \<Rightarrow> None | Some v \<Rightarrow> if p k v then Some v else None)"
proof (induction m)
  case (Cons a m)
  obtain k' v' where a: "a = (k', v')" by (cases a)
  from Cons.prems a have "map_of m k' = None"
    by (auto simp: map_of_eq_None_iff)
  with Cons a show ?case by (auto split: option.splits)
qed simp

interpretation hm: keyed_store hm_new hm_get hm_insert hm_remove hm_retain hm_len hm_wf
proof
  show "hm_wf hm_new" by (simp add: hm_wf_def hm_new_def)
  show "hm_wf (hm_insert k v m)" if "hm_wf m" for k v and m :: "('k, 'v) hash_map"
    using that by (simp add: hm_wf_def hm_insert_def distinct_update)
  show "hm_wf (hm_remove k m)" if "hm_wf m" for k and m :: "('k, 'v) hash_map"
    using that by (simp add: hm_wf_def hm_remove_def distinct_delete)
  show "hm_wf (hm_retain p m)" if "hm_wf m" for p and m :: "('k, 'v) hash_map"
    using that by (simp add: hm_wf_def hm_retain_def distinct_map_filter)
  show "hm_get hm_new k = None" for k :: 'k
    by (simp add: hm_get_def hm_new_def)
  show "hm_get (hm_insert k v m) k' = (if k' = k then Some v else hm_get m k')"
    for k k' v and m :: "('k, 'v) hash_map"
    by (simp add: hm_get_def hm_insert_def update_conv')
  show "hm_get (hm_remove k m) k' = (if k' = k then None else hm_get m k')"
    for k k' and m :: "('k, 'v) hash_map"
    by (simp add: hm_get_def hm_remove_def delete_conv')
  show "hm_get (hm_retain p m) k =
      (case hm_get m k of None \<Rightarrow> None | Some v \<Rightarrow> if p k v then Some v else None)"
    if "hm_wf m" for p k and m :: "('k, 'v) hash_map"
    using that by (simp add: hm_get_def hm_retain_def hm_wf_def dom_map_of_filter)
  show "hm_len m = card (dom (hm_get m))" if "hm_wf m" for m :: "('k, 'v) hash_map"
  proof -
    have "card (dom (map_of m)) = card (set (map fst m))"
      by (simp add: dom_map_of_conv_image_fst)
    also have "\<dots> = length m"
      using that distinct_card[of "map fst m"] by (simp add: hm_wf_def)
    finally show ?thesis by (simp add: hm_get_def[abs_def] hm_len_def)
  qed
  show "finite (dom (hm_get m))" for m :: "('k, 'v) hash_map"
    by (simp add: hm_get_def[abs_def] finite_dom_map_of)
qed

lemmas hm_get_simps [store_simps] = hm.get_new hm.get_put hm.get_del hm.get_keep
lemmas hm_size_simps [store_simps] = hm.size_new hm.size_put hm.size_del
definition hm_count :: "('v \<Rightarrow> bool) \<Rightarrow> ('k, 'v) hash_map \<Rightarrow> nat" where
  "hm_count P m = length (filter (\<lambda>(_, v). P v) m)"

lemma hm_count_eq: "hm.count P m = hm_count P m"
  by (simp add: hm.count_def hm_count_def hm_len_def hm_retain_def)

lemmas hm_count_laws = hm.count_put_le[unfolded hm_count_eq] hm.count_del_le[unfolded hm_count_eq]
  hm.count_del_hit[unfolded hm_count_eq] hm.count_keep_le[unfolded hm_count_eq] hm.count_split[unfolded hm_count_eq]

lemmas hm_wf_intros [intro] = hm.wf_new hm.wf_put hm.wf_del hm.wf_keep

section \<open>Runs of operations, reachable states\<close>

fun run_ops :: "('op \<Rightarrow> 's \<Rightarrow> 's) \<Rightarrow> 'op list \<Rightarrow> 's \<Rightarrow> 's" where
  "run_ops app [] s = s"
| "run_ops app (x # xs) s = run_ops app xs (app x s)"

text \<open>Every operation of a run meets its guard in the state it is applied to.\<close>

fun good_run :: "('op \<Rightarrow> 's \<Rightarrow> bool) \<Rightarrow> ('op \<Rightarrow> 's \<Rightarrow> 's) \<Rightarrow> 'op list \<Rightarrow> 's \<Rightarrow> bool" where
  "good_run good app [] s = True"
| "good_run good app (x # xs) s = (good x s \<and> good_run good app xs (app x s))"

locale guarded_invariant =
  fixes good :: "'op \<Rightarrow> 's \<Rightarrow> bool"
    and app :: "'op \<Rightarrow> 's \<Rightarrow> 's"
    and inv :: "'s \<Rightarrow> bool"
  assumes keeps: "inv s \<Longrightarrow> good x s \<Longrightarrow> inv (app x s)"
begin

lemma run_keeps: "inv s \<Longrightarrow> good_run good app xs s \<Longrightarrow> inv (run_ops app xs s)"
  by (induction xs arbitrary: s) (auto simp: keeps)

end

text \<open>The special case of a guard on the operation alone.\<close>

locale uniform_invariant =
  fixes ok :: "'op \<Rightarrow> bool"
    and app :: "'op \<Rightarrow> 's \<Rightarrow> 's"
    and inv :: "'s \<Rightarrow> bool"
  assumes keeps_ok: "inv s \<Longrightarrow> ok x \<Longrightarrow> inv (app x s)"
begin

sublocale guarded_invariant "\<lambda>x _. ok x" app inv
  by unfold_locales (rule keeps_ok)

lemma good_run_ok: "good_run (\<lambda>x _. ok x) app xs s \<longleftrightarrow> list_all ok xs"
  by (induction xs arbitrary: s) auto

lemma run_keeps_ok: "inv s \<Longrightarrow> list_all ok xs \<Longrightarrow> inv (run_ops app xs s)"
  by (simp add: good_run_ok run_keeps)

end

inductive reach :: "('s \<Rightarrow> bool) \<Rightarrow> ('s \<Rightarrow> 's \<Rightarrow> bool) \<Rightarrow> 's \<Rightarrow> bool" for init step where
  reach_init: "init s \<Longrightarrow> reach init step s"
| reach_step: "reach init step s \<Longrightarrow> step s t \<Longrightarrow> reach init step t"

lemma reach_init_mono: "reach init step s \<Longrightarrow> (\<And>s. init s \<Longrightarrow> init' s) \<Longrightarrow> reach init' step s"
  by (induction rule: reach.induct) (auto intro: reach_init reach_step)

locale step_invariant =
  fixes init :: "'s \<Rightarrow> bool"
    and step :: "'s \<Rightarrow> 's \<Rightarrow> bool"
    and inv :: "'s \<Rightarrow> bool"
  assumes inv_init: "init s \<Longrightarrow> inv s"
    and inv_step: "step s t \<Longrightarrow> inv s \<Longrightarrow> inv t"
begin

lemma reach_inv: "reach init step s \<Longrightarrow> inv s"
  by (induction rule: reach.induct) (auto intro: inv_init inv_step)

end

section \<open>HTTP vocabulary\<close>

text \<open>The status codes the crate answers with.\<close>

datatype status_code =
    OK | NO_CONTENT | SEE_OTHER | BAD_REQUEST | UNAUTHORIZED | FORBIDDEN
  | INTERNAL_SERVER_ERROR | BAD_GATEWAY | SERVICE_UNAVAILABLE

text \<open>
  A header map is the list of its fields, names in lower case as the \<open>http\<close> crate stores them,
  each value the bytes received. \<open>get\<close> is the first value of a name, \<open>get_all\<close> all of them.
\<close>

type_synonym headers = "(string \<times> string) list"

definition header_get :: "headers \<Rightarrow> string \<Rightarrow> string option" where
  "header_get h n = map_of h n"

definition header_get_all :: "headers \<Rightarrow> string \<Rightarrow> string list" where
  "header_get_all h n = map snd (filter (\<lambda>(k, _). k = n) h)"

text \<open>
  The conversions of the \<open>http\<close> crate between header values and text are not this crate's code:
  they are arguments. \<open>to_str\<close> refuses a value that is not visible ASCII, \<open>from_str\<close> text that
  is no valid header value.
\<close>

record http_lib =
  to_str :: "string \<Rightarrow> string option"
  from_str :: "string \<Rightarrow> string option"

definition header_text :: "http_lib \<Rightarrow> headers \<Rightarrow> string \<Rightarrow> string option" where
  "header_text H h n = Option.bind (header_get h n) (to_str H)"

text \<open>A library that takes every value as it is, for concrete examples.\<close>

definition plain_http :: http_lib where
  "plain_http = \<lparr>to_str = Some, from_str = Some\<rparr>"

lemma plain_http_simps [simp]: "to_str plain_http v = Some v" "from_str plain_http v = Some v"
  by (simp_all add: plain_http_def)

end
