(* ===== verification/Simulation.thy ===== *)
theory Simulation
  imports Prelude
begin

text \<open>
  Refinement by forward simulation: a component whose operations give replies implements a specification when
  every operation is matched by a step of the specification with the same reply. The locale lifts this from one
  operation to runs; \<open>Jobs\<close> and \<open>Registry\<close> interpret it.
\<close>

text \<open>The replies of a run, and runs whose clock readings never go back.\<close>

fun replies :: "('op \<Rightarrow> 's \<Rightarrow> 'r \<times> 's) \<Rightarrow> 'op list \<Rightarrow> 's \<Rightarrow> 'r list" where
  "replies app [] s = []"
| "replies app (x # xs) s = (case app x s of (r, s') \<Rightarrow> r # replies app xs s')"

fun in_order :: "('op \<Rightarrow> instant option) \<Rightarrow> instant \<Rightarrow> 'op list \<Rightarrow> bool" where
  "in_order clock t [] = True"
| "in_order clock t (x # xs) = (case clock x of None \<Rightarrow> in_order clock t xs | Some now \<Rightarrow> t \<le> now \<and> in_order clock now xs)"

lemma in_order_None: "in_order (\<lambda>_. None) t xs"
  by (induction xs) auto

text \<open>A run of a specification, a relation, that gives the replies listed.\<close>

inductive spec_run :: "('op \<Rightarrow> 'a \<Rightarrow> 'r \<Rightarrow> 'a \<Rightarrow> bool) \<Rightarrow> 'op list \<Rightarrow> 'a \<Rightarrow> 'r list \<Rightarrow> 'a \<Rightarrow> bool" for step where
  spec_stop: "spec_run step [] a [] a"
| spec_go: "step x a r a1 \<Longrightarrow> spec_run step xs a1 rs a2 \<Longrightarrow> spec_run step (x # xs) a (r # rs) a2"

locale forward_simulation =
  fixes app :: "'op \<Rightarrow> 's \<Rightarrow> 'r \<times> 's"
    and step :: "'op \<Rightarrow> 'a \<Rightarrow> 'r \<Rightarrow> 'a \<Rightarrow> bool"
    and clock :: "'op \<Rightarrow> instant option"
    and ok :: "'op \<Rightarrow> bool"
    and rel :: "instant \<Rightarrow> 'a \<Rightarrow> 's \<Rightarrow> bool"
  assumes simulates: "rel t a s \<Longrightarrow> ok x \<Longrightarrow> (case clock x of None \<Rightarrow> now = t | Some n \<Rightarrow> n = now \<and> t \<le> now) \<Longrightarrow>
      app x s = (r, s') \<Longrightarrow> \<exists>a'. step x a r a' \<and> rel now a' s'"
begin

lemma run_simulates:
  "rel t a s \<Longrightarrow> list_all ok xs \<Longrightarrow> in_order clock t xs \<Longrightarrow> \<exists>a'. spec_run step xs a (replies app xs s) a'"
proof (induction xs arbitrary: t a s)
  case Nil
  show ?case by (auto intro: spec_stop)
next
  case (Cons x xs)
  obtain r s' where x: "app x s = (r, s')" by fastforce
  define now where "now = (case clock x of None \<Rightarrow> t | Some n \<Rightarrow> n)"
  have now: "case clock x of None \<Rightarrow> now = t | Some n \<Rightarrow> n = now \<and> t \<le> now" and rest: "in_order clock now xs"
    using Cons.prems(3) by (auto simp: now_def split: option.splits)
  from simulates[OF Cons.prems(1) _ now x] Cons.prems(2) obtain a1 where a1: "step x a r a1" "rel now a1 s'" by auto
  from Cons.IH[OF a1(2) _ rest] Cons.prems(2) obtain a2 where "spec_run step xs a1 (replies app xs s') a2" by auto
  with a1(1) x show ?case by (auto intro: spec_go)
qed

end

end
