(* ===== verification/Jobs.thy ===== *)
theory Jobs
  imports Simulation
begin

text \<open>
  \<open>src/src/jobs.rs\<close>: the bounded, TTL-swept job store. Each method takes the store's one
  \<open>RwLock\<close> for its whole body, so a concurrent use of the store is some sequence of the
  operations below. Fresh ids come from \<open>uuid\<close>, the time from \<open>Instant::now\<close>; both are arguments.
\<close>

section \<open>State and operations\<close>

datatype job_status = Pending | Running | Done string | Failed string

definition is_terminal :: "job_status \<Rightarrow> bool" where
  "is_terminal st = (case st of Done _ \<Rightarrow> True | Failed _ \<Rightarrow> True | _ \<Rightarrow> False)"

record job =
  job_state :: job_status
  updated :: instant

record job_store =
  jobs :: "(string, job) hash_map"

definition job_store_new :: job_store where
  "job_store_new = \<lparr>jobs = hm_new\<rparr>"

definition try_create_under :: "nat \<Rightarrow> string \<Rightarrow> instant \<Rightarrow> job_store \<Rightarrow> string option \<times> job_store" where
  "try_create_under limit uuid now s =
     (if hm_len (jobs s) \<ge> limit then (None, s)
      else (Some uuid, s\<lparr>jobs := hm_insert uuid \<lparr>job_state = Pending, updated = now\<rparr> (jobs s)\<rparr>))"

definition job_set :: "string \<Rightarrow> job_status \<Rightarrow> instant \<Rightarrow> job_store \<Rightarrow> job_store" where
  "job_set i st now s =
     (case hm_get (jobs s) i of
        None \<Rightarrow> s
      | Some j \<Rightarrow> s\<lparr>jobs := hm_insert i (j\<lparr>job_state := st, updated := now\<rparr>) (jobs s)\<rparr>)"

definition job_get :: "string \<Rightarrow> job_store \<Rightarrow> job_status option" where
  "job_get i s = map_option job_state (hm_get (jobs s) i)"

definition job_count :: "job_store \<Rightarrow> nat" where
  "job_count s = hm_len (jobs s)"

definition evict_terminal_older_than :: "duration \<Rightarrow> instant \<Rightarrow> job_store \<Rightarrow> nat \<times> job_store" where
  "evict_terminal_older_than ttl now s =
     (let before = hm_len (jobs s);
          kept = hm_retain (\<lambda>_ j. \<not> (is_terminal (job_state j) \<and> elapsed now (updated j) > ttl)) (jobs s)
      in (before - hm_len kept, s\<lparr>jobs := kept\<rparr>))"

section \<open>Sequences of operations\<close>

datatype job_op =
    Create nat string instant
  | SetStatus string job_status instant
  | Evict duration instant

fun job_apply :: "job_op \<Rightarrow> job_store \<Rightarrow> job_store" where
  "job_apply (Create limit uuid now) s = snd (try_create_under limit uuid now s)"
| "job_apply (SetStatus i st now) s = job_set i st now s"
| "job_apply (Evict ttl now) s = snd (evict_terminal_older_than ttl now s)"

definition job_wf :: "job_store \<Rightarrow> bool" where
  "job_wf s \<longleftrightarrow> hm_wf (jobs s)"

text \<open>Callers that never create above \<open>bound\<close> (each may pass its own limit).\<close>

definition creates_within :: "nat \<Rightarrow> job_op \<Rightarrow> bool" where
  "creates_within bound x = (case x of Create limit _ _ \<Rightarrow> limit \<le> bound | _ \<Rightarrow> True)"

definition creates_id :: "string \<Rightarrow> job_op \<Rightarrow> bool" where
  "creates_id i x = (case x of Create _ uuid _ \<Rightarrow> uuid = i | _ \<Rightarrow> False)"

section \<open>One operation\<close>

lemmas job_op_defs = try_create_under_def job_set_def evict_terminal_older_than_def

lemma job_wf_new: "job_wf job_store_new"
  by (simp add: job_wf_def job_store_new_def hm.wf_new)

lemma job_wf_apply: "job_wf s \<Longrightarrow> job_wf (job_apply x s)"
  by (cases x) (auto simp: job_wf_def job_op_defs Let_def split: option.splits)

lemma job_count_apply:
  "job_wf s \<Longrightarrow> creates_within b x \<Longrightarrow> job_count s \<le> b \<Longrightarrow> job_count (job_apply x s) \<le> b"
  by (cases x)
    (auto simp: job_wf_def job_count_def job_op_defs creates_within_def Let_def hm.size_put
      intro: le_trans[OF hm.size_keep_le] split: option.splits)

lemma job_absent_apply:
  "job_wf s \<Longrightarrow> \<not> creates_id i x \<Longrightarrow> hm_get (jobs s) i = None \<Longrightarrow> hm_get (jobs (job_apply x s)) i = None"
  by (cases x)
    (auto simp: job_wf_def job_op_defs creates_id_def Let_def store_simps split: option.splits)

interpretation job_bound: uniform_invariant
  "creates_within b" job_apply "\<lambda>s. job_wf s \<and> job_count s \<le> b"
  by unfold_locales (auto intro: job_wf_apply job_count_apply)

interpretation job_gone: uniform_invariant
  "\<lambda>x. \<not> creates_id i x" job_apply "\<lambda>s. job_wf s \<and> hm_get (jobs s) i = None"
  by unfold_locales (auto intro: job_wf_apply job_absent_apply)

section \<open>The abstract contract\<close>

text \<open>
  Abstractly the store is a partial map from ids to status and time of the last update. The
  operations of \<open>JobStore\<close> refine map updates and restrictions.
\<close>

definition job_abs :: "job_store \<Rightarrow> string \<rightharpoonup> job_status \<times> instant" where
  "job_abs s = (\<lambda>i. map_option (\<lambda>j. (job_state j, updated j)) (hm_get (jobs s) i))"

fun spec_apply :: "job_op \<Rightarrow> (string \<rightharpoonup> job_status \<times> instant) \<Rightarrow> (string \<rightharpoonup> job_status \<times> instant)" where
  "spec_apply (Create limit uuid now) m =
     (if card (dom m) < limit then m(uuid \<mapsto> (Pending, now)) else m)"
| "spec_apply (SetStatus i st now) m = (if m i = None then m else m(i \<mapsto> (st, now)))"
| "spec_apply (Evict ttl now) m =
     (\<lambda>i. case m i of None \<Rightarrow> None
        | Some (st, t) \<Rightarrow> if is_terminal st \<and> ttl < now - t then None else Some (st, t))"

lemma job_count_abs: "job_wf s \<Longrightarrow> job_count s = card (dom (job_abs s))"
  by (simp add: job_count_def job_wf_def job_abs_def hm.size_card dom_def)

lemma job_abs_apply: "job_wf s \<Longrightarrow> job_abs (job_apply x s) = spec_apply x (job_abs s)"
proof (cases x)
  case (Create limit uuid now)
  assume "job_wf s"
  then have "hm_len (jobs s) = card (dom (job_abs s))"
    using job_count_abs by (simp add: job_count_def)
  with Create show ?thesis
    by (auto simp: try_create_under_def job_abs_def fun_eq_iff hm.get_put)
next
  case (SetStatus i st now)
  then show ?thesis
    by (auto simp: job_set_def job_abs_def fun_eq_iff hm.get_put split: option.splits)
next
  case (Evict ttl now)
  assume "job_wf s"
  with Evict show ?thesis
    by (auto simp: evict_terminal_older_than_def job_abs_def fun_eq_iff job_wf_def Let_def
        hm.get_keep elapsed_def split: option.splits)
qed


lemma job_in_flight_apply:
  assumes "job_wf s" and "job_get i s = Some st" and "\<not> is_terminal st"
    and "\<forall>st' now. x = SetStatus i st' now \<longrightarrow> \<not> is_terminal st'"
  shows "\<exists>st'. job_get i (job_apply x s) = Some st' \<and> \<not> is_terminal st'"
proof -
  obtain j where j: "hm_get (jobs s) i = Some j" "\<not> is_terminal (job_state j)"
    using assms(2,3) by (auto simp: job_get_def)
  show ?thesis
    using assms(1,4) j
    by (cases x) (auto simp: job_get_def job_wf_def job_op_defs Let_def is_terminal_def hm_get_simps split: option.splits)
qed

definition finishes :: "string \<Rightarrow> job_op \<Rightarrow> bool" where
  "finishes i x = (case x of SetStatus k st _ \<Rightarrow> k = i \<and> is_terminal st | _ \<Rightarrow> False)"

interpretation job_live: uniform_invariant
  "\<lambda>x. \<not> finishes i x" job_apply
  "\<lambda>s. job_wf s \<and> (\<exists>st. job_get i s = Some st \<and> \<not> is_terminal st)"
proof
  fix s x
  assume inv: "job_wf s \<and> (\<exists>st. job_get i s = Some st \<and> \<not> is_terminal st)" and "\<not> finishes i x"
  then have "\<forall>st' now. x = SetStatus i st' now \<longrightarrow> \<not> is_terminal st'"
    by (auto simp: finishes_def)
  with inv show "job_wf (job_apply x s) \<and> (\<exists>st. job_get i (job_apply x s) = Some st \<and> \<not> is_terminal st)"
    by (blast intro: job_wf_apply job_in_flight_apply)
qed

section \<open>Properties\<close>

text \<open>If no creation is made with a limit above \<open>b\<close>, the store never holds more than \<open>b\<close> jobs.\<close>

lemma job_store_bounded:
  assumes "list_all (creates_within b) ops"
  shows "job_count (run_ops job_apply ops job_store_new) \<le> b"
proof -
  have "job_wf job_store_new \<and> job_count job_store_new \<le> b"
    using job_wf_new by (simp add: job_count_def job_store_new_def hm.size_new)
  then show ?thesis
    using job_bound.run_keeps_ok assms by blast
qed

text \<open>
  Creation is a check and an insertion in one step: below the limit it returns the fresh id, whose
  job is \<open>Pending\<close>, adds exactly one job and touches no other; at or over the limit it returns
  \<open>None\<close> and changes nothing.\<close>

theorem try_create_under_spec:
  assumes "job_wf s" and "job_get uuid s = None"
  shows "(if job_count s < limit
      then (\<exists>s'. try_create_under limit uuid now s = (Some uuid, s') \<and> job_get uuid s' = Some Pending
             \<and> job_count s' = Suc (job_count s) \<and> (\<forall>i. i \<noteq> uuid \<longrightarrow> job_get i s' = job_get i s))
      else try_create_under limit uuid now s = (None, s))"
  using assms by (auto simp: try_create_under_def job_get_def job_count_def job_wf_def store_simps)

theorem try_create_under_spec_witness:
  "(\<exists>s'. try_create_under 1 ''a'' 7 job_store_new = (Some ''a'', s') \<and> job_get ''a'' s' = Some Pending)
   \<and> try_create_under 0 ''a'' 7 job_store_new = (None, job_store_new)"
proof -
  have h: "job_get ''a'' job_store_new = None"
    by (simp add: job_get_def job_store_new_def hm.get_new)
  have c: "job_count job_store_new = 0"
    by (simp add: job_count_def job_store_new_def hm.size_new)
  show ?thesis
    using try_create_under_spec[OF job_wf_new h, of 1 7] try_create_under_spec[OF job_wf_new h, of 0 7]
    by (auto simp: c)
qed

text \<open>
  A sweep removes exactly the terminal jobs whose last update is more than \<open>ttl\<close> ago, leaves every
  other job as it was, and returns how many it removed.\<close>

theorem evict_removes_exactly_the_aged_terminal_jobs:
  assumes "job_wf s" and "evict_terminal_older_than ttl now s = (n, s')"
  shows "n + job_count s' = job_count s
    \<and> (\<forall>i j. hm_get (jobs s) i = Some j \<longrightarrow>
         job_get i s' = (if is_terminal (job_state j) \<and> ttl < now - updated j then None else Some (job_state j)))
    \<and> (\<forall>i. job_get i s = None \<longrightarrow> job_get i s' = None)"
  using assms
  by (auto simp: evict_terminal_older_than_def Let_def job_get_def job_count_def job_wf_def elapsed_def
      hm.get_keep hm.size_keep_le split: option.splits)

theorem evict_removes_exactly_the_aged_terminal_jobs_witness:
  "\<exists>n s'. evict_terminal_older_than 5 20
       (run_ops job_apply [Create 9 ''a'' 0, Create 9 ''b'' 0, SetStatus ''a'' (Done ''x'') 1] job_store_new) = (n, s')
     \<and> job_get ''a'' s' = None \<and> job_get ''b'' s' = Some Pending"
proof -
  define s where "s = run_ops job_apply [Create 9 ''a'' 0, Create 9 ''b'' 0, SetStatus ''a'' (Done ''x'') 1] job_store_new"
  have wf: "job_wf s"
    unfolding s_def run_ops.simps by (intro job_wf_apply job_wf_new)
  obtain n s' where e: "evict_terminal_older_than 5 20 s = (n, s')"
    by fastforce
  have a: "hm_get (jobs s) ''a'' = Some \<lparr>job_state = Done ''x'', updated = 1\<rparr>"
    and b: "hm_get (jobs s) ''b'' = Some \<lparr>job_state = Pending, updated = 0\<rparr>"
    by (simp_all add: s_def try_create_under_def job_set_def job_store_new_def hm_get_def hm_insert_def hm_new_def hm_len_def)
  have "job_get ''a'' s' = None \<and> job_get ''b'' s' = Some Pending"
    using evict_removes_exactly_the_aged_terminal_jobs[OF wf e] a b by (simp add: is_terminal_def)
  with e show ?thesis
    unfolding s_def by blast
qed

text \<open>C16
  In-flight jobs are never evicted: a \<open>Pending\<close> or \<open>Running\<close> job is still held, still in flight,
  after any sequence of operations that does not record a terminal status for it.\<close>

theorem in_flight_jobs_survive:
  assumes "job_wf s" and "job_get i s = Some st" and "\<not> is_terminal st"
    and "list_all (\<lambda>x. \<not> finishes i x) ops"
  shows "\<exists>st'. job_get i (run_ops job_apply ops s) = Some st' \<and> \<not> is_terminal st'"
  using job_live.run_keeps_ok[of s i ops] assms by blast

theorem in_flight_jobs_survive_witness:
  "\<exists>st'. job_get ''a'' (run_ops job_apply [SetStatus ''a'' Running 3, Evict 0 100]
       (job_apply (Create 1 ''a'' 0) job_store_new)) = Some st' \<and> \<not> is_terminal st'"
proof (rule in_flight_jobs_survive)
  show "job_wf (job_apply (Create 1 ''a'' 0) job_store_new)"
    by (intro job_wf_apply job_wf_new)
  show "job_get ''a'' (job_apply (Create 1 ''a'' 0) job_store_new) = Some Pending"
    by (simp add: try_create_under_def job_get_def job_store_new_def hm_get_def hm_insert_def hm_new_def hm_len_def)
qed (simp_all add: is_terminal_def finishes_def)

text \<open>
  A late worker cannot resurrect an entry: once an id is absent, no sequence of updates and sweeps
  (and creations of other ids) brings it back.\<close>

theorem absent_jobs_stay_absent:
  assumes "job_wf s" and "job_get i s = None" and "list_all (\<lambda>x. \<not> creates_id i x) ops"
  shows "job_get i (run_ops job_apply ops s) = None"
  using job_gone.run_keeps_ok[of s i ops] assms by (simp add: job_get_def)

theorem absent_jobs_stay_absent_witness:
  "job_get ''a'' (run_ops job_apply [SetStatus ''a'' (Done ''late'') 9, Create 3 ''b'' 10] job_store_new) = None"
proof (rule absent_jobs_stay_absent)
  show "job_get ''a'' job_store_new = None"
    by (simp add: job_get_def job_store_new_def hm.get_new)
qed (simp_all add: job_wf_new creates_id_def)

section \<open>Every reply\<close>

datatype job_call = Update job_op | Ask string | Count_all

datatype job_reply = Created "string option" | Updated | Evicted nat | Status "job_status option" | Held nat

fun job_do :: "job_call \<Rightarrow> job_store \<Rightarrow> job_reply \<times> job_store" where
  "job_do (Update (Create limit uuid now)) s = (case try_create_under limit uuid now s of (r, s') \<Rightarrow> (Created r, s'))"
| "job_do (Update (SetStatus i st now)) s = (Updated, job_set i st now s)"
| "job_do (Update (Evict ttl now)) s = (case evict_terminal_older_than ttl now s of (n, s') \<Rightarrow> (Evicted n, s'))"
| "job_do (Ask i) s = (Status (job_get i s), s)"
| "job_do Count_all s = (Held (job_count s), s)"

text \<open>What the same call answers on a partial map.\<close>

fun job_answer :: "job_call \<Rightarrow> (string \<rightharpoonup> job_status \<times> instant) \<Rightarrow> job_reply" where
  "job_answer (Update (Create limit uuid now)) m = Created (if card (dom m) < limit then Some uuid else None)"
| "job_answer (Update (SetStatus i st now)) m = Updated"
| "job_answer (Update (Evict ttl now)) m = Evicted (card {i. \<exists>st t. m i = Some (st, t) \<and> is_terminal st \<and> ttl < now - t})"
| "job_answer (Ask i) m = Status (map_option fst (m i))"
| "job_answer Count_all m = Held (card (dom m))"

fun job_after :: "job_call \<Rightarrow> (string \<rightharpoonup> job_status \<times> instant) \<Rightarrow> (string \<rightharpoonup> job_status \<times> instant)" where
  "job_after (Update x) m = spec_apply x m"
| "job_after _ m = m"

definition job_spec :: "job_call \<Rightarrow> (string \<rightharpoonup> job_status \<times> instant) \<Rightarrow> job_reply \<Rightarrow> (string \<rightharpoonup> job_status \<times> instant) \<Rightarrow> bool" where
  "job_spec x m r m' \<longleftrightarrow> r = job_answer x m \<and> m' = job_after x m"

lemma evicted_number:
  assumes "job_wf s"
  shows "fst (evict_terminal_older_than ttl now s) = card {i. \<exists>st t. job_abs s i = Some (st, t) \<and> is_terminal st \<and> ttl < now - t}"
proof -
  let ?P = "\<lambda>j. is_terminal (job_state j) \<and> elapsed now (updated j) > ttl"
  have wf: "hm_wf (jobs s)" using assms by (simp add: job_wf_def)
  have "hm_len (hm_retain (\<lambda>_ j. \<not> ?P j) (jobs s)) = hm_count (\<lambda>j. \<not> ?P j) (jobs s)"
    by (simp add: hm_len_def hm_retain_def hm_count_def)
  then have "fst (evict_terminal_older_than ttl now s) = hm_count ?P (jobs s)"
    using hm_count_laws(5)[OF wf, of ?P] by (simp add: evict_terminal_older_than_def)
  also have "\<dots> = card {i. \<exists>j. hm_get (jobs s) i = Some j \<and> ?P j}"
    by (rule hm.count_card[unfolded hm_count_eq, OF wf])
  also have "{i. \<exists>j. hm_get (jobs s) i = Some j \<and> ?P j} = {i. \<exists>st t. job_abs s i = Some (st, t) \<and> is_terminal st \<and> ttl < now - t}"
    by (auto simp: job_abs_def elapsed_def)
  finally show ?thesis .
qed

lemma job_do_refines:
  assumes "job_wf s" and "job_do x s = (r, s')"
  shows "job_spec x (job_abs s) r (job_abs s') \<and> job_wf s'"
proof (cases x)
  case (Update y)
  have s': "s' = job_apply y s" using assms(2) Update by (cases y) (auto split: prod.splits)
  have "r = job_answer x (job_abs s)"
    using assms(2) Update job_count_abs[OF assms(1)]
    by (cases y) (auto simp: try_create_under_def job_count_def evicted_number[OF assms(1), symmetric] split: prod.splits)
  with s' Update job_abs_apply[OF assms(1)] job_wf_apply[OF assms(1)] show ?thesis
    by (simp add: job_spec_def)
next
  case (Ask i)
  with assms show ?thesis by (auto simp: job_spec_def job_get_def job_abs_def option.map_comp comp_def)
next
  case Count_all
  with assms job_count_abs[OF assms(1)] show ?thesis by (auto simp: job_spec_def)
qed

interpretation job_calls: forward_simulation job_do job_spec "\<lambda>_. None" "\<lambda>_. True" "\<lambda>_ m s. job_wf s \<and> m = job_abs s"
  by unfold_locales (use job_do_refines in blast)

text \<open>Callers that never create above \<open>bound\<close> never count more.\<close>

definition calls_within :: "nat \<Rightarrow> job_call \<Rightarrow> bool" where
  "calls_within b x = (case x of Update y \<Rightarrow> creates_within b y | _ \<Rightarrow> True)"

lemma held_bounded:
  "job_wf s \<Longrightarrow> job_count s \<le> b \<Longrightarrow> list_all (calls_within b) calls \<Longrightarrow> Held n \<in> set (replies job_do calls s) \<Longrightarrow> n \<le> b"
proof (induction calls arbitrary: s)
  case (Cons x calls)
  obtain r s' where x: "job_do x s = (r, s')" by fastforce
  have wf: "job_wf s'" using job_do_refines[OF Cons.prems(1) x] by blast
  have "job_count s' \<le> b"
  proof (cases x)
    case (Update y)
    then have "s' = job_apply y s" using x by (cases y) (auto split: prod.splits)
    with job_count_apply[OF Cons.prems(1) _ Cons.prems(2)] Update Cons.prems(3) show ?thesis by (simp add: calls_within_def)
  qed (use x Cons.prems(2) in auto)
  moreover have "r = Held n \<Longrightarrow> n \<le> b" using x Cons.prems(2) by (cases x rule: job_call.exhaust) (auto split: prod.splits job_op.splits elim: job_do.elims)
  ultimately show ?case
    using Cons.IH[OF wf] Cons.prems(3,4) x by auto
qed simp

text \<open>C15
  The store refines its abstract contract: over any calls on a new store, every reply (the id created or the
  refusal, the status asked for, the number of jobs evicted, the number held) is the one a partial map
  from ids to status and time of last update gives. And its growth is bounded: if no creation is made with a limit
  above \<open>b\<close>, no count exceeds \<open>b\<close>.\<close>

theorem job_store_refines_map:
  "(\<exists>m. spec_run job_spec calls Map.empty (replies job_do calls job_store_new) m)
   \<and> (list_all (calls_within b) calls \<longrightarrow> (\<forall>n. Held n \<in> set (replies job_do calls job_store_new) \<longrightarrow> n \<le> b))"
proof
  have "job_abs job_store_new = Map.empty"
    by (auto simp: job_abs_def job_store_new_def hm.get_new)
  with job_wf_new have "job_wf job_store_new \<and> Map.empty = job_abs job_store_new" by simp
  from job_calls.run_simulates[OF this, of calls 0]
  show "\<exists>m. spec_run job_spec calls Map.empty (replies job_do calls job_store_new) m"
    by (simp add: list_all_iff in_order_None)
  have "job_count job_store_new \<le> b" by (simp add: job_count_def job_store_new_def hm.size_new)
  with held_bounded[OF job_wf_new] show "list_all (calls_within b) calls \<longrightarrow> (\<forall>n. Held n \<in> set (replies job_do calls job_store_new) \<longrightarrow> n \<le> b)"
    by blast
qed

theorem job_store_refines_map_witness:
  "replies job_do [Update (Create 2 ''a'' 0), Update (Create 1 ''b'' 1), Count_all] job_store_new = [Created (Some ''a''), Created None, Held 1]
   \<and> (1::nat) \<le> 2"
proof -
  have r: "replies job_do [Update (Create 2 ''a'' 0), Update (Create 1 ''b'' 1), Count_all] job_store_new = [Created (Some ''a''), Created None, Held 1]"
    by (simp add: try_create_under_def job_count_def job_store_new_def hm_new_def hm_len_def hm_insert_def)
  have "list_all (calls_within 2) [Update (Create 2 ''a'' 0), Update (Create 1 ''b'' 1), Count_all]"
    by (simp add: calls_within_def creates_within_def)
  with job_store_refines_map[of "[Update (Create 2 ''a'' 0), Update (Create 1 ''b'' 1), Count_all]" 2]
  have "\<forall>n. Held n \<in> set [Created (Some ''a''), Created None, Held 1] \<longrightarrow> n \<le> 2" unfolding r by blast
  with r show ?thesis by simp
qed

end
