(* ===== verification/Text.thy ===== *)
theory Text
  imports Prelude
begin

text \<open>
  The \<open>str\<close> and \<open>char\<close> functions of Rust's standard library that the crate calls. A Rust string
  is its UTF-8 bytes, a list of \<open>char\<close>; \<open>len\<close> counts bytes. Where the library works on Unicode
  scalar values (\<open>chars\<close>, \<open>trim\<close>), the bytes are decoded first.
\<close>

section \<open>UTF-8\<close>

definition byte :: "char \<Rightarrow> nat" where
  "byte c = of_char c"

definition utf8_width :: "nat \<Rightarrow> nat" where
  "utf8_width b = (if b < 128 then 1 else if b < 224 then 2 else if b < 240 then 3 else 4)"

definition utf8_lead :: "nat \<Rightarrow> nat" where
  "utf8_lead b = (if b < 128 then b else if b < 224 then b - 192 else if b < 240 then b - 224 else b - 240)"

definition code_point :: "char \<Rightarrow> string \<Rightarrow> nat" where
  "code_point c k = foldl (\<lambda>a d. a * 64 + byte d mod 64) (utf8_lead (byte c)) k"

text \<open>The scalar values of a string, each with the bytes that encode it.\<close>

fun utf8_split :: "string \<Rightarrow> (nat \<times> string) list" where
  "utf8_split [] = []"
| "utf8_split (c # cs) =
     (let k = take (utf8_width (byte c) - 1) cs
      in (code_point c k, c # k) # utf8_split (drop (utf8_width (byte c) - 1) cs))"

definition chars :: "string \<Rightarrow> nat list" where
  "chars s = map fst (utf8_split s)"

definition ascii_str :: "string \<Rightarrow> bool" where
  "ascii_str s \<longleftrightarrow> (\<forall>c \<in> set s. byte c < 128)"

lemma utf8_split_bytes: "concat (map snd (utf8_split s)) = s"
  by (induction s rule: utf8_split.induct) (auto simp: Let_def)

lemma utf8_split_ascii: "ascii_str s \<Longrightarrow> utf8_split s = map (\<lambda>c. (byte c, [c])) s"
  by (induction s) (auto simp: ascii_str_def utf8_width_def code_point_def utf8_lead_def)

lemma chars_ascii: "ascii_str s \<Longrightarrow> chars s = map byte s"
  by (simp add: chars_def utf8_split_ascii)

lemma chars_Nil [simp]: "chars [] = []"
  by (simp add: chars_def)

section \<open>Character classes\<close>

definition is_control :: "nat \<Rightarrow> bool" where
  "is_control u \<longleftrightarrow> u < 32 \<or> (127 \<le> u \<and> u < 160)"

definition is_whitespace :: "nat \<Rightarrow> bool" where
  "is_whitespace u \<longleftrightarrow> (9 \<le> u \<and> u \<le> 13) \<or> u = 32 \<or> u = 133 \<or> u = 160 \<or> u = 5760
     \<or> (8192 \<le> u \<and> u \<le> 8202) \<or> u = 8232 \<or> u = 8233 \<or> u = 8239 \<or> u = 8287 \<or> u = 12288"

definition is_ascii_alphanumeric :: "nat \<Rightarrow> bool" where
  "is_ascii_alphanumeric u \<longleftrightarrow> (48 \<le> u \<and> u \<le> 57) \<or> (65 \<le> u \<and> u \<le> 90) \<or> (97 \<le> u \<and> u \<le> 122)"

definition to_ascii_lowercase :: "string \<Rightarrow> string" where
  "to_ascii_lowercase s = map (\<lambda>c. if 65 \<le> byte c \<and> byte c \<le> 90 then char_of (byte c + 32) else c) s"

section \<open>Prefixes, splitting, trimming\<close>

fun strip_prefix :: "string \<Rightarrow> string \<Rightarrow> string option" where
  "strip_prefix [] s = Some s"
| "strip_prefix (p # ps) [] = None"
| "strip_prefix (p # ps) (c # cs) = (if p = c then strip_prefix ps cs else None)"

definition starts_with :: "string \<Rightarrow> string \<Rightarrow> bool" where
  "starts_with p s \<longleftrightarrow> strip_prefix p s \<noteq> None"

fun split_on :: "char \<Rightarrow> string \<Rightarrow> string list" where
  "split_on d [] = [[]]"
| "split_on d (c # cs) =
     (if c = d then [] # split_on d cs
      else (case split_on d cs of [] \<Rightarrow> [[c]] | w # ws \<Rightarrow> (c # w) # ws))"

definition split_once :: "char \<Rightarrow> string \<Rightarrow> (string \<times> string) option" where
  "split_once d s = (if d \<in> set s then Some (takeWhile (\<lambda>c. c \<noteq> d) s, tl (dropWhile (\<lambda>c. c \<noteq> d) s)) else None)"

definition trim :: "string \<Rightarrow> string" where
  "trim s =
     (let ws = (\<lambda>(u, _). is_whitespace u)
      in concat (map snd (rev (dropWhile ws (rev (dropWhile ws (utf8_split s)))))))"

definition trim_end_matches :: "char \<Rightarrow> string \<Rightarrow> string" where
  "trim_end_matches d s = rev (dropWhile (\<lambda>c. c = d) (rev s))"

lemma strip_prefix_append: "strip_prefix p (p @ s) = Some s"
  by (induction p) auto

lemma strip_prefix_SomeD: "strip_prefix p s = Some r \<Longrightarrow> s = p @ r"
  by (induction p s rule: strip_prefix.induct) (auto split: if_splits)

lemma strip_prefix_eq_Some: "strip_prefix p s = Some r \<longleftrightarrow> s = p @ r"
  by (auto simp: strip_prefix_append dest: strip_prefix_SomeD)

lemma starts_with_iff: "starts_with p s \<longleftrightarrow> (\<exists>r. s = p @ r)"
  unfolding starts_with_def
  by (cases "strip_prefix p s") (auto simp: strip_prefix_append dest: strip_prefix_SomeD)

lemma split_on_no_sep: "d \<notin> set s \<Longrightarrow> split_on d s = [s]"
  by (induction s) auto

lemma split_on_append: "d \<notin> set s \<Longrightarrow> split_on d (s @ d # t) = s # split_on d t"
  by (induction s) auto

lemma split_on_sep_free: "w \<in> set (split_on d s) \<Longrightarrow> d \<notin> set w"
  by (induction s arbitrary: w) (auto split: if_splits list.splits)

lemma split_once_append: "d \<notin> set k \<Longrightarrow> split_once d (k @ d # v) = Some (k, v)"
proof -
  assume d: "d \<notin> set k"
  have "takeWhile (\<lambda>c. c \<noteq> d) (k @ d # v) = k"
    using d by (induction k) auto
  moreover have "dropWhile (\<lambda>c. c \<noteq> d) (k @ d # v) = d # v"
    using d by (induction k) auto
  ultimately show ?thesis by (simp add: split_once_def)
qed

text \<open>Trimming leaves text alone that neither starts nor ends with white space.\<close>

definition no_blank :: "string \<Rightarrow> bool" where
  "no_blank s \<longleftrightarrow> (\<forall>c \<in> set s. byte c < 128 \<and> \<not> is_whitespace (byte c))"

lemma dropWhile_none: "(\<forall>x \<in> set xs. \<not> P x) \<Longrightarrow> dropWhile P xs = xs"
  by (cases xs) auto

lemma trim_no_blank: "no_blank s \<Longrightarrow> trim s = s"
proof -
  assume nb: "no_blank s"
  then have "utf8_split s = map (\<lambda>c. (byte c, [c])) s"
    by (intro utf8_split_ascii) (simp add: no_blank_def ascii_str_def)
  moreover have "concat (map (snd \<circ> (\<lambda>c. (byte c, [c]))) s) = s"
    by (induction s) auto
  ultimately show ?thesis
    using nb by (simp add: trim_def no_blank_def dropWhile_none rev_map)
qed

lemma trim_blank_front: "no_blank s \<Longrightarrow> trim (CHR '' '' # s) = s"
proof -
  assume nb: "no_blank s"
  have sp: "byte (CHR '' '') = 32"
    by (simp add: byte_def)
  have "utf8_split (CHR '' '' # s) = (32, '' '') # utf8_split s"
    by (simp add: sp utf8_width_def code_point_def utf8_lead_def)
  moreover have "trim s = s"
    by (rule trim_no_blank) fact
  ultimately show ?thesis
    by (simp add: trim_def is_whitespace_def)
qed

section \<open>Decimal numbers\<close>

definition digit :: "nat \<Rightarrow> char" where
  "digit d = char_of (48 + d)"

lemma digit_zero: "digit 0 = CHR ''0''"
proof -
  have "48 = (of_char CHR ''0'' :: nat)" by simp
  then show ?thesis
    unfolding digit_def by (simp only: add_0_right char_of_char)
qed

fun decimal :: "nat \<Rightarrow> string" where
  "decimal n = (if n < 10 then [digit n] else decimal (n div 10) @ [digit (n mod 10)])"

declare decimal.simps [simp del]

definition is_digit :: "char \<Rightarrow> bool" where
  "is_digit c \<longleftrightarrow> 48 \<le> byte c \<and> byte c \<le> 57"

definition digits_value :: "string \<Rightarrow> nat" where
  "digits_value s = foldl (\<lambda>a c. a * 10 + (byte c - 48)) 0 s"

text \<open>\<open>str::parse\<close> at an unsigned type of \<open>w\<close> bits: an optional plus sign, then digits that fit.\<close>

definition parse_unsigned :: "nat \<Rightarrow> string \<Rightarrow> nat option" where
  "parse_unsigned w s =
     (let ds = (case s of [] \<Rightarrow> [] | c # cs \<Rightarrow> if c = CHR ''+'' then cs else s)
      in if ds = [] \<or> \<not> list_all is_digit ds then None
         else if digits_value ds < 2 ^ w then Some (digits_value ds) else None)"

lemma byte_digit: "d < 10 \<Longrightarrow> byte (digit d) = 48 + d"
  by (simp add: byte_def digit_def)

lemma is_digit_digit: "d < 10 \<Longrightarrow> is_digit (digit d)"
  by (simp add: is_digit_def byte_digit)

lemma decimal_digits: "list_all is_digit (decimal n)"
proof (induction n rule: decimal.induct)
  case (1 n)
  then show ?case
    by (subst decimal.simps) (auto simp: is_digit_digit)
qed

lemma decimal_not_Nil: "decimal n \<noteq> []"
  by (subst decimal.simps) simp

lemma digits_value_decimal: "digits_value (decimal n) = n"
proof (induction n rule: decimal.induct)
  case (1 n)
  then show ?case
    by (subst decimal.simps) (auto simp: digits_value_def byte_digit)
qed

lemma parse_unsigned_decimal: "n < 2 ^ w \<Longrightarrow> parse_unsigned w (decimal n) = Some n"
proof -
  assume n: "n < 2 ^ w"
  obtain c cs where d: "decimal n = c # cs"
    using decimal_not_Nil by (cases "decimal n") auto
  then have "is_digit c"
    using decimal_digits[of n] by simp
  then have "c \<noteq> CHR ''+''"
    by (auto simp: is_digit_def byte_def)
  then show ?thesis
    using n decimal_digits[of n] digits_value_decimal[of n]
    by (simp add: parse_unsigned_def d)
qed

lemma parse_unsigned_bound: "parse_unsigned w s = Some n \<Longrightarrow> n < 2 ^ w"
  by (auto simp: parse_unsigned_def Let_def split: if_splits)

end
