(* ===== verification/HttpBody.thy ===== *)
theory HttpBody
  imports Prelude
begin

text \<open>
  \<open>src/src/http.rs\<close> and \<open>src/src/login/http.rs\<close>: reading a response body under a byte ceiling, and
  the HTTP client the sign-in talks to the identity provider through. A response is what
  \<open>reqwest\<close> reports of it: the declared length, if any, and what each successive call of
  \<open>chunk()\<close> returns. The remote decides that sequence, which may never end.
\<close>

section \<open>A response as the client sees it\<close>

datatype chunk_item = Chunk string | End | Broken

record response =
  content_length :: "u64 option"
  chunk_at :: "nat \<Rightarrow> chunk_item"

datatype body_error = Declared_over u64 | Exceeds | Read_failed

text \<open>
  \<open>Panic\<close> is the standard library's capacity overflow: a \<open>Vec\<close> never holds more than
  \<open>isize::MAX\<close> bytes.
\<close>

datatype body_result = Body string | Bail body_error | Panic

definition isize_max :: nat where
  "isize_max = 2 ^ 63 - 1"

definition with_capacity_ok :: "u64 \<Rightarrow> bool" where
  "with_capacity_ok n \<longleftrightarrow> unat n \<le> isize_max"

section \<open>\<open>read_body_capped\<close>\<close>

text \<open>The loop of \<open>chunk()\<close> calls; \<open>None\<close> is a loop that never returns.\<close>

partial_function (option) read_chunks :: "u64 \<Rightarrow> (nat \<Rightarrow> chunk_item) \<Rightarrow> nat \<Rightarrow> string \<Rightarrow> body_result option" where
  "read_chunks cap st i buf =
     (case st i of
        End \<Rightarrow> Some (Body buf)
      | Broken \<Rightarrow> Some (Bail Read_failed)
      | Chunk c \<Rightarrow>
          if word_of_nat (length buf) + word_of_nat (length c) > cap then Some (Bail Exceeds)
          else if length buf + length c > isize_max then Some Panic
          else read_chunks cap st (Suc i) (buf @ c))"

definition read_body_capped :: "'a response_scheme \<Rightarrow> u64 \<Rightarrow> body_result option" where
  "read_body_capped r cap =
     (case content_length r of
        Some len \<Rightarrow>
          if len > cap then Some (Bail (Declared_over len))
          else if with_capacity_ok (min len cap) then read_chunks cap (chunk_at r) 0 []
          else Some Panic
      | None \<Rightarrow> read_chunks cap (chunk_at r) 0 [])"

text \<open>What Rust guarantees of every slice: its length fits \<open>isize\<close>.\<close>

definition sane_stream :: "(nat \<Rightarrow> chunk_item) \<Rightarrow> bool" where
  "sane_stream st \<longleftrightarrow> (\<forall>i c. st i = Chunk c \<longrightarrow> length c \<le> isize_max)"

text \<open>The body a stream carries: \<open>n\<close> chunks, then its end.\<close>

fun stream_prefix :: "(nat \<Rightarrow> chunk_item) \<Rightarrow> nat \<Rightarrow> nat \<Rightarrow> string option" where
  "stream_prefix st i 0 = Some []"
| "stream_prefix st i (Suc n) =
     (case st i of Chunk c \<Rightarrow> map_option (\<lambda>b. c @ b) (stream_prefix st (Suc i) n) | _ \<Rightarrow> None)"

definition stream_body :: "(nat \<Rightarrow> chunk_item) \<Rightarrow> nat \<Rightarrow> string \<Rightarrow> bool" where
  "stream_body st i b \<longleftrightarrow> (\<exists>n. stream_prefix st i n = Some b \<and> st (i + n) = End)"

lemma len_sum_no_wrap:
  "a \<le> isize_max \<Longrightarrow> b \<le> isize_max \<Longrightarrow> unat (word_of_nat a + word_of_nat b :: u64) = a + b"
  by (simp add: unat_word_ariths unat_of_nat isize_max_def)

lemma over_cap_iff:
  "a \<le> isize_max \<Longrightarrow> b \<le> isize_max \<Longrightarrow> (word_of_nat a + word_of_nat b > (cap :: u64)) = (a + b > unat cap)"
  by (simp add: word_less_nat_alt len_sum_no_wrap)

lemma stream_body_End: "st i = End \<Longrightarrow> stream_body st i b \<longleftrightarrow> b = []"
proof -
  assume e: "st i = End"
  have "stream_prefix st i n = Some b \<Longrightarrow> n = 0" for n
    using e by (cases n) auto
  then show ?thesis
    unfolding stream_body_def using e by (metis add_0_right option.inject stream_prefix.simps(1))
qed

lemma stream_body_Broken: "st i = Broken \<Longrightarrow> \<not> stream_body st i b"
proof -
  assume e: "st i = Broken"
  have "stream_prefix st i n = Some b \<Longrightarrow> n = 0" for n
    using e by (cases n) auto
  then show ?thesis
    unfolding stream_body_def using e by fastforce
qed

lemma stream_body_Chunk:
  "st i = Chunk c \<Longrightarrow> stream_body st i b \<longleftrightarrow> (\<exists>b'. b = c @ b' \<and> stream_body st (Suc i) b')"
proof
  assume c: "st i = Chunk c" and "stream_body st i b"
  then obtain n where n: "stream_prefix st i n = Some b" "st (i + n) = End"
    by (auto simp: stream_body_def)
  with c obtain m where "n = Suc m"
    by (cases n) auto
  with n c show "\<exists>b'. b = c @ b' \<and> stream_body st (Suc i) b'"
    by (auto simp: stream_body_def)
next
  assume c: "st i = Chunk c" and "\<exists>b'. b = c @ b' \<and> stream_body st (Suc i) b'"
  then obtain b' n where b': "b = c @ b'" "stream_prefix st (Suc i) n = Some b'" "st (Suc i + n) = End"
    by (auto simp: stream_body_def)
  with c have "stream_prefix st i (Suc n) = Some b" and "st (i + Suc n) = End"
    by simp_all
  then show "stream_body st i b"
    unfolding stream_body_def by blast
qed

text \<open>What the loop returns, for a body that fits a \<open>Vec\<close>.\<close>

lemma read_chunks_sound:
  assumes ret: "read_chunks cap st i buf = Some (Body b)"
    and sane: "sane_stream st" and buf: "length buf \<le> isize_max" "length buf \<le> unat cap"
  shows "\<exists>b'. b = buf @ b' \<and> stream_body st i b' \<and> length b \<le> unat cap"
proof -
  have "sane_stream st \<longrightarrow> length buf \<le> isize_max \<longrightarrow> length buf \<le> unat cap \<longrightarrow>
      (\<forall>b. Body b = r \<longrightarrow> (\<exists>b'. b = buf @ b' \<and> stream_body st i b' \<and> length b \<le> unat cap))"
    if "read_chunks cap st i buf = Some r" for r
  proof (rule read_chunks.raw_induct [where P = "\<lambda>cap st i buf r. sane_stream st \<longrightarrow>
      length buf \<le> isize_max \<longrightarrow> length buf \<le> unat cap \<longrightarrow>
      (\<forall>b. Body b = r \<longrightarrow> (\<exists>b'. b = buf @ b' \<and> stream_body st i b' \<and> length b \<le> unat cap))", OF _ that])
    fix f :: "u64 \<Rightarrow> (nat \<Rightarrow> chunk_item) \<Rightarrow> nat \<Rightarrow> string \<Rightarrow> body_result option" and cap st i buf r
    assume IH: "\<And>cap st i buf r. f cap st i buf = Some r \<Longrightarrow> sane_stream st \<longrightarrow>
        length buf \<le> isize_max \<longrightarrow> length buf \<le> unat cap \<longrightarrow>
        (\<forall>b. Body b = r \<longrightarrow> (\<exists>b'. b = buf @ b' \<and> stream_body st i b' \<and> length b \<le> unat cap))"
      and eq: "(case st i of
        Chunk c \<Rightarrow>
          if cap < word_of_nat (length buf) + word_of_nat (length c) then Some (Bail Exceeds)
          else if isize_max < length buf + length c then Some Panic
          else f cap st (Suc i) (buf @ c)
      | End \<Rightarrow> Some (Body buf) | Broken \<Rightarrow> Some (Bail Read_failed)) = Some r"
    show "sane_stream st \<longrightarrow> length buf \<le> isize_max \<longrightarrow> length buf \<le> unat cap \<longrightarrow>
      (\<forall>b. Body b = r \<longrightarrow> (\<exists>b'. b = buf @ b' \<and> stream_body st i b' \<and> length b \<le> unat cap))"
    proof (cases "st i")
      case (Chunk c)
      show ?thesis
      proof (intro impI allI)
        fix b
        assume s: "sane_stream st" and l: "length buf \<le> isize_max" "length buf \<le> unat cap" and r: "Body b = r"
        have c: "length c \<le> isize_max"
          using s Chunk by (auto simp: sane_stream_def)
        have step: "(if unat cap < length buf + length c then Some (Bail Exceeds)
            else if isize_max < length buf + length c then Some Panic
            else f cap st (Suc i) (buf @ c)) = Some (Body b)"
          using eq unfolding Chunk chunk_item.case over_cap_iff[OF l(1) c] r .
        then have n: "length buf + length c \<le> unat cap" "length buf + length c \<le> isize_max"
          by (simp_all split: if_splits)
        with step r have f: "f cap st (Suc i) (buf @ c) = Some r"
          by simp
        from IH[OF f] s r n obtain b' where "b = (buf @ c) @ b'" "stream_body st (Suc i) b'" "length b \<le> unat cap"
          by auto
        then show "\<exists>b'. b = buf @ b' \<and> stream_body st i b' \<and> length b \<le> unat cap"
          using stream_body_Chunk[of st i c] Chunk by auto
      qed
    qed (use eq in \<open>auto simp: stream_body_End\<close>)
  qed
  with assms show ?thesis by blast
qed

lemma read_chunks_complete:
  assumes "stream_prefix st i n = Some b'" and "st (i + n) = End"
    and "sane_stream st" and "length buf + length b' \<le> unat cap" and "unat cap \<le> isize_max"
  shows "read_chunks cap st i buf = Some (Body (buf @ b'))"
  using assms
proof (induction n arbitrary: i buf b')
  case 0
  then show ?case by (simp add: read_chunks.simps)
next
  case (Suc n)
  then obtain c d where c: "st i = Chunk c" and d: "stream_prefix st (Suc i) n = Some d" "b' = c @ d"
    by (auto split: chunk_item.splits)
  then have "length c \<le> isize_max"
    using Suc.prems(3) by (auto simp: sane_stream_def)
  moreover have "read_chunks cap st (Suc i) (buf @ c) = Some (Body ((buf @ c) @ d))"
    using Suc.prems d by (intro Suc.IH) auto
  ultimately show ?case
    using Suc.prems c d by (subst read_chunks.simps) (auto simp: over_cap_iff)
qed

lemma read_chunks_returns:
  assumes "\<And>j c. st j = Chunk c \<Longrightarrow> c \<noteq> []" and "sane_stream st"
    and "length buf \<le> isize_max" and "length buf \<le> unat cap"
  shows "\<exists>r. read_chunks cap st i buf = Some r"
  using assms
proof (induction "unat cap - length buf" arbitrary: i buf rule: less_induct)
  case less
  show ?case
  proof (cases "st i")
    case (Chunk c)
    then have c: "c \<noteq> []" "length c \<le> isize_max"
      using less.prems(1,2) by (auto simp: sane_stream_def)
    show ?thesis
    proof (cases "length buf + length c \<le> unat cap \<and> length buf + length c \<le> isize_max")
      case True
      then have "unat cap - length (buf @ c) < unat cap - length buf"
        using c by (cases c) auto
      then obtain r where "read_chunks cap st (Suc i) (buf @ c) = Some r"
        using less.hyps[of "buf @ c" "Suc i"] less.prems(1,2) True by auto
      then show ?thesis
        using Chunk by (subst read_chunks.simps) auto
    next
      case False
      then show ?thesis
        using Chunk c less.prems(3) by (subst read_chunks.simps) (auto simp: over_cap_iff)
    qed
  qed (simp_all add: read_chunks.simps)
qed


section \<open>The client settings for an identity provider\<close>

text \<open>What is set on the \<open>reqwest\<close> client builder; \<open>None\<close> leaves the library's default.\<close>

record client_builder =
  rustls_tls :: bool
  connect_timeout :: "duration option"
  total_timeout :: "duration option"
  redirects_off :: bool

definition idp_client_builder :: client_builder where
  "idp_client_builder =
     \<lparr>rustls_tls = True, connect_timeout = Some (from_secs 5), total_timeout = Some (from_secs 10), redirects_off = False\<rparr>"

section \<open>The sign-in's HTTP client\<close>

definition max_response_bytes :: u64 where
  "max_response_bytes = 1024 * 1024"

definition login_http_new :: client_builder where
  "login_http_new = idp_client_builder\<lparr>redirects_off := True\<rparr>"

record http_response = response +
  resp_status :: nat
  resp_headers :: headers

record http_reply =
  reply_status :: nat
  reply_headers :: headers
  reply_body :: string

datatype call_error = Bad_request | Execute_failed | Redirect_refused nat | Body_refused body_error

datatype call_result = Call_ok http_reply | Call_err call_error | Call_panic

text \<open>
  The parts of \<open>reqwest\<close> and \<open>http\<close> the adapter calls: converting the request, sending it, and
  classifying a status. \<open>None\<close> is the library's error.
\<close>

record ('req, 'native) http_client =
  try_into :: "'req \<Rightarrow> 'native option"
  execute :: "'native \<Rightarrow> http_response option"
  is_redirection :: "nat \<Rightarrow> bool"

definition login_http_call :: "('req, 'native) http_client \<Rightarrow> 'req \<Rightarrow> call_result option" where
  "login_http_call L request =
     (case try_into L request of None \<Rightarrow> Some (Call_err Bad_request) | Some q \<Rightarrow>
      (case execute L q of None \<Rightarrow> Some (Call_err Execute_failed) | Some resp \<Rightarrow>
        if is_redirection L (resp_status resp) then Some (Call_err (Redirect_refused (resp_status resp)))
        else (case read_body_capped resp max_response_bytes of
                None \<Rightarrow> None
              | Some Panic \<Rightarrow> Some Call_panic
              | Some (Bail e) \<Rightarrow> Some (Call_err (Body_refused e))
              | Some (Body b) \<Rightarrow> Some (Call_ok
                  \<lparr>reply_status = resp_status resp, reply_headers = resp_headers resp, reply_body = b\<rparr>))))"

section \<open>Properties\<close>

text \<open>A body under a ceiling that fits \<open>isize\<close> never overflows the buffer.\<close>

lemma read_chunks_no_panic:
  assumes ret: "read_chunks cap st i buf = Some r" and sane: "sane_stream st" and cap: "unat cap \<le> isize_max" and buf: "length buf \<le> unat cap"
  shows "r \<noteq> Panic"
proof -
  have "sane_stream st \<longrightarrow> unat cap \<le> isize_max \<longrightarrow> length buf \<le> unat cap \<longrightarrow> r \<noteq> Panic"
  proof (rule read_chunks.raw_induct [where P = "\<lambda>cap st i buf r. sane_stream st \<longrightarrow> unat cap \<le> isize_max
      \<longrightarrow> length buf \<le> unat cap \<longrightarrow> r \<noteq> Panic", OF _ ret])
    fix f :: "u64 \<Rightarrow> (nat \<Rightarrow> chunk_item) \<Rightarrow> nat \<Rightarrow> string \<Rightarrow> body_result option" and cap st i buf r
    assume IH: "\<And>cap st i buf r. f cap st i buf = Some r \<Longrightarrow> sane_stream st \<longrightarrow> unat cap \<le> isize_max \<longrightarrow> length buf \<le> unat cap \<longrightarrow> r \<noteq> Panic"
      and eq: "(case st i of
        Chunk c \<Rightarrow>
          if cap < word_of_nat (length buf) + word_of_nat (length c) then Some (Bail Exceeds)
          else if isize_max < length buf + length c then Some Panic
          else f cap st (Suc i) (buf @ c)
      | End \<Rightarrow> Some (Body buf) | Broken \<Rightarrow> Some (Bail Read_failed)) = Some r"
    show "sane_stream st \<longrightarrow> unat cap \<le> isize_max \<longrightarrow> length buf \<le> unat cap \<longrightarrow> r \<noteq> Panic"
    proof (intro impI)
      assume h: "sane_stream st" "unat cap \<le> isize_max" "length buf \<le> unat cap"
      show "r \<noteq> Panic"
      proof (cases "st i")
        case (Chunk c)
        then have "length c \<le> isize_max" using h(1) by (auto simp: sane_stream_def)
        then have "(if unat cap < length buf + length c then Some (Bail Exceeds)
            else if isize_max < length buf + length c then Some Panic
            else f cap st (Suc i) (buf @ c)) = Some r"
          using eq h over_cap_iff[of "length buf" "length c" cap] unfolding Chunk chunk_item.case by (metis le_trans)
        with IH[of cap st "Suc i" "buf @ c" r] h show ?thesis by (auto split: if_splits)
      qed (use eq in auto)
    qed
  qed
  with sane cap buf show ?thesis by blast
qed

lemma capped_returns:
  assumes "\<forall>i c. chunk_at r i = Chunk c \<longrightarrow> c \<noteq> []" and "sane_stream (chunk_at r)"
  shows "\<exists>res. read_body_capped r cap = Some res"
proof -
  obtain res where "read_chunks cap (chunk_at r) 0 [] = Some res"
    using read_chunks_returns[of "chunk_at r" "[]" cap 0] assms by auto
  then show ?thesis
    by (auto simp: read_body_capped_def split: option.splits)
qed

lemma capped_no_panic: "sane_stream (chunk_at r) \<Longrightarrow> unat cap \<le> isize_max \<Longrightarrow> read_body_capped r cap \<noteq> Some Panic"
  using read_chunks_no_panic[of cap "chunk_at r" 0 "[]"]
  by (auto simp: read_body_capped_def with_capacity_ok_def min_def word_le_nat_alt split: option.splits if_splits)

lemma capped_iff:
  assumes "sane_stream (chunk_at r)" and "unat cap \<le> isize_max"
  shows "read_body_capped r cap = Some (Body b) \<longleftrightarrow>
    (\<forall>len. content_length r = Some len \<longrightarrow> len \<le> cap) \<and> stream_body (chunk_at r) 0 b \<and> length b \<le> unat cap"
proof -
  have loop: "read_chunks cap (chunk_at r) 0 [] = Some (Body b) \<longleftrightarrow> stream_body (chunk_at r) 0 b \<and> length b \<le> unat cap"
  proof
    assume "read_chunks cap (chunk_at r) 0 [] = Some (Body b)"
    from read_chunks_sound[OF this assms(1)]
    show "stream_body (chunk_at r) 0 b \<and> length b \<le> unat cap" by simp
  next
    assume "stream_body (chunk_at r) 0 b \<and> length b \<le> unat cap"
    then obtain n where "stream_prefix (chunk_at r) 0 n = Some b" "chunk_at r (0 + n) = End" "length b \<le> unat cap"
      by (auto simp: stream_body_def)
    from read_chunks_complete[OF this(1,2) assms(1) _ assms(2), of "[]"] this(3)
    show "read_chunks cap (chunk_at r) 0 [] = Some (Body b)" by simp
  qed
  have "len \<le> cap \<Longrightarrow> with_capacity_ok (min len cap)" for len
    using assms(2) by (auto simp: with_capacity_ok_def min_def word_le_nat_alt)
  then show ?thesis
    by (auto simp: read_body_capped_def loop not_less split: option.splits)
qed

text \<open>C13
  For a ceiling a \<open>Vec\<close> can hold, \<open>read_body_capped\<close> returns a body exactly when the declared
  length, if any, and the bytes actually streamed both stay within the ceiling, and then it
  returns those bytes: a missing or lying length cannot defeat the cap, and nothing is lost,
  repeated or reordered. The 64-bit length arithmetic does not wrap.\<close>

theorem capped_body_exact:
  assumes "sane_stream (chunk_at r)" and "unat cap \<le> isize_max"
  shows "read_body_capped r cap = Some (Body b) \<longleftrightarrow>
    (\<forall>len. content_length r = Some len \<longrightarrow> len \<le> cap) \<and> stream_body (chunk_at r) 0 b \<and> length b \<le> unat cap"
  by (rule capped_iff[OF assms])

theorem capped_body_exact_witness:
  "read_body_capped \<lparr>content_length = None, chunk_at = (\<lambda>i. if i = 0 then Chunk ''ab'' else if i = 1 then Chunk ''c'' else End)\<rparr> 3
     = Some (Body ''abc'') \<and>
   read_body_capped \<lparr>content_length = None, chunk_at = (\<lambda>i. if i = 0 then Chunk ''ab'' else if i = 1 then Chunk ''c'' else End)\<rparr> 2
     \<noteq> Some (Body ''abc'')"
proof -
  let ?st = "\<lambda>i::nat. if i = 0 then Chunk ''ab'' else if i = 1 then Chunk ''c'' else End"
  let ?r = "\<lparr>content_length = None, chunk_at = ?st\<rparr>"
  have s: "sane_stream (chunk_at ?r)"
    by (simp add: sane_stream_def isize_max_def)
  have "stream_prefix ?st 0 2 = Some ''abc''" and "?st (0 + 2) = End"
    by (simp_all add: numeral_2_eq_2)
  then have "stream_body ?st 0 ''abc''"
    unfolding stream_body_def by blast
  then show ?thesis
    using capped_body_exact[OF s, of 3 "''abc''"] capped_body_exact[OF s, of 2 "''abc''"]
    by (simp add: isize_max_def)
qed

text \<open>C28
  Reading always comes to an end when the remote sends no empty chunks, however long it streams: a
  response that never ends is cut off at the ceiling. It gives a body or an error, and under a ceiling that fits
  \<open>isize\<close> it never panics.\<close>

theorem capped_read_returns:
  assumes "\<forall>i c. chunk_at r i = Chunk c \<longrightarrow> c \<noteq> []" and "sane_stream (chunk_at r)" and "unat cap \<le> isize_max"
  shows "\<exists>res. read_body_capped r cap = Some res \<and> res \<noteq> Panic"
  using capped_returns[OF assms(1,2)] capped_no_panic[OF assms(2,3)] by force

theorem capped_read_returns_witness:
  "\<exists>res. read_body_capped \<lparr>content_length = None, chunk_at = (\<lambda>_. Chunk ''x'')\<rparr> 1000 = Some res \<and> res \<noteq> Panic"
  by (rule capped_read_returns) (simp_all add: sane_stream_def isize_max_def)



end
