(* ===== verification/Llm.thy ===== *)
theory Llm
  imports HttpBody Text
begin

text \<open>
  \<open>src/src/llm.rs\<close>: the client of an OpenAI-compatible chat-completion service. The request is
  what is put on the \<open>reqwest\<close> builder; sending it, classifying a status and parsing the JSON
  answer are library calls and therefore arguments.
\<close>

section \<open>Messages\<close>

record message =
  role :: string
  content :: string

record chat_request =
  model :: string
  messages :: "message list"
  stream :: bool
  max_tokens :: u32

record assistant_message =
  assistant_content :: string

record choice =
  choice_message :: assistant_message

record chat_response =
  choices :: "choice list"

datatype http_method = GET | POST

record llm_http_request =
  req_method :: http_method
  req_url :: string
  req_timeout :: duration
  req_json :: "chat_request option"
  req_bearer :: "string option"

record llm_lib =
  llm_send :: "llm_http_request \<Rightarrow> http_response option"
  is_error_status :: "nat \<Rightarrow> bool"
  is_success_status :: "nat \<Rightarrow> bool"
  parse_chat_response :: "string \<Rightarrow> chat_response option"

datatype llm_error =
    Llm_send_failed | Llm_status nat | Llm_declared_over u64 | Llm_exceeds | Llm_read_failed
  | Llm_parse_failed | Llm_empty

datatype llm_result = Completion string | Llm_err llm_error | Llm_panic

section \<open>Operations\<close>

definition max_inference_bytes :: u64 where
  "max_inference_bytes = 32 * 1024 * 1024"

definition completion_request :: "string \<Rightarrow> string \<Rightarrow> string option \<Rightarrow> string \<Rightarrow> u32 \<Rightarrow> duration \<Rightarrow> llm_http_request" where
  "completion_request base_url mdl api_key prompt tokens timeout =
     (let body = \<lparr>model = mdl, messages = [\<lparr>role = ''user'', content = prompt\<rparr>], stream = False, max_tokens = tokens\<rparr>;
          req = \<lparr>req_method = POST, req_url = base_url @ ''/v1/chat/completions'', req_timeout = timeout,
                 req_json = Some body, req_bearer = None\<rparr>
      in case api_key of Some key \<Rightarrow> req\<lparr>req_bearer := Some key\<rparr> | None \<Rightarrow> req)"

text \<open>The inlined capped read: the same checks and the same loop as \<open>read_body_capped\<close>.\<close>

definition read_inference :: "http_response \<Rightarrow> body_result option" where
  "read_inference http =
     (case content_length http of
        Some len \<Rightarrow>
          if len > max_inference_bytes then Some (Bail (Declared_over len))
          else if with_capacity_ok (min len max_inference_bytes) then read_chunks max_inference_bytes (chunk_at http) 0 []
          else Some Panic
      | None \<Rightarrow> read_chunks max_inference_bytes (chunk_at http) 0 [])"

definition first_choice :: "chat_response \<Rightarrow> string option" where
  "first_choice r = (case choices r of [] \<Rightarrow> None | c # _ \<Rightarrow> Some (assistant_content (choice_message c)))"

definition complete :: "llm_lib \<Rightarrow> string \<Rightarrow> string \<Rightarrow> string option \<Rightarrow> string \<Rightarrow> u32 \<Rightarrow> duration \<Rightarrow> llm_result option" where
  "complete L base_url mdl api_key prompt tokens timeout =
     (case llm_send L (completion_request base_url mdl api_key prompt tokens timeout) of
        None \<Rightarrow> Some (Llm_err Llm_send_failed)
      | Some http \<Rightarrow>
          if is_error_status L (resp_status http) then Some (Llm_err (Llm_status (resp_status http)))
          else (case read_inference http of
              None \<Rightarrow> None
            | Some Panic \<Rightarrow> Some Llm_panic
            | Some (Bail (Declared_over n)) \<Rightarrow> Some (Llm_err (Llm_declared_over n))
            | Some (Bail Exceeds) \<Rightarrow> Some (Llm_err Llm_exceeds)
            | Some (Bail Read_failed) \<Rightarrow> Some (Llm_err Llm_read_failed)
            | Some (Body b) \<Rightarrow>
                (case parse_chat_response L b of
                   None \<Rightarrow> Some (Llm_err Llm_parse_failed)
                 | Some r \<Rightarrow> (case first_choice r of None \<Rightarrow> Some (Llm_err Llm_empty) | Some t \<Rightarrow> Some (Completion t)))))"

definition probe_request :: "string \<Rightarrow> string option \<Rightarrow> llm_http_request" where
  "probe_request base_url api_key =
     \<lparr>req_method = GET, req_url = base_url @ ''/health'', req_timeout = from_secs 3, req_json = None, req_bearer = api_key\<rparr>"

definition reachable :: "llm_lib \<Rightarrow> string \<Rightarrow> string option \<Rightarrow> bool" where
  "reachable L base_url api_key =
     (case llm_send L (probe_request base_url api_key) of Some r \<Rightarrow> is_success_status L (resp_status r) | None \<Rightarrow> False)"

section \<open>Properties\<close>

lemma read_inference_capped: "read_inference http = read_body_capped http max_inference_bytes"
  by (simp add: read_inference_def read_body_capped_def)

lemma max_inference_unat: "unat max_inference_bytes = 33554432"
  by (simp add: max_inference_bytes_def)

lemma inference_iff:
  assumes "sane_stream (chunk_at http)"
  shows "read_inference http = Some (Body b) \<longleftrightarrow>
    (\<forall>len. content_length http = Some len \<longrightarrow> unat len \<le> 33554432) \<and> stream_body (chunk_at http) 0 b \<and> length b \<le> 33554432"
  using capped_iff[OF assms, of max_inference_bytes b]
  by (simp add: read_inference_capped max_inference_unat isize_max_def word_le_nat_alt)

lemma first_choice_Some: "first_choice r = Some t \<longleftrightarrow> (\<exists>c cs. choices r = c # cs \<and> assistant_content (choice_message c) = t)"
  by (simp add: first_choice_def split: list.split)

lemma complete_Completion:
  "complete L base_url mdl api_key prompt tokens timeout = Some (Completion t) \<longleftrightarrow>
    (\<exists>resp b r. llm_send L (completion_request base_url mdl api_key prompt tokens timeout) = Some resp
      \<and> \<not> is_error_status L (resp_status resp) \<and> read_inference resp = Some (Body b)
      \<and> parse_chat_response L b = Some r \<and> first_choice r = Some t)"
  by (auto simp: complete_def split: option.splits if_splits body_result.splits body_error.splits)

lemma complete_returns:
  assumes "\<And>q resp. llm_send L q = Some resp \<Longrightarrow> \<exists>res. read_inference resp = Some res \<and> res \<noteq> Panic"
  shows "\<exists>res. complete L base_url mdl api_key prompt tokens timeout = Some res \<and> res \<noteq> Llm_panic"
  using assms[of "completion_request base_url mdl api_key prompt tokens timeout"]
  by (auto simp: complete_def split: option.splits body_result.splits body_error.splits)

text \<open>C26
  A call of the chat service always ends, in a completion or an error: while the service sends no empty chunks it
  returns and does not panic, and what it returns is a completion exactly when the request for this
  model, prompt and token limit, with the given key as bearer and the given timeout, was answered with no error status
  and a body that declares and has at most 32 MiB and parses, with a first choice, whose text it is.\<close>

theorem completion_is_the_first_choice_of_a_bounded_answer:
  assumes "\<And>q resp. llm_send L q = Some resp \<Longrightarrow> sane_stream (chunk_at resp) \<and> (\<forall>i c. chunk_at resp i = Chunk c \<longrightarrow> c \<noteq> [])"
  shows "(\<exists>res. complete L base_url mdl api_key prompt tokens timeout = Some res \<and> res \<noteq> Llm_panic)
    \<and> (complete L base_url mdl api_key prompt tokens timeout = Some (Completion t) \<longleftrightarrow>
        (\<exists>q resp b r c cs. llm_send L q = Some resp
          \<and> q = \<lparr>req_method = POST, req_url = base_url @ ''/v1/chat/completions'', req_timeout = timeout,
                 req_json = Some \<lparr>model = mdl, messages = [\<lparr>role = ''user'', content = prompt\<rparr>], stream = False, max_tokens = tokens\<rparr>,
                 req_bearer = api_key\<rparr>
          \<and> \<not> is_error_status L (resp_status resp)
          \<and> (\<forall>len. content_length resp = Some len \<longrightarrow> unat len \<le> 33554432)
          \<and> stream_body (chunk_at resp) 0 b \<and> length b \<le> 33554432
          \<and> parse_chat_response L b = Some r \<and> choices r = c # cs \<and> assistant_content (choice_message c) = t))"
proof
  have "\<exists>res. read_inference resp = Some res \<and> res \<noteq> Panic" if "llm_send L q = Some resp" for q resp
    using capped_returns[of resp max_inference_bytes] capped_no_panic[of resp max_inference_bytes] assms[OF that]
    by (auto simp: read_inference_capped max_inference_unat isize_max_def)
  then show "\<exists>res. complete L base_url mdl api_key prompt tokens timeout = Some res \<and> res \<noteq> Llm_panic"
    by (rule complete_returns)
next
  have q: "completion_request base_url mdl api_key prompt tokens timeout =
      \<lparr>req_method = POST, req_url = base_url @ ''/v1/chat/completions'', req_timeout = timeout,
       req_json = Some \<lparr>model = mdl, messages = [\<lparr>role = ''user'', content = prompt\<rparr>], stream = False, max_tokens = tokens\<rparr>,
       req_bearer = api_key\<rparr>"
    by (cases api_key) (simp_all add: completion_request_def)
  have sane: "sane_stream (chunk_at resp)" if "llm_send L q = Some resp" for q resp
    using assms[OF that] by blast
  show "complete L base_url mdl api_key prompt tokens timeout = Some (Completion t) \<longleftrightarrow>
        (\<exists>q resp b r c cs. llm_send L q = Some resp
          \<and> q = \<lparr>req_method = POST, req_url = base_url @ ''/v1/chat/completions'', req_timeout = timeout,
                 req_json = Some \<lparr>model = mdl, messages = [\<lparr>role = ''user'', content = prompt\<rparr>], stream = False, max_tokens = tokens\<rparr>,
                 req_bearer = api_key\<rparr>
          \<and> \<not> is_error_status L (resp_status resp)
          \<and> (\<forall>len. content_length resp = Some len \<longrightarrow> unat len \<le> 33554432)
          \<and> stream_body (chunk_at resp) 0 b \<and> length b \<le> 33554432
          \<and> parse_chat_response L b = Some r \<and> choices r = c # cs \<and> assistant_content (choice_message c) = t)"
    unfolding complete_Completion q first_choice_Some using inference_iff[OF sane] by blast
qed

definition a_chat_lib :: llm_lib where
  "a_chat_lib = \<lparr>llm_send = (\<lambda>_. Some \<lparr>content_length = Some 0, chunk_at = (\<lambda>_. End), resp_status = 200, resp_headers = []\<rparr>),
     is_error_status = (\<lambda>s. 400 \<le> s), is_success_status = (\<lambda>s. s = 200),
     parse_chat_response = (\<lambda>_. Some \<lparr>choices = [\<lparr>choice_message = \<lparr>assistant_content = ''hi''\<rparr>\<rparr>]\<rparr>)\<rparr>"

theorem completion_is_the_first_choice_of_a_bounded_answer_witness:
  "complete a_chat_lib ''http://h'' ''m'' (Some ''k'') ''p'' 7 9 = Some (Completion ''hi'')"
proof -
  have "llm_send a_chat_lib q = Some resp \<Longrightarrow> sane_stream (chunk_at resp) \<and> (\<forall>i c. chunk_at resp i = Chunk c \<longrightarrow> c \<noteq> [])" for q resp
    by (auto simp: a_chat_lib_def sane_stream_def)
  note completion_is_the_first_choice_of_a_bounded_answer[of a_chat_lib "''http://h''" "''m''" "Some ''k''" "''p''" 7 9 "''hi''", OF this]
  then show ?thesis
    by (simp add: a_chat_lib_def stream_body_End)
qed

end
