(* ===== verification/Device.thy ===== *)
theory Device
  imports Prelude
begin

text \<open>
  \<open>src/src/wg/device.rs\<close>: the packet-queue device between smoltcp and the WireGuard tunnel. Each
  direction is a FIFO of packets stored as one flat byte ring and a queue of lengths. A drain past
  the end of the ring panics in Rust; here it is \<open>None\<close>.
\<close>

section \<open>The packet queue\<close>

type_synonym packet = "u8 list"

record packet_queue =
  lengths :: "nat list"
  buffers :: "u8 list"

definition packet_queue_new :: packet_queue where
  "packet_queue_new = \<lparr>lengths = [], buffers = []\<rparr>"

definition enqueue :: "packet \<Rightarrow> packet_queue \<Rightarrow> packet_queue" where
  "enqueue p q = q\<lparr>lengths := lengths q @ [length p], buffers := buffers q @ p\<rparr>"

text \<open>The front packet replaces the contents of the caller's buffer.\<close>

definition dequeue :: "packet_queue \<Rightarrow> (packet \<times> packet_queue) option" where
  "dequeue q =
     (let len = (case lengths q of [] \<Rightarrow> 0 | l # _ \<Rightarrow> l)
      in if len > length (buffers q) then None
         else Some (take len (buffers q), q\<lparr>lengths := tl (lengths q), buffers := drop len (buffers q)\<rparr>))"

definition queue_is_empty :: "packet_queue \<Rightarrow> bool" where
  "queue_is_empty q \<longleftrightarrow> lengths q = []"

section \<open>The contract of a FIFO\<close>

locale fifo =
  fixes emp :: "'q"
    and enq :: "'a \<Rightarrow> 'q \<Rightarrow> 'q"
    and deq :: "'q \<Rightarrow> ('a \<times> 'q) option"
    and is_emp :: "'q \<Rightarrow> bool"
    and items :: "'q \<Rightarrow> 'a list"
    and wf :: "'q \<Rightarrow> bool"
  assumes wf_emp: "wf emp"
    and items_emp: "items emp = []"
    and wf_enq: "wf q \<Longrightarrow> wf (enq x q)"
    and items_enq: "wf q \<Longrightarrow> items (enq x q) = items q @ [x]"
    and is_emp_items: "wf q \<Longrightarrow> is_emp q \<longleftrightarrow> items q = []"
    and deq_items: "wf q \<Longrightarrow> items q = x # xs \<Longrightarrow> \<exists>q'. deq q = Some (x, q') \<and> wf q' \<and> items q' = xs"
begin

text \<open>Taking the head only when there is one, as every caller does.\<close>

lemma deq_cases:
  assumes "wf q"
  obtains "is_emp q" "items q = []"
  | x q' where "\<not> is_emp q" "deq q = Some (x, q')" "wf q'" "items q = x # items q'"
  using assms deq_items is_emp_items by (cases "items q") metis+

lemma deq_never_panics: "wf q \<Longrightarrow> \<not> is_emp q \<Longrightarrow> deq q \<noteq> None"
  using deq_cases by blast

end

section \<open>The ring represents a list of packets\<close>

fun ring_packets :: "nat list \<Rightarrow> u8 list \<Rightarrow> packet list" where
  "ring_packets [] bs = []"
| "ring_packets (l # ls) bs = take l bs # ring_packets ls (drop l bs)"

definition queue_packets :: "packet_queue \<Rightarrow> packet list" where
  "queue_packets q = ring_packets (lengths q) (buffers q)"

definition queue_wf :: "packet_queue \<Rightarrow> bool" where
  "queue_wf q \<longleftrightarrow> sum_list (lengths q) = length (buffers q)"

lemma ring_packets_snoc:
  "sum_list ls = length bs \<Longrightarrow> ring_packets (ls @ [length p]) (bs @ p) = ring_packets ls bs @ [p]"
  by (induction ls arbitrary: bs) auto

interpretation pq: fifo packet_queue_new enqueue dequeue queue_is_empty queue_packets queue_wf
proof
  fix q x xs
  assume wf: "queue_wf q" and items: "queue_packets q = x # xs"
  then obtain l ls where l: "lengths q = l # ls" "x = take l (buffers q)" "xs = ring_packets ls (drop l (buffers q))"
    by (cases "lengths q") (auto simp: queue_packets_def)
  with wf have "l \<le> length (buffers q)" and "sum_list ls = length (buffers q) - l"
    by (simp_all add: queue_wf_def)
  with l show "\<exists>q'. dequeue q = Some (x, q') \<and> queue_wf q' \<and> queue_packets q' = xs"
    by (simp add: dequeue_def queue_wf_def queue_packets_def)
next
  fix q assume "queue_wf q"
  show "queue_is_empty q \<longleftrightarrow> queue_packets q = []"
    by (cases "lengths q") (simp_all add: queue_is_empty_def queue_packets_def)
qed (simp_all add: packet_queue_new_def enqueue_def queue_wf_def queue_packets_def ring_packets_snoc)

section \<open>Tokens and the device\<close>

record token =
  tok_queue :: packet_queue
  tok_buffer :: "u8 list"

definition token_new :: token where
  "token_new = \<lparr>tok_queue = packet_queue_new, tok_buffer = []\<rparr>"

text \<open>\<open>RxToken::consume\<close>: the packet handed to the closure, and the token left behind.\<close>

definition rx_consume :: "token \<Rightarrow> (packet \<Rightarrow> 'r) \<Rightarrow> ('r \<times> token) option" where
  "rx_consume t f =
     (case dequeue (tok_queue t) of
        None \<Rightarrow> None
      | Some (p, q) \<Rightarrow> Some (f p, t\<lparr>tok_queue := q, tok_buffer := p\<rparr>))"

definition resize :: "nat \<Rightarrow> u8 list \<Rightarrow> u8 list" where
  "resize n b = take n b @ replicate (n - length b) 0"

text \<open>
  \<open>TxToken::consume\<close>: the closure writes into the scratch buffer, resized to \<open>len\<close> (it still
  holds the bytes of an earlier packet), and what it leaves there is queued.
\<close>

definition tx_consume :: "token \<Rightarrow> nat \<Rightarrow> (u8 list \<Rightarrow> 'r \<times> u8 list) \<Rightarrow> 'r \<times> token" where
  "tx_consume t len f =
     (let (r, b) = f (resize len (tok_buffer t))
      in (r, t\<lparr>tok_buffer := b, tok_queue := enqueue b (tok_queue t)\<rparr>))"

record device =
  recv :: token
  send :: token
  mtu :: nat

definition device_new :: "nat \<Rightarrow> device" where
  "device_new m = \<lparr>recv = token_new, send = token_new, mtu = m\<rparr>"

definition enqueue_received :: "packet \<Rightarrow> device \<Rightarrow> device" where
  "enqueue_received p d = d\<lparr>recv := (recv d)\<lparr>tok_queue := enqueue p (tok_queue (recv d))\<rparr>\<rparr>"

definition dequeue_sent :: "device \<Rightarrow> (packet option \<times> device) option" where
  "dequeue_sent d =
     (if queue_is_empty (tok_queue (send d)) then Some (None, d)
      else (case dequeue (tok_queue (send d)) of
              None \<Rightarrow> None
            | Some (p, q) \<Rightarrow> Some (Some p, d\<lparr>send := \<lparr>tok_queue = q, tok_buffer = p\<rparr>\<rparr>)))"

definition device_receive :: "device \<Rightarrow> (token \<times> token) option" where
  "device_receive d = (if queue_is_empty (tok_queue (recv d)) then None else Some (recv d, send d))"

definition device_transmit :: "device \<Rightarrow> token option" where
  "device_transmit d = Some (send d)"

datatype medium = Ip

record device_capabilities =
  cap_medium :: medium
  max_transmission_unit :: nat
  max_burst_size :: "nat option"

definition device_capabilities_of :: "device \<Rightarrow> device_capabilities" where
  "device_capabilities_of d = \<lparr>cap_medium = Ip, max_transmission_unit = mtu d, max_burst_size = None\<rparr>"

section \<open>Using the device\<close>

text \<open>
  What smoltcp and the event loop do with a device: transmit a packet (write it whole into the
  token's buffer), take the next packet to send, push a received one, and poll for a received
  packet and consume it.
\<close>

datatype dev_op = Transmit packet | TakeSent | PushReceived packet | Poll

datatype dev_out = SentOut packet | HandedIn packet

definition dev_apply :: "dev_op \<Rightarrow> device \<Rightarrow> (dev_out list \<times> device) option" where
  "dev_apply x d =
     (case x of
        Transmit p \<Rightarrow>
          (case device_transmit d of
             None \<Rightarrow> Some ([], d)
           | Some t \<Rightarrow> Some ([], d\<lparr>send := snd (tx_consume t (length p) (\<lambda>_. ((), p)))\<rparr>))
      | TakeSent \<Rightarrow>
          (case dequeue_sent d of
             None \<Rightarrow> None
           | Some (None, d') \<Rightarrow> Some ([], d')
           | Some (Some p, d') \<Rightarrow> Some ([SentOut p], d'))
      | PushReceived p \<Rightarrow> Some ([], enqueue_received p d)
      | Poll \<Rightarrow>
          (case device_receive d of
             None \<Rightarrow> Some ([], d)
           | Some (rx, _) \<Rightarrow>
               (case rx_consume rx HandedIn of
                  None \<Rightarrow> None
                | Some (out, rx') \<Rightarrow> Some ([out], d\<lparr>recv := rx'\<rparr>))))"

fun dev_run :: "dev_op list \<Rightarrow> device \<Rightarrow> (dev_out list \<times> device) option" where
  "dev_run [] d = Some ([], d)"
| "dev_run (x # xs) d =
     (case dev_apply x d of
        None \<Rightarrow> None
      | Some (o1, d1) \<Rightarrow> (case dev_run xs d1 of None \<Rightarrow> None | Some (o2, d2) \<Rightarrow> Some (o1 @ o2, d2)))"

definition transmitted :: "dev_op list \<Rightarrow> packet list" where
  "transmitted xs = concat (map (\<lambda>x. case x of Transmit p \<Rightarrow> [p] | _ \<Rightarrow> []) xs)"

definition received :: "dev_op list \<Rightarrow> packet list" where
  "received xs = concat (map (\<lambda>x. case x of PushReceived p \<Rightarrow> [p] | _ \<Rightarrow> []) xs)"

definition sent_out :: "dev_out list \<Rightarrow> packet list" where
  "sent_out xs = concat (map (\<lambda>x. case x of SentOut p \<Rightarrow> [p] | _ \<Rightarrow> []) xs)"

definition handed_in :: "dev_out list \<Rightarrow> packet list" where
  "handed_in xs = concat (map (\<lambda>x. case x of HandedIn p \<Rightarrow> [p] | _ \<Rightarrow> []) xs)"

definition device_wf :: "device \<Rightarrow> bool" where
  "device_wf d \<longleftrightarrow> queue_wf (tok_queue (recv d)) \<and> queue_wf (tok_queue (send d))"

definition to_send :: "device \<Rightarrow> packet list" where
  "to_send d = queue_packets (tok_queue (send d))"

definition to_receive :: "device \<Rightarrow> packet list" where
  "to_receive d = queue_packets (tok_queue (recv d))"

lemmas traffic_defs = transmitted_def received_def sent_out_def handed_in_def

text \<open>One operation neither panics nor loses, invents or reorders a packet of either direction.\<close>

lemma dev_apply_fifo:
  assumes "device_wf d"
  shows "\<exists>out d'. dev_apply x d = Some (out, d') \<and> device_wf d'
    \<and> sent_out out @ to_send d' = to_send d @ transmitted [x]
    \<and> handed_in out @ to_receive d' = to_receive d @ received [x]"
proof -
  have r: "queue_wf (tok_queue (recv d))" and s: "queue_wf (tok_queue (send d))"
    using assms by (simp_all add: device_wf_def)
  show ?thesis
  proof (cases x)
    case (Transmit p)
    then show ?thesis
      using r s by (simp add: dev_apply_def device_transmit_def tx_consume_def device_wf_def traffic_defs
          to_send_def to_receive_def pq.wf_enq pq.items_enq)
  next
    case (PushReceived p)
    then show ?thesis
      using r s by (simp add: dev_apply_def enqueue_received_def device_wf_def traffic_defs
          to_send_def to_receive_def pq.wf_enq pq.items_enq)
  next
    case TakeSent
    show ?thesis
      using s by (cases rule: pq.deq_cases)
        (use TakeSent r s in \<open>auto simp: dev_apply_def dequeue_sent_def device_wf_def traffic_defs to_send_def to_receive_def\<close>)
  next
    case Poll
    show ?thesis
      using r by (cases rule: pq.deq_cases)
        (use Poll r s in \<open>auto simp: dev_apply_def device_receive_def rx_consume_def device_wf_def traffic_defs to_send_def to_receive_def\<close>)
  qed
qed

lemma dev_run_fifo:
  assumes "device_wf d"
  shows "\<exists>out d'. dev_run xs d = Some (out, d') \<and> device_wf d'
    \<and> sent_out out @ to_send d' = to_send d @ transmitted xs
    \<and> handed_in out @ to_receive d' = to_receive d @ received xs"
  using assms
proof (induction xs arbitrary: d)
  case Nil
  then show ?case by (simp add: traffic_defs)
next
  case (Cons x xs)
  obtain o1 d1 where a: "dev_apply x d = Some (o1, d1)" "device_wf d1"
      "sent_out o1 @ to_send d1 = to_send d @ transmitted [x]"
      "handed_in o1 @ to_receive d1 = to_receive d @ received [x]"
    using dev_apply_fifo[OF Cons.prems] by blast
  obtain o2 d2 where b: "dev_run xs d1 = Some (o2, d2)" "device_wf d2"
      "sent_out o2 @ to_send d2 = to_send d1 @ transmitted xs"
      "handed_in o2 @ to_receive d2 = to_receive d1 @ received xs"
    using Cons.IH[OF a(2)] by blast
  have "sent_out (o1 @ o2) @ to_send d2 = to_send d @ transmitted (x # xs)"
    and "handed_in (o1 @ o2) @ to_receive d2 = to_receive d @ received (x # xs)"
    using a(3,4) b(3,4) by (simp_all add: traffic_defs)
  with a b show ?case by simp
qed

section \<open>Properties\<close>

text \<open>C27
  The device is two lossless FIFOs: any use of a new device runs without a panic (no drain past the
  ring), the packets taken for sending are the transmitted ones in order with the rest still queued,
  and so are the packets handed to smoltcp with respect to those received.\<close>

theorem device_is_two_lossless_fifos:
  "\<exists>out d'. dev_run xs (device_new m) = Some (out, d')
     \<and> sent_out out @ to_send d' = transmitted xs
     \<and> handed_in out @ to_receive d' = received xs"
proof -
  have "device_wf (device_new m)" and "to_send (device_new m) = []" and "to_receive (device_new m) = []"
    by (simp_all add: device_wf_def device_new_def token_new_def to_send_def to_receive_def pq.wf_emp pq.items_emp)
  then show ?thesis
    using dev_run_fifo[of "device_new m" xs] by auto
qed

text \<open>
  Consuming a transmit token queues exactly the buffer the closure leaves, whatever an earlier packet
  left in the scratch buffer, and the closure is given a buffer of exactly the requested length.\<close>

theorem tx_consume_queues_what_was_written:
  assumes "queue_wf (tok_queue t)" and "f (resize len (tok_buffer t)) = (r, b)"
  shows "length (resize len (tok_buffer t)) = len
    \<and> fst (tx_consume t len f) = r
    \<and> queue_packets (tok_queue (snd (tx_consume t len f))) = queue_packets (tok_queue t) @ [b]"
  using assms by (simp add: tx_consume_def resize_def pq.items_enq min_def)

theorem tx_consume_queues_what_was_written_witness:
  "queue_packets (tok_queue (snd (tx_consume \<lparr>tok_queue = packet_queue_new, tok_buffer = [9, 9, 9]\<rparr> 2 (\<lambda>b. ((), map (\<lambda>_. 7) b)))))
     = [[7, 7]]"
proof -
  let ?t = "\<lparr>tok_queue = packet_queue_new, tok_buffer = [9, 9, 9]\<rparr>"
  let ?f = "\<lambda>b :: u8 list. ((), map (\<lambda>_. 7 :: u8) b)"
  have wf: "queue_wf (tok_queue ?t)"
    by (simp add: pq.wf_emp)
  have f: "?f (resize 2 (tok_buffer ?t)) = ((), [7, 7])"
    by (simp add: resize_def)
  from tx_consume_queues_what_was_written[of ?t ?f, OF wf f] show ?thesis
    by (simp add: pq.items_emp)
qed

end
