(* ===== verification/Cookie.thy ===== *)
theory Cookie
  imports Text
begin

text \<open>
  \<open>src/src/login/cookie.rs\<close>: the names of the sign-in's cookies, the \<open>Set-Cookie\<close> values it
  writes, and reading the pairs of a request's \<open>Cookie\<close> headers.
\<close>

section \<open>Names\<close>

record names =
  session_name :: string
  retry_name :: string
  flow_prefix :: string
  secure :: bool

definition names_new :: "bool \<Rightarrow> names" where
  "names_new s =
     (if s then \<lparr>session_name = ''__Host-session'', retry_name = ''__Host-login-retry'',
                 flow_prefix = ''__Host-login-flow-'', secure = s\<rparr>
      else \<lparr>session_name = ''session'', retry_name = ''login-retry'', flow_prefix = ''login-flow-'', secure = s\<rparr>)"

definition names_flow :: "names \<Rightarrow> string \<Rightarrow> string" where
  "names_flow n state = flow_prefix n @ state"

section \<open>Writing and reading cookies\<close>

definition names_set :: "names \<Rightarrow> string \<Rightarrow> string \<Rightarrow> u64 \<Rightarrow> string" where
  "names_set n name val max_age =
     (let c = name @ ''='' @ val @ ''; Path=/; HttpOnly; SameSite=Lax; Max-Age='' @ decimal (unat max_age)
      in if secure n then c @ ''; Secure'' else c)"

definition names_clear :: "names \<Rightarrow> string \<Rightarrow> string" where
  "names_clear n name = names_set n name [] 0"

definition cookie_pairs :: "http_lib \<Rightarrow> headers \<Rightarrow> (string \<times> string) list" where
  "cookie_pairs H h =
     map (\<lambda>(k, v). (trim k, trim v))
       (List.map_filter (\<lambda>p. split_once CHR ''='' (trim p))
         (concat (map (split_on CHR '';'') (List.map_filter (to_str H) (header_get_all h ''cookie'')))))"

definition cookie_read :: "http_lib \<Rightarrow> headers \<Rightarrow> string \<Rightarrow> string option" where
  "cookie_read H h name = map_option snd (find (\<lambda>(k, _). k = name) (cookie_pairs H h))"

section \<open>Names do not collide\<close>

lemma names_flow_inject [simp]: "names_flow n s = names_flow n t \<longleftrightarrow> s = t"
  by (simp add: names_flow_def)

lemma strip_names_flow [simp]: "strip_prefix (flow_prefix n) (names_flow n s) = Some s"
  by (simp add: names_flow_def strip_prefix_append)

lemma session_is_no_flow [simp]: "strip_prefix (flow_prefix (names_new b)) (session_name (names_new b)) = None"
  by (simp add: names_new_def)

lemma retry_is_no_flow [simp]: "strip_prefix (flow_prefix (names_new b)) (retry_name (names_new b)) = None"
  by (simp add: names_new_def)

lemma session_not_retry [simp]: "session_name (names_new b) \<noteq> retry_name (names_new b)"
  by (simp add: names_new_def)

lemma flow_not_session: "names_flow (names_new b) s \<noteq> session_name (names_new b)"
  using strip_names_flow[of "names_new b" s] by fastforce

lemma flow_not_retry: "names_flow (names_new b) s \<noteq> retry_name (names_new b)"
  using strip_names_flow[of "names_new b" s] by fastforce

section \<open>Round trip through a browser\<close>

text \<open>
  Text a cookie can carry verbatim: ASCII with no white space and no semicolon; a name also has no
  equals sign. Everything the crate sets is base64url or a literal.
\<close>

definition cookie_value_safe :: "string \<Rightarrow> bool" where
  "cookie_value_safe v \<longleftrightarrow> no_blank v \<and> CHR '';'' \<notin> set v"

definition cookie_name_safe :: "string \<Rightarrow> bool" where
  "cookie_name_safe k \<longleftrightarrow> cookie_value_safe k \<and> CHR ''='' \<notin> set k"

text \<open>The header a browser sends for the cookies it holds.\<close>

fun cookie_header :: "(string \<times> string) list \<Rightarrow> string" where
  "cookie_header [] = []"
| "cookie_header [(k, v)] = k @ CHR ''='' # v"
| "cookie_header ((k, v) # ps) = (k @ CHR ''='' # v) @ CHR '';'' # CHR '' '' # cookie_header ps"

definition pairs_of :: "string \<Rightarrow> (string \<times> string) list" where
  "pairs_of raw = map (\<lambda>(k, v). (trim k, trim v)) (List.map_filter (\<lambda>p. split_once CHR ''='' (trim p)) (split_on CHR '';'' raw))"

lemma cookie_pairs_alt:
  "cookie_pairs H h = concat (map pairs_of (List.map_filter (to_str H) (header_get_all h ''cookie'')))"
proof -
  have "map f (List.map_filter g (concat xss)) = concat (map (\<lambda>xs. map f (List.map_filter g xs)) xss)"
    for f :: "string \<times> string \<Rightarrow> string \<times> string" and g :: "string \<Rightarrow> (string \<times> string) option" and xss
    by (induction xss) (simp_all add: List.map_filter_def)
  then show ?thesis
    by (simp add: cookie_pairs_def pairs_of_def[abs_def] comp_def)
qed

lemma no_blank_pair: "no_blank k \<Longrightarrow> no_blank v \<Longrightarrow> no_blank (k @ CHR ''='' # v)"
  by (auto simp: no_blank_def byte_def is_whitespace_def)

lemma pair_of_segment:
  assumes "cookie_name_safe k" and "cookie_value_safe v"
  shows "split_once CHR ''='' (trim (k @ CHR ''='' # v)) = Some (k, v)"
    and "split_once CHR ''='' (trim (CHR '' '' # k @ CHR ''='' # v)) = Some (k, v)"
  using assms
  by (auto simp: cookie_name_safe_def cookie_value_safe_def trim_no_blank trim_blank_front no_blank_pair split_once_append)

lemma trim_name: "cookie_name_safe k \<Longrightarrow> trim k = k"
  by (simp add: cookie_name_safe_def cookie_value_safe_def trim_no_blank)

lemma trim_value: "cookie_value_safe v \<Longrightarrow> trim v = v"
  by (simp add: cookie_value_safe_def trim_no_blank)

lemmas pair_simps = pair_of_segment trim_name trim_value

lemma segment_no_sep:
  "cookie_name_safe k \<Longrightarrow> cookie_value_safe v \<Longrightarrow> CHR '';'' \<notin> set (k @ CHR ''='' # v)"
  by (simp add: cookie_name_safe_def cookie_value_safe_def)

lemma split_cookie_header:
  assumes "ps \<noteq> []" and "\<forall>(k, v) \<in> set ps. cookie_name_safe k \<and> cookie_value_safe v"
  shows "split_on CHR '';'' (CHR '' '' # cookie_header ps) = map (\<lambda>(k, v). CHR '' '' # k @ CHR ''='' # v) ps"
  using assms
proof (induction ps rule: cookie_header.induct)
  case (2 k v)
  then show ?case
    using split_on_no_sep[of "CHR '';''" "CHR '' '' # k @ CHR ''='' # v"] segment_no_sep[of k v] by simp
next
  case (3 k v p ps)
  then have "CHR '';'' \<notin> set (CHR '' '' # k @ CHR ''='' # v)"
    using segment_no_sep[of k v] by simp
  from split_on_append[OF this, of "CHR '' '' # cookie_header (p # ps)"] 3 show ?case
    by simp
qed simp

lemma pairs_of_blank_front:
  assumes "ps \<noteq> []" and "\<forall>(k, v) \<in> set ps. cookie_name_safe k \<and> cookie_value_safe v"
  shows "pairs_of (CHR '' '' # cookie_header ps) = ps"
proof -
  have "map (\<lambda>(k, v). (trim k, trim v))
      (List.map_filter (\<lambda>p. split_once CHR ''='' (trim p)) (map (\<lambda>(k, v). CHR '' '' # k @ CHR ''='' # v) ps)) = ps"
    using assms(2) by (induction ps) (auto simp: pair_simps)
  then show ?thesis
    unfolding pairs_of_def split_cookie_header[OF assms] .
qed

lemma pairs_of_cookie_header:
  assumes "\<forall>(k, v) \<in> set ps. cookie_name_safe k \<and> cookie_value_safe v" and "ps \<noteq> []"
  shows "pairs_of (cookie_header ps) = ps"
proof (cases ps rule: cookie_header.cases)
  case (2 k v)
  then have "split_on CHR '';'' (cookie_header ps) = [k @ CHR ''='' # v]"
    using split_on_no_sep[OF segment_no_sep[of k v]] assms by simp
  with 2 assms show ?thesis
    by (simp add: pairs_of_def pair_simps)
next
  case (3 k v p qs)
  then have "split_on CHR '';'' (cookie_header ps) = (k @ CHR ''='' # v) # split_on CHR '';'' (CHR '' '' # cookie_header (p # qs))"
    using split_on_append[OF segment_no_sep[of k v], of "CHR '' '' # cookie_header (p # qs)"] assms by simp
  then have "pairs_of (cookie_header ps) = (k, v) # pairs_of (CHR '' '' # cookie_header (p # qs))"
    using 3 assms by (simp add: pairs_of_def pair_simps)
  with 3 assms show ?thesis
    using pairs_of_blank_front[of "p # qs"] by simp
qed (use assms in simp)

lemma cookie_jar:
  assumes "header_get_all h ''cookie'' = map cookie_header pss"
    and "\<forall>ps \<in> set pss. ps \<noteq> [] \<and> (\<forall>(k, v) \<in> set ps. cookie_name_safe k \<and> cookie_value_safe v)"
    and "\<forall>ps \<in> set pss. to_str H (cookie_header ps) = Some (cookie_header ps)"
  shows "cookie_pairs H h = concat pss" and "cookie_read H h name = map_of (concat pss) name"
proof -
  have "List.map_filter (to_str H) (map cookie_header pss) = map cookie_header pss"
    using assms(3) by (induction pss) auto
  moreover have "concat (map pairs_of (map cookie_header pss)) = concat pss"
    using assms(2) by (induction pss) (auto simp: pairs_of_cookie_header)
  ultimately show p: "cookie_pairs H h = concat pss"
    by (simp add: cookie_pairs_alt assms(1))
  have "map_option snd (find (\<lambda>(k, _). k = name) ps) = map_of ps name" for ps :: "(string \<times> string) list"
    by (induction ps) auto
  with p show "cookie_read H h name = map_of (concat pss) name"
    by (simp add: cookie_read_def)
qed

section \<open>Properties\<close>

text \<open>C24
  Printing and parsing cookies round-trips: from the \<open>Cookie\<close> headers a browser sends for cookies
  with safe names and values, in as many headers as HTTP/2 splits them into, \<open>pairs\<close> yields exactly
  those cookies in order, and \<open>read\<close> finds the first of a name, matching the name exactly.\<close>

theorem cookies_round_trip:
  assumes "\<forall>ps \<in> set pss. ps \<noteq> [] \<and> (\<forall>(k, v) \<in> set ps. cookie_name_safe k \<and> cookie_value_safe v)"
    and "\<forall>ps \<in> set pss. to_str H (cookie_header ps) = Some (cookie_header ps)"
  shows "cookie_pairs H (map (\<lambda>ps. (''cookie'', cookie_header ps)) pss) = concat pss
    \<and> cookie_read H (map (\<lambda>ps. (''cookie'', cookie_header ps)) pss) name = map_of (concat pss) name"
proof -
  have "header_get_all (map (\<lambda>ps. (''cookie'', cookie_header ps)) pss) ''cookie'' = map cookie_header pss"
    by (induction pss) (auto simp: header_get_all_def)
  from cookie_jar[OF this assms] show ?thesis by simp
qed

theorem cookies_round_trip_witness:
  "cookie_read \<lparr>to_str = Some, from_str = Some\<rparr>
     [(''cookie'', ''a=1; session_x=no; session=abc_def''), (''cookie'', ''b=2'')] ''session'' = Some ''abc_def''"
proof -
  let ?pss = "[[(''a'', ''1''), (''session_x'', ''no''), (''session'', ''abc_def'')], [(''b'', ''2'')]]"
  have s: "\<forall>ps \<in> set ?pss. ps \<noteq> [] \<and> (\<forall>(k, v) \<in> set ps. cookie_name_safe k \<and> cookie_value_safe v)"
    by (simp add: cookie_name_safe_def cookie_value_safe_def no_blank_def byte_def is_whitespace_def)
  from cookies_round_trip[OF s, of "\<lparr>to_str = Some, from_str = Some\<rparr>" "''session''"] show ?thesis
    by simp
qed

text \<open>
  Every cookie set is hardened: split at its semicolons, the value is the pair itself and then exactly
  \<open>Path=/\<close>, \<open>HttpOnly\<close>, \<open>SameSite=Lax\<close>, the \<open>Max-Age\<close> in decimal and, over HTTPS, \<open>Secure\<close>; there is
  never a \<open>Domain\<close>. Over HTTPS all three kinds of cookie are named with the \<open>__Host-\<close> prefix.\<close>

theorem set_cookie_is_host_locked:
  assumes "cookie_name_safe name" and "cookie_value_safe val"
  shows "split_on CHR '';'' (names_set n name val age) =
      (name @ ''='' @ val) # ['' Path=/'', '' HttpOnly'', '' SameSite=Lax'', '' Max-Age='' @ decimal (unat age)]
        @ (if secure n then ['' Secure''] else [])
    \<and> split_once CHR ''='' (name @ ''='' @ val) = Some (name, val)
    \<and> starts_with ''__Host-'' (session_name (names_new True)) \<and> starts_with ''__Host-'' (retry_name (names_new True))
    \<and> starts_with ''__Host-'' (names_flow (names_new True) state) \<and> secure (names_new True)"
proof -
  have digits: "CHR '';'' \<notin> set (decimal (unat age))"
    using decimal_digits[of "unat age"] by (auto simp: list_all_iff is_digit_def byte_def)
  let ?age = "'' Max-Age='' @ decimal (unat age)"
  have a1: "split_on CHR '';'' ?age = [?age]"
    using digits by (intro split_on_no_sep) simp
  have a2: "split_on CHR '';'' (?age @ '';'' @ '' Secure'') = [?age, '' Secure'']"
    using digits split_on_append[of "CHR '';''" ?age "'' Secure''"] by simp
  have lits: "CHR '';'' \<notin> set '' Path=/''" "CHR '';'' \<notin> set '' HttpOnly''" "CHR '';'' \<notin> set '' SameSite=Lax''"
    by simp_all
  have set_eq: "names_set n name val age = (name @ CHR ''='' # val) @ CHR '';'' #
      ('' Path=/'' @ CHR '';'' # ('' HttpOnly'' @ CHR '';'' # ('' SameSite=Lax'' @ CHR '';'' #
        (if secure n then ?age @ '';'' @ '' Secure'' else ?age))))"
    by (simp add: names_set_def Let_def)
  have "split_on CHR '';'' (names_set n name val age) = (name @ CHR ''='' # val) # '' Path=/'' # '' HttpOnly'' #
      '' SameSite=Lax'' # split_on CHR '';'' (if secure n then ?age @ '';'' @ '' Secure'' else ?age)"
    unfolding set_eq
    by (simp only: split_on_append[OF segment_no_sep[OF assms]] split_on_append[OF lits(1)]
        split_on_append[OF lits(2)] split_on_append[OF lits(3)])
  moreover have "split_once CHR ''='' (name @ ''='' @ val) = Some (name, val)"
    using assms split_once_append[of "CHR ''=''" name val] by (simp add: cookie_name_safe_def)
  ultimately show ?thesis
    using a1 a2 by (cases "secure n") (simp_all add: names_new_def names_flow_def starts_with_def del: split_on.simps)
qed

theorem set_cookie_is_host_locked_witness:
  "split_on CHR '';'' (names_set (names_new True) ''__Host-session'' ''v'' 60)
     = [''__Host-session=v'', '' Path=/'', '' HttpOnly'', '' SameSite=Lax'', '' Max-Age='' @ decimal 60, '' Secure'']"
proof -
  have n: "cookie_name_safe ''__Host-session''" and v: "cookie_value_safe ''v''"
    by (simp_all add: cookie_name_safe_def cookie_value_safe_def no_blank_def byte_def is_whitespace_def)
  from set_cookie_is_host_locked[OF n v, of "names_new True" 60] show ?thesis
    by (simp add: names_new_def)
qed

end
