(* ===== verification/Flow.thy ===== *)
theory Flow
  imports Text
begin

text \<open>
  \<open>src/src/login/flow.rs\<close>: a sign-in in progress, sealed into a cookie of the browser that started
  it, and the check on the path it returns to. The base64, AEAD and JSON libraries, the random
  nonce and the clock are arguments.
\<close>

section \<open>Constants and data\<close>

definition flow_ttl :: duration where
  "flow_ttl = from_secs 1800"

definition max_return_to :: nat where
  "max_return_to = 256"

definition valid_state :: "string \<Rightarrow> bool" where
  "valid_state state \<longleftrightarrow> 16 \<le> length state \<and> length state \<le> 64
     \<and> list_all (\<lambda>b. is_ascii_alphanumeric (byte b) \<or> b = CHR ''-'' \<or> b = CHR ''_'') state"

record flow =
  pkce_verifier :: string
  nonce :: string
  return_to :: string
  step_up :: bool

record sealed =
  seal_v :: string
  seal_n :: string
  seal_r :: string
  seal_s :: bool
  seal_t :: u64

record flow_sealer =
  cipher_key :: string

record flow_lib =
  url_b64_encode :: "string \<Rightarrow> string"
  url_b64_decode :: "string \<Rightarrow> string option"
  aead_encrypt :: "string \<Rightarrow> string \<Rightarrow> string \<Rightarrow> string \<Rightarrow> string option"
  aead_decrypt :: "string \<Rightarrow> string \<Rightarrow> string \<Rightarrow> string \<Rightarrow> string option"
  sealed_to_json :: "sealed \<Rightarrow> string option"
  sealed_from_json :: "string \<Rightarrow> sealed option"

text \<open>The AEAD functions take key, nonce, associated data and message, in that order.\<close>

section \<open>Operations\<close>

text \<open>\<open>None\<close> is a failure of the operating system's generator.\<close>

definition flow_sealer_new :: "string option \<Rightarrow> flow_sealer option" where
  "flow_sealer_new rng = map_option (\<lambda>k. \<lparr>cipher_key = k\<rparr>) rng"

definition sealed_of :: "flow \<Rightarrow> u64 \<Rightarrow> sealed" where
  "sealed_of f now = \<lparr>seal_v = pkce_verifier f, seal_n = nonce f, seal_r = return_to f, seal_s = step_up f, seal_t = now\<rparr>"

definition seal :: "flow_lib \<Rightarrow> flow_sealer \<Rightarrow> u64 \<Rightarrow> string option \<Rightarrow> string \<Rightarrow> flow \<Rightarrow> string option" where
  "seal L s now rng state f =
     (case sealed_to_json L (sealed_of f now) of None \<Rightarrow> None | Some plain \<Rightarrow>
      (case rng of None \<Rightarrow> None | Some nc \<Rightarrow>
       (case aead_encrypt L (cipher_key s) nc state plain of None \<Rightarrow> None | Some c \<Rightarrow>
          Some (url_b64_encode L (nc @ c)))))"

definition open_raw :: "flow_lib \<Rightarrow> flow_sealer \<Rightarrow> string \<Rightarrow> string \<Rightarrow> (flow \<times> u64) option" where
  "open_raw L s state val =
     (case url_b64_decode L val of None \<Rightarrow> None | Some bytes \<Rightarrow>
      if length bytes \<le> 24 then None
      else (case aead_decrypt L (cipher_key s) (take 24 bytes) state (drop 24 bytes) of None \<Rightarrow> None | Some plain \<Rightarrow>
        (case sealed_from_json L plain of None \<Rightarrow> None | Some d \<Rightarrow>
          Some (\<lparr>pkce_verifier = seal_v d, nonce = seal_n d, return_to = seal_r d, step_up = seal_s d\<rparr>, seal_t d))))"

definition flow_open :: "flow_lib \<Rightarrow> flow_sealer \<Rightarrow> u64 \<Rightarrow> string \<Rightarrow> string \<Rightarrow> flow option" where
  "flow_open L s now state val =
     (case open_raw L s state val of None \<Rightarrow> None | Some (f, issued) \<Rightarrow>
        if saturating_sub now issued < as_secs flow_ttl then Some f else None)"

definition issued_at :: "flow_lib \<Rightarrow> flow_sealer \<Rightarrow> string \<Rightarrow> string \<Rightarrow> u64 option" where
  "issued_at L s state val = map_option snd (open_raw L s state val)"

definition safe_return_to :: "string option \<Rightarrow> string" where
  "safe_return_to raw =
     (case raw of
        Some p \<Rightarrow>
          if length p \<le> max_return_to
             \<and> starts_with ''/'' p
             \<and> \<not> starts_with ''//'' p
             \<and> \<not> list_ex (\<lambda>c. c = CHR 0x5C \<or> c = CHR 0x22) p
             \<and> \<not> list_ex (\<lambda>u. is_control u \<or> is_whitespace u) (chars p)
          then p else ''/''
      | None \<Rightarrow> ''/'')"

section \<open>What the libraries promise\<close>

text \<open>
  The round-trip facts the code relies on, for one value each: what was encoded decodes, what was
  encrypted decrypts under the same key, nonce and associated data, what was serialised parses.
\<close>

definition flow_lib_inverse :: "flow_lib \<Rightarrow> string \<Rightarrow> sealed \<Rightarrow> bool" where
  "flow_lib_inverse L key d \<longleftrightarrow>
     (\<forall>x. url_b64_decode L (url_b64_encode L x) = Some x)
     \<and> (\<forall>n a m c. aead_encrypt L key n a m = Some c \<longrightarrow> aead_decrypt L key n a c = Some m \<and> c \<noteq> [])
     \<and> (\<forall>j. sealed_to_json L d = Some j \<longrightarrow> sealed_from_json L j = Some d)"

text \<open>
  The authenticity an AEAD documents, as an ideal: under this process's key nothing decrypts but
  what was encrypted with it, for the same associated data. \<open>sealings\<close> lists the encryptions made:
  each is a state, a flow and its issue time.
\<close>

definition only_sealings_decrypt :: "flow_lib \<Rightarrow> string \<Rightarrow> (string \<times> flow \<times> u64) list \<Rightarrow> bool" where
  "only_sealings_decrypt L key sealings \<longleftrightarrow>
     (\<forall>n a c m. aead_decrypt L key n a c = Some m \<longrightarrow>
        (\<exists>(st, f, t) \<in> set sealings. a = st \<and> sealed_to_json L (sealed_of f t) = Some m))"

text \<open>
  The same of one value that was presented: if it decrypts, what it holds was sealed before, for that state.
\<close>

definition genuine :: "flow_lib \<Rightarrow> string \<Rightarrow> (string \<times> flow \<times> u64) list \<Rightarrow> string \<Rightarrow> bool" where
  "genuine L key sealings val \<longleftrightarrow>
     (\<forall>bytes a m. url_b64_decode L val = Some bytes \<longrightarrow> aead_decrypt L key (take 24 bytes) a (drop 24 bytes) = Some m \<longrightarrow>
        (\<exists>(st, f, t) \<in> set sealings. a = st \<and> sealed_to_json L (sealed_of f t) = Some m))"

lemma all_genuine: "only_sealings_decrypt L key sealings \<Longrightarrow> genuine L key sealings val"
  by (simp add: only_sealings_decrypt_def genuine_def)

section \<open>Properties\<close>

lemma flow_ttl_secs: "as_secs flow_ttl = 1800"
  by (simp add: as_secs_def flow_ttl_def from_secs_def nanos_per_sec_def)

lemma valid_state_safe: "valid_state s \<Longrightarrow> (\<forall>c \<in> set s. byte c < 128) \<and> CHR '';'' \<notin> set s \<and> CHR ''='' \<notin> set s"
  by (auto simp: valid_state_def list_all_iff is_ascii_alphanumeric_def byte_def)

lemma sealed_opens:
  assumes "flow_lib_inverse L (cipher_key s) (sealed_of f t0)" and "length nc = 24"
    and "seal L s t0 (Some nc) state f = Some val"
  shows "flow_open L s now state val = (if unat now - unat t0 < 1800 then Some f else None)
    \<and> issued_at L s state val = Some t0"
proof -
  obtain plain c where j: "sealed_to_json L (sealed_of f t0) = Some plain"
      and e: "aead_encrypt L (cipher_key s) nc state plain = Some c" and v: "val = url_b64_encode L (nc @ c)"
    using assms(3) by (auto simp: seal_def split: option.splits)
  have inv: "url_b64_decode L val = Some (nc @ c)" "aead_decrypt L (cipher_key s) nc state c = Some plain" "c \<noteq> []"
      "sealed_from_json L plain = Some (sealed_of f t0)"
    using assms(1) j e unfolding v flow_lib_inverse_def by auto
  have "open_raw L s state val = Some (f, t0)"
    using inv assms(2) by (simp add: open_raw_def sealed_of_def)
  then show ?thesis
    by (simp add: flow_open_def issued_at_def flow_ttl_secs word_less_nat_alt unat_saturating_sub)
qed

text \<open>
  Sealing and opening round-trip: a flow sealed for a state opens for that state with everything
  intact exactly while it is younger than the 1800 seconds of \<open>FLOW_TTL\<close> (a clock that went back
  counts as no time), and its issue time can be read at any age.\<close>

theorem sealed_flow_opens_until_it_expires:
  assumes "flow_lib_inverse L (cipher_key s) (sealed_of f t0)" and "length nc = 24"
    and "seal L s t0 (Some nc) state f = Some val"
  shows "flow_open L s now state val = (if unat now - unat t0 < 1800 then Some f else None)
    \<and> issued_at L s state val = Some t0"
  using assms by (rule sealed_opens)

theorem sealed_flow_opens_until_it_expires_witness:
  "\<exists>L s f val. seal L s 100 (Some (replicate 24 CHR ''n'')) ''abcdefghijklmnop'' f = Some val
     \<and> flow_open L s 1899 ''abcdefghijklmnop'' val = Some f \<and> flow_open L s 1900 ''abcdefghijklmnop'' val = None"
proof -
  let ?f = "\<lparr>pkce_verifier = ''v'', nonce = ''n'', return_to = ''/'', step_up = True\<rparr>"
  let ?L = "\<lparr>url_b64_encode = (\<lambda>x. x), url_b64_decode = Some, aead_encrypt = (\<lambda>k n a m. Some (CHR ''!'' # m)),
     aead_decrypt = (\<lambda>k n a c. case c of [] \<Rightarrow> None | _ # m \<Rightarrow> Some m),
     sealed_to_json = (\<lambda>_. Some ''j''), sealed_from_json = (\<lambda>_. Some (sealed_of ?f 100))\<rparr>"
  let ?s = "\<lparr>cipher_key = ''key''\<rparr>"
  let ?nc = "replicate 24 CHR ''n''"
  have i: "flow_lib_inverse ?L (cipher_key ?s) (sealed_of ?f 100)"
    by (simp add: flow_lib_inverse_def)
  have v: "seal ?L ?s 100 (Some ?nc) ''abcdefghijklmnop'' ?f = Some (?nc @ ''!j'')"
    by (simp add: seal_def)
  have l: "length ?nc = 24" by simp
  show ?thesis
    using sealed_flow_opens_until_it_expires[OF i l v, of 1899] sealed_flow_opens_until_it_expires[OF i l v, of 1900] v
    by auto
qed

lemma genuine_was_sealed:
  assumes "genuine L (cipher_key s) sealings val"
    and "\<forall>(st, f, t) \<in> set sealings. \<forall>j. sealed_to_json L (sealed_of f t) = Some j \<longrightarrow> sealed_from_json L j = Some (sealed_of f t)"
    and "flow_open L s now state val = Some g"
  shows "\<exists>t. (state, g, t) \<in> set sealings \<and> unat now - unat t < 1800"
proof -
  obtain t where r: "open_raw L s state val = Some (g, t)" and young: "saturating_sub now t < 1800"
    using assms(3) by (auto simp: flow_open_def flow_ttl_secs split: option.splits prod.splits if_splits)
  then obtain bytes plain d where d: "url_b64_decode L val = Some bytes"
      "aead_decrypt L (cipher_key s) (take 24 bytes) state (drop 24 bytes) = Some plain"
      "sealed_from_json L plain = Some d" "seal_t d = t"
      "g = \<lparr>pkce_verifier = seal_v d, nonce = seal_n d, return_to = seal_r d, step_up = seal_s d\<rparr>"
    by (auto simp: open_raw_def split: option.splits if_splits)
  obtain f t' where m: "(state, f, t') \<in> set sealings" "sealed_to_json L (sealed_of f t') = Some plain"
    using assms(1) d(1,2) unfolding genuine_def by fast
  then have "d = sealed_of f t'"
    using assms(2) d(3) by fastforce
  then have "g = f" and "t = t'"
    using d(4,5) by (simp_all add: sealed_of_def)
  with m young show ?thesis
    by (auto simp: word_less_nat_alt unat_saturating_sub)
qed

lemmas opened_was_sealed = genuine_was_sealed[OF all_genuine]

text \<open>
  Only a flow this process sealed for this very state, less than \<open>FLOW_TTL\<close> ago, opens: a cookie of
  another flow, from before a restart (another key), altered or too old does not.\<close>

theorem only_own_fresh_flows_open:
  assumes "only_sealings_decrypt L (cipher_key s) sealings"
    and "\<forall>(st, f, t) \<in> set sealings. \<forall>j. sealed_to_json L (sealed_of f t) = Some j \<longrightarrow> sealed_from_json L j = Some (sealed_of f t)"
    and "flow_open L s now state val = Some g"
  shows "\<exists>t. (state, g, t) \<in> set sealings \<and> unat now - unat t < 1800"
  using assms by (rule opened_was_sealed)

theorem only_own_fresh_flows_open_witness:
  "\<exists>L s f val t. flow_open L s 50 ''abcdefghijklmnop'' val = Some f
     \<and> (''abcdefghijklmnop'', f, t) \<in> set [(''abcdefghijklmnop'', f, 20)] \<and> 50 - unat t < 1800"
proof -
  let ?f = "\<lparr>pkce_verifier = ''v'', nonce = ''n'', return_to = ''/'', step_up = True\<rparr>"
  let ?L = "\<lparr>url_b64_encode = (\<lambda>x. x), url_b64_decode = Some, aead_encrypt = (\<lambda>k n a m. Some (a @ m)),
     aead_decrypt = (\<lambda>k n a c. if a = ''abcdefghijklmnop'' \<and> c = ''c'' then Some ''j'' else None),
     sealed_to_json = (\<lambda>_. Some ''j''), sealed_from_json = (\<lambda>_. Some (sealed_of ?f 20))\<rparr>"
  let ?s = "\<lparr>cipher_key = ''key''\<rparr>"
  let ?log = "[(''abcdefghijklmnop'', ?f, 20 :: u64)]"
  have a: "only_sealings_decrypt ?L (cipher_key ?s) ?log"
    by (simp add: only_sealings_decrypt_def)
  have b: "\<forall>(st, f, t) \<in> set ?log. \<forall>j. sealed_to_json ?L (sealed_of f t) = Some j \<longrightarrow> sealed_from_json ?L j = Some (sealed_of f t)"
    by simp
  have c: "flow_open ?L ?s 50 ''abcdefghijklmnop'' (replicate 24 CHR ''n'' @ ''c'') = Some ?f"
    by (simp add: flow_open_def open_raw_def flow_ttl_secs sealed_of_def saturating_sub_def)
  from only_own_fresh_flows_open[OF a b c] c show ?thesis by fastforce
qed

text \<open>
  A path that stays on this origin however a browser resolves it: one leading slash, no backslash
  or quote, no control or white space character, and short.
\<close>

definition same_origin_path :: "string \<Rightarrow> bool" where
  "same_origin_path p \<longleftrightarrow>
     (\<exists>r. p = CHR ''/'' # r \<and> (\<forall>r'. r \<noteq> CHR ''/'' # r'))
     \<and> CHR 0x5C \<notin> set p \<and> CHR 0x22 \<notin> set p
     \<and> (\<forall>u \<in> set (chars p). \<not> is_control u \<and> \<not> is_whitespace u) \<and> length p \<le> 256"

lemma safe_return_to_cond:
  "length p \<le> max_return_to \<and> starts_with ''/'' p \<and> \<not> starts_with ''//'' p
     \<and> \<not> list_ex (\<lambda>c. c = CHR 0x5C \<or> c = CHR 0x22) p
     \<and> \<not> list_ex (\<lambda>u. is_control u \<or> is_whitespace u) (chars p) \<longleftrightarrow> same_origin_path p"
proof (cases p)
  case Nil
  then show ?thesis by (simp add: same_origin_path_def starts_with_def)
next
  case (Cons c r)
  have one: "starts_with ''/'' p \<longleftrightarrow> c = CHR ''/''"
    by (simp add: starts_with_def Cons)
  have two: "starts_with ''//'' p \<longleftrightarrow> c = CHR ''/'' \<and> (\<exists>r'. r = CHR ''/'' # r')"
    by (cases r) (auto simp: starts_with_def Cons)
  have bad: "\<not> list_ex (\<lambda>c. c = CHR 0x5C \<or> c = CHR 0x22) p \<longleftrightarrow> CHR 0x5C \<notin> set p \<and> CHR 0x22 \<notin> set p"
    "\<not> list_ex (\<lambda>u. is_control u \<or> is_whitespace u) (chars p) \<longleftrightarrow>
      (\<forall>u \<in> set (chars p). \<not> is_control u \<and> \<not> is_whitespace u)"
    by (auto simp: list_ex_iff)
  have lead: "(\<exists>r'. p = CHR ''/'' # r' \<and> (\<forall>r''. r' \<noteq> CHR ''/'' # r'')) \<longleftrightarrow>
      c = CHR ''/'' \<and> \<not> (\<exists>r'. r = CHR ''/'' # r')"
    by (auto simp: Cons)
  show ?thesis
    unfolding same_origin_path_def one two bad lead max_return_to_def by blast
qed

lemma same_origin_root: "same_origin_path ''/''"
  by (auto simp: same_origin_path_def chars_def utf8_width_def code_point_def utf8_lead_def byte_def
      is_control_def is_whitespace_def)

lemma safe_return_to_alt:
  "safe_return_to raw = (case raw of Some p \<Rightarrow> if same_origin_path p then p else ''/'' | None \<Rightarrow> ''/'')"
  unfolding safe_return_to_def safe_return_to_cond ..

lemma safe_return_to_safe: "same_origin_path (safe_return_to raw)"
  by (simp add: safe_return_to_alt same_origin_root split: option.splits)

text \<open>C14
  The landing path is always a same-origin absolute path of at most 256 bytes, so no \<open>returnTo\<close>
  leads off this origin or splits a header; a \<open>returnTo\<close> that is such a path is honoured unchanged
  and anything else lands on \<open>/\<close>.\<close>

theorem return_to_never_leaves_the_origin:
  "same_origin_path (safe_return_to raw)
   \<and> (\<forall>p. same_origin_path p \<longleftrightarrow> safe_return_to (Some p) = p)
   \<and> (safe_return_to raw = ''/'' \<or> raw = Some (safe_return_to raw))"
  using safe_return_to_safe[of raw] same_origin_root
  by (auto simp: safe_return_to_alt split: option.splits)

end
