(* ===== verification/Claims.thy ===== *)
theory Claims
  imports Prelude
begin

text \<open>
  The identity a request ends up with (\<open>Claims\<close> of \<open>src/src/auth.rs\<close>) and the epoch clock that
  issues and checks expiry times.
\<close>

text \<open>
  \<open>SystemTime\<close> is a number of nanoseconds relative to the Unix epoch, negative before it.
  \<open>unix_now\<close> is the whole seconds since the epoch, zero for a clock before it.
\<close>

definition unix_now :: "int \<Rightarrow> u64" where
  "unix_now t = (if t < 0 then 0 else as_secs (nat t))"

record claims =
  cl_sub :: string
  cl_email :: "string option"
  cl_exp :: usize
  cl_auth_time :: "usize option"

text \<open>The \<open>aud\<close> of a token: one audience or several.\<close>

datatype audience = One string | Many "string list"

definition into_vec :: "audience \<Rightarrow> string list" where
  "into_vec a = (case a of One x \<Rightarrow> [x] | Many xs \<Rightarrow> xs)"

end
