(* ===== verification/Session.thy ===== *)
theory Session
  imports Claims Text "HOL-Library.Multiset"
begin

text \<open>
  \<open>src/src/login/session.rs\<close>: the server-side session store. Every operation holds the store's one
  mutex, so a concurrent use is some sequence of operations; the clock readings inside one operation
  are one reading. The order in which the hash map iterates is not specified by Rust: \<open>insert\<close> takes
  it as an argument, a function that permutes the entries.
\<close>

section \<open>Constants, data, the oldest entry\<close>

definition max_sessions :: nat where
  "max_sessions = 10000"

definition max_per_subject :: nat where
  "max_per_subject = 20"

definition sweep_every :: duration where
  "sweep_every = from_secs 60"

record identity =
  id_sub :: string
  id_email :: "string option"
  id_name :: "string option"

record session =
  identity :: identity
  auth_time :: "u64 option"
  expires_at :: u64
  created :: instant
  created_wall :: int

type_synonym session_map = "(string, session) hash_map"

record session_store =
  session_map :: session_map
  last_sweep :: instant
  ttl :: duration

text \<open>\<open>Iterator::min_by_key\<close>: the first of the least elements.\<close>

fun min_by_key :: "('a \<Rightarrow> nat) \<Rightarrow> 'a list \<Rightarrow> 'a option" where
  "min_by_key k [] = None"
| "min_by_key k (x # xs) =
     (case min_by_key k xs of None \<Rightarrow> Some x | Some y \<Rightarrow> if k x \<le> k y then Some x else Some y)"

lemma min_by_key_None [simp]: "min_by_key k xs = None \<longleftrightarrow> xs = []"
  by (cases xs) (auto split: option.splits)

lemma min_by_key_Some: "min_by_key k xs = Some y \<Longrightarrow> y \<in> set xs \<and> (\<forall>x \<in> set xs. k y \<le> k x)"
  by (induction xs arbitrary: y) (fastforce split: option.splits if_splits)+

section \<open>Operations\<close>

text \<open>A session id: 32 random bytes in base64url; \<open>None\<close> when the generator failed.\<close>

definition new_id :: "(string \<Rightarrow> string) \<Rightarrow> string option \<Rightarrow> string option" where
  "new_id b64 rng = map_option b64 rng"

definition session_store_new :: "duration \<Rightarrow> instant \<Rightarrow> session_store" where
  "session_store_new t now = \<lparr>session_map = hm_new, last_sweep = now, ttl = t\<rparr>"

definition live :: "duration \<Rightarrow> instant \<Rightarrow> session \<Rightarrow> bool" where
  "live t now x \<longleftrightarrow> elapsed now (created x) < t"

definition sweep :: "instant \<Rightarrow> session_store \<Rightarrow> session_store" where
  "sweep now s = s\<lparr>session_map := hm_retain (\<lambda>_. live (ttl s) now) (session_map s), last_sweep := now\<rparr>"

definition is_theirs :: "string \<Rightarrow> session \<Rightarrow> bool" where
  "is_theirs sub x \<longleftrightarrow> id_sub (identity x) = sub"

definition evict_choice :: "(session_map \<Rightarrow> session_map) \<Rightarrow> string \<Rightarrow> session_map \<Rightarrow> string option" where
  "evict_choice iter sub m =
     (let theirs = map (\<lambda>(k, x). (k, created x)) (filter (\<lambda>(_, x). is_theirs sub x) (iter m))
      in if length theirs \<ge> max_per_subject then map_option fst (min_by_key snd theirs)
         else if hm_len m \<ge> max_sessions then map_option fst (min_by_key (\<lambda>(_, x). created x) (iter m))
         else None)"

definition session_insert ::
  "(session_map \<Rightarrow> session_map) \<Rightarrow> instant \<Rightarrow> int \<Rightarrow> string option \<Rightarrow> identity \<Rightarrow> u64 option \<Rightarrow> session_store
     \<Rightarrow> string option \<times> session_store" where
  "session_insert iter now wall fresh idn auth s =
     (case fresh of None \<Rightarrow> (None, s) | Some i \<Rightarrow>
        let s1 = (if elapsed now (last_sweep s) \<ge> sweep_every then sweep now s else s);
            m2 = (case evict_choice iter (id_sub idn) (session_map s1) of
                    Some k \<Rightarrow> hm_remove k (session_map s1) | None \<Rightarrow> session_map s1);
            x = \<lparr>identity = idn, auth_time = auth, expires_at = unix_now wall + as_secs (ttl s),
                 created = now, created_wall = wall\<rparr>
        in (Some i, s1\<lparr>session_map := hm_insert i x m2\<rparr>))"

definition session_get :: "string \<Rightarrow> instant \<Rightarrow> session_store \<Rightarrow> session option \<times> session_store" where
  "session_get i now s =
     (case hm_get (session_map s) i of
        Some x \<Rightarrow> if live (ttl s) now x then (Some x, s)
                  else (None, s\<lparr>session_map := hm_remove i (session_map s)\<rparr>)
      | None \<Rightarrow> (None, s))"

definition session_remove :: "string \<Rightarrow> session_store \<Rightarrow> session_store" where
  "session_remove i s = s\<lparr>session_map := hm_remove i (session_map s)\<rparr>"

definition session_count :: "session_store \<Rightarrow> nat" where
  "session_count s = hm_len (session_map s)"

section \<open>Invariants\<close>

definition session_wf :: "session_store \<Rightarrow> bool" where
  "session_wf s \<longleftrightarrow> hm_wf (session_map s)"

definition iteration_order :: "(session_map \<Rightarrow> session_map) \<Rightarrow> bool" where
  "iteration_order iter \<longleftrightarrow> (\<forall>m. mset (iter m) = mset m)"

definition bounded :: "session_store \<Rightarrow> bool" where
  "bounded s \<longleftrightarrow> session_wf s \<and> session_count s \<le> max_sessions
     \<and> (\<forall>sub. hm_count (is_theirs sub) (session_map s) \<le> max_per_subject)"

lemma iteration_set: "iteration_order iter \<Longrightarrow> set (iter m) = set m"
  unfolding iteration_order_def by (metis set_mset_mset)

lemma iteration_count: "iteration_order iter \<Longrightarrow> length (filter (\<lambda>(_, x). P x) (iter m)) = hm_count P m"
  unfolding iteration_order_def hm_count_def by (metis mset_filter size_mset)

lemma iteration_get:
  "iteration_order iter \<Longrightarrow> hm_wf m \<Longrightarrow> (k, x) \<in> set (iter m) \<longleftrightarrow> hm_get m k = Some x"
  by (simp add: iteration_set hm_wf_def hm_get_def)

text \<open>Whom an insertion evicts: the user's own oldest at their cap, otherwise the oldest of all.\<close>

lemma evict_own:
  assumes "iteration_order iter" and "hm_wf m" and "hm_count (is_theirs sub) m \<ge> max_per_subject"
  obtains k x where "evict_choice iter sub m = Some k" "hm_get m k = Some x" "is_theirs sub x"
    "\<forall>k' x'. hm_get m k' = Some x' \<and> is_theirs sub x' \<longrightarrow> created x \<le> created x'"
proof -
  let ?own = "map (\<lambda>(k, x). (k, created x)) (filter (\<lambda>(_, x). is_theirs sub x) (iter m))"
  have len: "length ?own = hm_count (is_theirs sub) m"
    using iteration_count[OF assms(1)] by simp
  then have "?own \<noteq> []"
    using assms(3) by (auto simp: max_per_subject_def)
  then obtain p where p: "min_by_key snd ?own = Some p"
    by (cases "min_by_key snd ?own") auto
  note least = min_by_key_Some[OF p]
  then obtain x where x: "(fst p, x) \<in> set (iter m)" "is_theirs sub x" "snd p = created x"
    by auto
  have all: "created x \<le> created x'" if g: "hm_get m k' = Some x'" "is_theirs sub x'" for k' x'
  proof -
    have "(k', created x') \<in> set ?own"
      using g iteration_get[OF assms(1,2)] by force
    with least have "snd p \<le> snd (k', created x')" by blast
    with x show ?thesis by simp
  qed
  have "evict_choice iter sub m = Some (fst p)"
    using len assms(3) p by (simp add: evict_choice_def Let_def)
  with x all show ?thesis
    using that iteration_get[OF assms(1,2)] by blast
qed

lemma evict_oldest:
  assumes "iteration_order iter" and "hm_wf m" and "hm_count (is_theirs sub) m < max_per_subject"
    and "hm_len m \<ge> max_sessions"
  obtains k x where "evict_choice iter sub m = Some k" "hm_get m k = Some x"
    "\<forall>k' x'. hm_get m k' = Some x' \<longrightarrow> created x \<le> created x'"
proof -
  have len: "\<not> length (filter (\<lambda>(_, x). is_theirs sub x) (iter m)) \<ge> max_per_subject"
    using iteration_count[OF assms(1)] assms(3) by simp
  have "m \<noteq> []"
    using assms(4) by (auto simp: hm_len_def max_sessions_def)
  then have "iter m \<noteq> []"
    using iteration_set[OF assms(1), of m] by (cases "iter m") auto
  then obtain p where p: "min_by_key (\<lambda>(_, x). created x) (iter m) = Some p"
    by (cases "min_by_key (\<lambda>(_, x). created x) (iter m)") auto
  obtain k x where kx: "p = (k, x)" by (cases p)
  note least = min_by_key_Some[OF p]
  have "evict_choice iter sub m = Some k"
    using len assms(4) p kx by (simp add: evict_choice_def Let_def)
  moreover have "hm_get m k = Some x"
    using least kx iteration_get[OF assms(1,2)] by blast
  moreover have "\<forall>k' x'. hm_get m k' = Some x' \<longrightarrow> created x \<le> created x'"
    using least kx iteration_get[OF assms(1,2)] by fastforce
  ultimately show ?thesis using that by blast
qed

lemma evict_none:
  assumes "iteration_order iter" and "hm_count (is_theirs sub) m < max_per_subject" and "hm_len m < max_sessions"
  shows "evict_choice iter sub m = None"
  using assms iteration_count[OF assms(1), of "is_theirs sub" m] by (simp add: evict_choice_def Let_def)

definition evicted :: "string option \<Rightarrow> session_map \<Rightarrow> session_map" where
  "evicted c m = (case c of Some k \<Rightarrow> hm_remove k m | None \<Rightarrow> m)"

lemma evicted_simps [simp]: "evicted None m = m" "evicted (Some k) m = hm_remove k m"
  by (simp_all add: evicted_def)

definition after_sweep :: "instant \<Rightarrow> session_store \<Rightarrow> session_store" where
  "after_sweep now s = (if elapsed now (last_sweep s) \<ge> sweep_every then sweep now s else s)"

lemma insert_map:
  "session_map (snd (session_insert iter now wall (Some i) idn auth s)) =
     hm_insert i \<lparr>identity = idn, auth_time = auth, expires_at = unix_now wall + as_secs (ttl s), created = now, created_wall = wall\<rparr>
       (evicted (evict_choice iter (id_sub idn) (session_map (after_sweep now s))) (session_map (after_sweep now s)))"
  by (simp add: session_insert_def Let_def after_sweep_def evicted_def)

lemma wf_evicted: "hm_wf m \<Longrightarrow> hm_wf (evicted c m)"
  by (cases c) (auto intro: hm.wf_del)

lemma wf_after_sweep: "session_wf s \<Longrightarrow> session_wf (after_sweep now s)"
  by (auto simp: after_sweep_def sweep_def session_wf_def)

lemma count_after_sweep:
  "session_wf s \<Longrightarrow> hm_count P (session_map (after_sweep now s)) \<le> hm_count P (session_map s)"
  by (auto simp: after_sweep_def sweep_def session_wf_def intro: hm_count_laws(4))

lemma len_after_sweep: "session_wf s \<Longrightarrow> hm_len (session_map (after_sweep now s)) \<le> hm_len (session_map s)"
  by (auto simp: after_sweep_def sweep_def session_wf_def intro: hm.size_keep_le)

text \<open>An eviction leaves room for one more, and one more keeps both bounds.\<close>

definition map_bounded :: "session_map \<Rightarrow> bool" where
  "map_bounded m \<longleftrightarrow> hm_wf m \<and> hm_len m \<le> max_sessions \<and> (\<forall>sub. hm_count (is_theirs sub) m \<le> max_per_subject)"

lemma bounded_map: "bounded s \<longleftrightarrow> map_bounded (session_map s)"
  by (simp add: bounded_def map_bounded_def session_wf_def session_count_def)

lemma sweep_bounded: "bounded s \<Longrightarrow> bounded (after_sweep now s)"
  using wf_after_sweep[of s now] count_after_sweep[of s _ now] len_after_sweep[of s now]
  unfolding bounded_def session_count_def by (meson le_trans)

lemma evicted_room:
  assumes b: "map_bounded m" and it: "iteration_order iter"
  shows "hm_len (evicted (evict_choice iter sub m) m) < max_sessions \<and> hm_count (is_theirs sub) (evicted (evict_choice iter sub m) m) < max_per_subject"
proof -
  have wf: "hm_wf m" and len: "hm_len m \<le> max_sessions" and cnt: "hm_count (is_theirs sub) m \<le> max_per_subject"
    using b by (simp_all add: map_bounded_def)
  have shorter: "hm_len (hm_remove k m) < hm_len m" if "hm_get m k = Some x" for k x
    using hm.size_del[OF wf, of k] hm.size_pos[OF wf, of k] that by simp
  show ?thesis
  proof (cases "hm_count (is_theirs sub) m \<ge> max_per_subject")
    case True
    obtain k x where k: "evict_choice iter sub m = Some k" "hm_get m k = Some x" "is_theirs sub x"
      by (rule evict_own[OF it wf True])
    have "Suc (hm_count (is_theirs sub) (hm_remove k m)) = hm_count (is_theirs sub) m"
      using hm_count_laws(3)[of m k x "is_theirs sub"] wf k(2,3) by simp
    with shorter[OF k(2)] cnt len show ?thesis unfolding k(1) evicted_simps by linarith
  next
    case few: False
    show ?thesis
    proof (cases "hm_len m \<ge> max_sessions")
      case True
      from few have less: "hm_count (is_theirs sub) m < max_per_subject" by simp
      obtain k x where k: "evict_choice iter sub m = Some k" "hm_get m k = Some x"
        by (rule evict_oldest[OF it wf less True])
      with shorter[OF k(2)] hm_count_laws(2)[OF wf, of "is_theirs sub" k] less len show ?thesis
        unfolding k(1) evicted_simps by linarith
    qed (use few evict_none[OF it, of sub m] in simp)
  qed
qed

lemma one_more_bounded:
  assumes b: "map_bounded m" and "hm_len m < max_sessions" and "hm_count (is_theirs (id_sub (identity x))) m < max_per_subject"
  shows "map_bounded (hm_insert i x m)"
proof -
  have wf: "hm_wf m" using b by (simp add: map_bounded_def)
  have "hm_count (is_theirs sub) (hm_insert i x m) \<le> max_per_subject" for sub
  proof -
    have "hm_count (is_theirs sub) (hm_insert i x m) \<le> hm_count (is_theirs sub) m + (if is_theirs sub x then 1 else 0)"
      by (rule hm_count_laws(1)[OF wf])
    with assms(3) b show ?thesis by (cases "is_theirs sub x") (auto simp: is_theirs_def map_bounded_def intro: le_trans)
  qed
  with assms(2) hm.size_put_le[OF wf, of i x] wf show ?thesis by (simp add: map_bounded_def hm.wf_put)
qed

lemma evicted_bounded: "map_bounded m \<Longrightarrow> map_bounded (evicted c m)"
  using hm_count_laws(2)[of m]
  by (cases c) (auto simp: map_bounded_def hm.wf_del hm.size_del intro: le_trans)

lemma insert_bounded:
  assumes b: "bounded s" and it: "iteration_order iter"
  shows "bounded (snd (session_insert iter now wall nid idn auth s))"
proof (cases nid)
  case None
  with b show ?thesis by (simp add: session_insert_def)
next
  case (Some i)
  let ?m = "session_map (after_sweep now s)"
  let ?e = "evicted (evict_choice iter (id_sub idn) ?m) ?m"
  have m: "map_bounded ?m" using sweep_bounded[OF b] by (simp add: bounded_map)
  show ?thesis
    unfolding bounded_map Some insert_map
    by (rule one_more_bounded) (use evicted_bounded[OF m] evicted_room[OF m it, of "id_sub idn"] in simp_all)
qed

lemma get_bounded: "bounded s \<Longrightarrow> bounded (snd (session_get i now s))"
  by (auto simp: session_get_def bounded_def session_wf_def session_count_def hm.size_del
      intro: hm.wf_del le_trans[OF hm_count_laws(2)] split: option.splits)

lemma remove_bounded: "bounded s \<Longrightarrow> bounded (session_remove i s)"
  by (auto simp: session_remove_def bounded_def session_wf_def session_count_def hm.size_del
      intro: hm.wf_del le_trans[OF hm_count_laws(2)])


text \<open>
  The number of sessions held counts the expired ones too, until a lookup of each or the sweep of a later
  sign-in removes them: it is not the number of live ones.
\<close>

lemma expired_sessions_are_counted:
  "session_count (snd (session_insert iter 0 wall (Some i) idn auth (session_store_new t 0))) = 1"
  "t \<le> now \<Longrightarrow> fst (session_get i now (snd (session_insert iter 0 wall (Some i) idn auth (session_store_new t 0)))) = None"
  if "iter [] = []"
  using that
  by (simp_all add: session_insert_def session_store_new_def session_count_def session_get_def evict_choice_def hm_new_def
      hm_insert_def hm_get_def hm_len_def live_def elapsed_def sweep_every_def from_secs_def nanos_per_sec_def
      max_per_subject_def max_sessions_def)

section \<open>Sequences of operations\<close>

datatype session_op =
    Insert "session_map \<Rightarrow> session_map" instant int "string option" identity "u64 option"
  | Get string instant
  | Remove string

fun session_apply :: "session_op \<Rightarrow> session_store \<Rightarrow> session_store" where
  "session_apply (Insert iter now wall nid idn auth) s = snd (session_insert iter now wall nid idn auth s)"
| "session_apply (Get i now) s = snd (session_get i now s)"
| "session_apply (Remove i) s = session_remove i s"

text \<open>The hash map iterates its own entries.\<close>

definition iterates :: "session_op \<Rightarrow> bool" where
  "iterates x = (case x of Insert iter _ _ _ _ _ \<Rightarrow> iteration_order iter | _ \<Rightarrow> True)"

lemma new_bounded: "bounded (session_store_new t now)"
  using hm.wf_new hm.size_new
  by (auto simp: bounded_def session_store_new_def session_wf_def session_count_def hm_count_def hm_new_def hm_len_def)

lemma bounded_apply: "bounded s \<Longrightarrow> iterates x \<Longrightarrow> bounded (session_apply x s)"
  by (cases x) (auto simp: iterates_def insert_bounded get_bounded remove_bounded)

interpretation session_bound: uniform_invariant iterates session_apply bounded
  by unfold_locales (rule bounded_apply)

lemma session_ttl_apply: "ttl (session_apply x s) = ttl s"
  by (cases x)
    (auto simp: session_insert_def session_get_def session_remove_def sweep_def Let_def split: option.splits)

lemma session_wf_apply: "session_wf s \<Longrightarrow> session_wf (session_apply x s)"
proof (cases x)
  case (Insert iter now wall nid idn auth)
  assume wf: "session_wf s"
  show ?thesis
  proof (cases nid)
    case None
    with wf Insert show ?thesis by (simp add: session_insert_def)
  next
    case (Some i)
    have "hm_wf (session_map (after_sweep now s))"
      using wf_after_sweep[OF wf] by (simp add: session_wf_def)
    with Some Insert show ?thesis
      by (simp add: session_wf_def insert_map hm.wf_put wf_evicted)
  qed
qed (auto simp: session_wf_def session_get_def session_remove_def hm.wf_del split: option.splits)

subsection \<open>Other users' sessions\<close>

text \<open>Operations by user \<open>b\<close> up to time \<open>T\<close> that neither mint nor name the id \<open>k\<close>.\<close>

definition only_user :: "string \<Rightarrow> string \<Rightarrow> instant \<Rightarrow> session_op \<Rightarrow> bool" where
  "only_user b k T x =
     (case x of
        Insert iter now _ nid idn _ \<Rightarrow> iteration_order iter \<and> id_sub idn = b \<and> nid \<noteq> Some k \<and> now \<le> T
      | Get _ now \<Rightarrow> now \<le> T
      | Remove i \<Rightarrow> i \<noteq> k)"

definition bystander :: "string \<Rightarrow> string \<Rightarrow> session \<Rightarrow> duration \<Rightarrow> session_store \<Rightarrow> bool" where
  "bystander b k x t s \<longleftrightarrow> session_wf s \<and> ttl s = t \<and> hm_get (session_map s) k = Some x
     \<and> hm_count (\<lambda>v. \<not> is_theirs b v) (session_map s) + max_per_subject \<le> max_sessions"

lemma live_mono: "live t T x \<Longrightarrow> now \<le> T \<Longrightarrow> live t now x"
  by (auto simp: live_def intro: le_less_trans[OF elapsed_mono])

lemma after_sweep_keeps_live:
  "session_wf s \<Longrightarrow> hm_get (session_map s) k = Some x \<Longrightarrow> live (ttl s) now x \<Longrightarrow>
     hm_get (session_map (after_sweep now s)) k = Some x"
  by (simp add: after_sweep_def sweep_def session_wf_def hm.get_keep)

lemma bystander_insert:
  assumes bst: "bystander b k x t s" and nb: "\<not> is_theirs b x" and lv: "live t now x"
    and it: "iteration_order iter" and sub: "id_sub idn = b" and nk: "nid \<noteq> Some k"
  shows "bystander b k x t (snd (session_insert iter now wall nid idn auth s))"
proof (cases nid)
  case None
  with bst show ?thesis by (simp add: session_insert_def)
next
  case (Some i)
  let ?m = "session_map (after_sweep now s)"
  let ?c = "evict_choice iter b ?m"
  let ?x = "\<lparr>identity = idn, auth_time = auth, expires_at = unix_now wall + as_secs (ttl s), created = now, created_wall = wall\<rparr>"
  have s: "session_wf s" "ttl s = t" "hm_get (session_map s) k = Some x"
      "hm_count (\<lambda>v. \<not> is_theirs b v) (session_map s) + max_per_subject \<le> max_sessions"
    using bst by (simp_all add: bystander_def)
  have wf: "hm_wf ?m"
    using wf_after_sweep[OF s(1)] by (simp add: session_wf_def)
  have k: "hm_get ?m k = Some x"
    using after_sweep_keeps_live[OF s(1,3)] s(2) lv by simp
  have others: "hm_count (\<lambda>v. \<not> is_theirs b v) ?m + max_per_subject \<le> max_sessions"
    using count_after_sweep[OF s(1), of "\<lambda>v. \<not> is_theirs b v" now] s(4) by linarith
  have spared: "?c \<noteq> Some k"
  proof (cases "hm_count (is_theirs b) ?m \<ge> max_per_subject")
    case True
    obtain k' x' where "?c = Some k'" "hm_get ?m k' = Some x'" "is_theirs b x'"
        "\<forall>k'' x''. hm_get ?m k'' = Some x'' \<and> is_theirs b x'' \<longrightarrow> created x' \<le> created x''"
      by (rule evict_own[OF it wf True])
    with k nb show ?thesis by auto
  next
    case False
    then have "hm_count (is_theirs b) ?m < max_per_subject" by simp
    moreover from this have "hm_len ?m < max_sessions"
      using hm_count_laws(5)[OF wf, of "is_theirs b"] others by linarith
    ultimately show ?thesis
      using evict_none[OF it] by simp
  qed
  have wfe: "hm_wf (evicted ?c ?m)" by (rule wf_evicted[OF wf])
  have ke: "hm_get (evicted ?c ?m) k = Some x"
    using spared k by (cases ?c) (simp_all add: hm.get_del[OF wf])
  have "hm_count (\<lambda>v. \<not> is_theirs b v) (evicted ?c ?m) \<le> hm_count (\<lambda>v. \<not> is_theirs b v) ?m"
    by (cases ?c) (simp_all add: hm_count_laws(2)[OF wf])
  moreover have "hm_count (\<lambda>v. \<not> is_theirs b v) (hm_insert i ?x (evicted ?c ?m)) \<le> hm_count (\<lambda>v. \<not> is_theirs b v) (evicted ?c ?m)"
    using hm_count_laws(1)[OF wfe, of "\<lambda>v. \<not> is_theirs b v" i ?x] sub by (simp add: is_theirs_def)
  ultimately have "hm_count (\<lambda>v. \<not> is_theirs b v) (hm_insert i ?x (evicted ?c ?m)) + max_per_subject \<le> max_sessions"
    using others by linarith
  moreover have "ttl (snd (session_insert iter now wall nid idn auth s)) = t"
    using session_ttl_apply[of "Insert iter now wall nid idn auth" s] s(2) by simp
  ultimately show ?thesis
    using Some nk sub wfe ke by (simp add: bystander_def session_wf_def insert_map hm.wf_put hm.get_put)
qed

lemma bystander_apply:
  assumes bst: "bystander b k x t s" and nb: "\<not> is_theirs b x" and lv: "live t T x" and op: "only_user b k T y"
  shows "bystander b k x t (session_apply y s)"
proof (cases y)
  case (Insert iter now wall nid idn auth)
  then show ?thesis
    using bystander_insert[OF bst nb live_mono[OF lv]] op by (simp add: only_user_def)
next
  case (Get i now)
  then have "live t now x" using op live_mono[OF lv] by (simp add: only_user_def)
  then show ?thesis
    using bst Get hm_count_laws(2)[of "session_map s" "\<lambda>v. \<not> is_theirs b v" i]
    by (auto simp: session_get_def bystander_def session_wf_def hm.wf_del hm.get_del split: option.splits)
next
  case (Remove i)
  then show ?thesis
    using bst op hm_count_laws(2)[of "session_map s" "\<lambda>v. \<not> is_theirs b v" i]
    by (auto simp: session_remove_def bystander_def session_wf_def hm.wf_del hm.get_del only_user_def)
qed

text \<open>An insertion adds the one session asked for and otherwise only removes.\<close>

lemma insert_lookup_new:
  "hm_get (session_map (snd (session_insert iter now wall (Some i) idn auth s))) i =
     Some \<lparr>identity = idn, auth_time = auth, expires_at = unix_now wall + as_secs (ttl s), created = now, created_wall = wall\<rparr>"
  unfolding insert_map by (simp add: hm.get_put)

lemma after_sweep_old:
  "session_wf s \<Longrightarrow> hm_get (session_map (after_sweep now s)) k = Some x \<Longrightarrow> hm_get (session_map s) k = Some x"
  by (auto simp: after_sweep_def sweep_def session_wf_def hm.get_keep split: if_splits option.splits)

lemma evicted_old: "hm_wf m \<Longrightarrow> hm_get (evicted c m) k = Some x \<Longrightarrow> hm_get m k = Some x"
  by (cases c) (auto simp: hm.get_del split: if_splits)

lemma insert_lookup_old:
  assumes "session_wf s" and "hm_get (session_map (snd (session_insert iter now wall (Some i) idn auth s))) k = Some x" and "k \<noteq> i"
  shows "hm_get (session_map s) k = Some x"
proof -
  have "hm_wf (session_map (after_sweep now s))"
    using wf_after_sweep[OF assms(1)] by (simp add: session_wf_def)
  moreover have "hm_get (evicted (evict_choice iter (id_sub idn) (session_map (after_sweep now s)))
      (session_map (after_sweep now s))) k = Some x"
    using assms(2,3) unfolding insert_map hm.get_put by simp
  ultimately show ?thesis
    by (blast intro: after_sweep_old[OF assms(1)] evicted_old)
qed

section \<open>Properties\<close>

text \<open>C12
  The store is bounded overall and per user: after any sequence of sign-ins, lookups and removals on a
  new store, in whatever order its hash map iterates, at most 10000 sessions are held and at most 20
  of any one user.\<close>

theorem session_store_bounded:
  assumes "list_all iterates ops"
  shows "session_count (run_ops session_apply ops (session_store_new t now)) \<le> 10000
    \<and> hm_count (is_theirs sub) (session_map (run_ops session_apply ops (session_store_new t now))) \<le> 20"
proof -
  have "bounded (run_ops session_apply ops (session_store_new t now))"
    using session_bound.run_keeps_ok[OF new_bounded assms] .
  then show ?thesis
    by (simp add: bounded_def max_sessions_def max_per_subject_def)
qed

lemma iteration_id: "iteration_order (\<lambda>m. m)"
  by (simp add: iteration_order_def)

lemma iteration_rev: "iteration_order rev"
  by (simp add: iteration_order_def)

theorem session_store_bounded_witness:
  "session_count (run_ops session_apply
     [Insert rev 5 1000 (Some ''a'') \<lparr>id_sub = ''u'', id_email = None, id_name = None\<rparr> None, Get ''a'' 6]
     (session_store_new 100 0)) \<le> 10000"
proof -
  have h: "list_all iterates [Insert rev 5 1000 (Some ''a'') \<lparr>id_sub = ''u'', id_email = None, id_name = None\<rparr> None, Get ''a'' 6]"
    by (simp add: iterates_def iteration_rev)
  from session_store_bounded[OF h] show ?thesis by blast
qed

text \<open>C21
  One person cannot sign everyone else out: however often a user signs in, looks sessions up and signs
  out, another user's unexpired session stays, as long as all other users together leave room for one
  user's full quota.\<close>

theorem one_user_evicts_only_their_own:
  assumes "session_wf s" and "hm_get (session_map s) k = Some x" and "id_sub (identity x) \<noteq> b" and "live (ttl s) T x"
    and "hm_count (\<lambda>v. \<not> is_theirs b v) (session_map s) + 20 \<le> 10000"
    and "list_all (only_user b k T) ops"
  shows "hm_get (session_map (run_ops session_apply ops s)) k = Some x"
proof -
  have nb: "\<not> is_theirs b x"
    using assms(3) by (simp add: is_theirs_def)
  have "uniform_invariant (only_user b k T) session_apply (bystander b k x (ttl s))"
    by (rule uniform_invariant.intro) (rule bystander_apply[OF _ nb assms(4)])
  moreover have "bystander b k x (ttl s) s"
    using assms by (simp add: bystander_def max_per_subject_def max_sessions_def)
  ultimately have "bystander b k x (ttl s) (run_ops session_apply ops s)"
    by (rule uniform_invariant.run_keeps_ok[OF _ _ assms(6)])
  then show ?thesis by (simp add: bystander_def)
qed

lemma list_all_replicate: "p y \<Longrightarrow> list_all p (replicate n y)"
  by (induction n) auto

theorem one_user_evicts_only_their_own_witness:
  "\<exists>x. hm_get (session_map (run_ops session_apply
      (replicate 25 (Insert rev 7 2000 (Some ''m'') \<lparr>id_sub = ''mallory'', id_email = None, id_name = None\<rparr> None))
      \<lparr>session_map = [(''k'', \<lparr>identity = \<lparr>id_sub = ''ada'', id_email = None, id_name = None\<rparr>, auth_time = None,
         expires_at = 9, created = 5, created_wall = 0\<rparr>)], last_sweep = 0, ttl = 100\<rparr>)) ''k'' = Some x
    \<and> id_sub (identity x) = ''ada''"
proof -
  define x where "x = \<lparr>identity = \<lparr>id_sub = ''ada'', id_email = None, id_name = None\<rparr>, auth_time = None,
         expires_at = 9, created = 5, created_wall = 0\<rparr>"
  define s where "s = \<lparr>session_map = [(''k'', x)], last_sweep = 0, ttl = 100\<rparr>"
  define y where "y = Insert rev 7 2000 (Some ''m'') \<lparr>id_sub = ''mallory'', id_email = None, id_name = None\<rparr> None"
  have ops: "list_all (only_user ''mallory'' ''k'' 7) (replicate 25 y)"
    by (rule list_all_replicate) (simp add: y_def only_user_def iteration_rev)
  have wf: "session_wf s" and g: "hm_get (session_map s) ''k'' = Some x" and lv: "live (ttl s) 7 x"
    by (simp_all add: s_def x_def session_wf_def hm_wf_def hm_get_def live_def elapsed_def)
  have nb: "id_sub (identity x) \<noteq> ''mallory''" and ada: "id_sub (identity x) = ''ada''"
    by (simp_all add: x_def)
  have room: "hm_count (\<lambda>v. \<not> is_theirs ''mallory'' v) (session_map s) + 20 \<le> 10000"
    by (simp add: s_def hm_count_def)
  from one_user_evicts_only_their_own[OF wf g nb lv room ops] ada
  show ?thesis unfolding y_def s_def x_def by blast
qed

text \<open>
  A sign-in's session can be read back with its identity, authentication time and expiry for exactly the
  store's lifetime after it was made; a lookup at or past that removes it.\<close>

theorem session_round_trip:
  assumes "session_wf s" and "session_insert iter now wall (Some i) idn auth s = (r, s1)"
  shows "r = Some i
    \<and> fst (session_get i t s1) = (if t - now < ttl s
        then Some \<lparr>identity = idn, auth_time = auth, expires_at = unix_now wall + as_secs (ttl s), created = now, created_wall = wall\<rparr>
        else None)
    \<and> (hm_get (session_map (snd (session_get i t s1))) i = None \<longleftrightarrow> \<not> t - now < ttl s)"
proof -
  let ?x = "\<lparr>identity = idn, auth_time = auth, expires_at = unix_now wall + as_secs (ttl s), created = now, created_wall = wall\<rparr>"
  have r: "r = Some i" and s1: "s1 = snd (session_insert iter now wall (Some i) idn auth s)"
    using assms(2) by (auto simp: session_insert_def Let_def)
  have g: "hm_get (session_map s1) i = Some ?x"
    unfolding s1 insert_map by (simp add: hm.get_put)
  have wf: "hm_wf (session_map s1)" and t: "ttl s1 = ttl s"
    using session_wf_apply[OF assms(1), of "Insert iter now wall (Some i) idn auth"]
      session_ttl_apply[of "Insert iter now wall (Some i) idn auth" s]
    by (simp_all add: s1 session_wf_def)
  show ?thesis
    using r g wf t by (simp add: session_get_def live_def elapsed_def hm.get_del)
qed

theorem session_round_trip_witness:
  "\<exists>s1. session_insert rev 10 3000000000 (Some ''i'') \<lparr>id_sub = ''u'', id_email = None, id_name = None\<rparr> (Some 1)
       (session_store_new 300 0) = (Some ''i'', s1)
     \<and> fst (session_get ''i'' 309 s1) \<noteq> None \<and> fst (session_get ''i'' 310 s1) = None"
proof -
  let ?idn = "\<lparr>id_sub = ''u'', id_email = None, id_name = None\<rparr>"
  let ?s = "session_store_new 300 0"
  obtain r s1 where e: "session_insert rev 10 3000000000 (Some ''i'') ?idn (Some 1) ?s = (r, s1)"
    by fastforce
  have wf: "session_wf ?s"
    using hm.wf_new by (simp add: session_store_new_def session_wf_def)
  have "ttl ?s = 300" by (simp add: session_store_new_def)
  then show ?thesis
    using session_round_trip[OF wf e, of 309] session_round_trip[OF wf e, of 310] e by auto
qed

text \<open>
  What an insertion removes besides expired sessions is at most one session: at the user's cap their own
  oldest, otherwise, only when the store is full, the oldest of all.\<close>

theorem insert_evicts_at_most_the_oldest:
  assumes "session_wf s" and "iteration_order iter"
    and "hm_get (session_map s) k = Some x" and "live (ttl s) now x" and "k \<noteq> i"
    and "hm_get (session_map (snd (session_insert iter now wall (Some i) idn auth s))) k = None"
  shows "(hm_count (is_theirs (id_sub idn)) (session_map (after_sweep now s)) \<ge> 20
      \<and> id_sub (identity x) = id_sub idn
      \<and> (\<forall>k' x'. hm_get (session_map (after_sweep now s)) k' = Some x' \<and> is_theirs (id_sub idn) x' \<longrightarrow> created x \<le> created x'))
    \<or> (session_count (after_sweep now s) \<ge> 10000
      \<and> (\<forall>k' x'. hm_get (session_map (after_sweep now s)) k' = Some x' \<longrightarrow> created x \<le> created x'))"
proof -
  let ?m = "session_map (after_sweep now s)" and ?b = "id_sub idn"
  have wf: "hm_wf ?m"
    using wf_after_sweep[OF assms(1)] by (simp add: session_wf_def)
  have k: "hm_get ?m k = Some x"
    by (rule after_sweep_keeps_live[OF assms(1,3,4)])
  have "hm_get (evicted (evict_choice iter ?b ?m) ?m) k = None"
    using assms(5,6) by (simp add: insert_map hm.get_put)
  with k have c: "evict_choice iter ?b ?m = Some k"
    by (cases "evict_choice iter ?b ?m") (auto simp: hm.get_del[OF wf] split: if_splits)
  show ?thesis
  proof (cases "hm_count (is_theirs ?b) ?m \<ge> max_per_subject")
    case True
    obtain k' x' where own: "evict_choice iter ?b ?m = Some k'" "hm_get ?m k' = Some x'" "is_theirs ?b x'"
        "\<forall>k'' x''. hm_get ?m k'' = Some x'' \<and> is_theirs ?b x'' \<longrightarrow> created x' \<le> created x''"
      by (rule evict_own[OF assms(2) wf True])
    with c k have "x' = x" by simp
    with own True have "hm_count (is_theirs ?b) ?m \<ge> 20" "id_sub (identity x) = ?b"
        "\<forall>k'' x''. hm_get ?m k'' = Some x'' \<and> is_theirs ?b x'' \<longrightarrow> created x \<le> created x''"
      by (simp_all add: is_theirs_def max_per_subject_def)
    then show ?thesis by blast
  next
    case False
    then have own: "hm_count (is_theirs ?b) ?m < max_per_subject" by simp
    have full: "hm_len ?m \<ge> max_sessions"
      using evict_none[OF assms(2) own] c by fastforce
    obtain k' x' where "evict_choice iter ?b ?m = Some k'" "hm_get ?m k' = Some x'"
        "\<forall>k'' x''. hm_get ?m k'' = Some x'' \<longrightarrow> created x' \<le> created x''"
      by (rule evict_oldest[OF assms(2) wf own full])
    with c k full show ?thesis
      by (simp add: session_count_def max_sessions_def)
  qed
qed


theorem insert_evicts_at_most_the_oldest_witness:
  "\<exists>s x. hm_get (session_map s) ''k0'' = Some x
     \<and> hm_get (session_map (snd (session_insert (\<lambda>m. m) 30 0 (Some ''new'') (identity x) None s))) ''k0'' = None
     \<and> 20 \<le> hm_count (is_theirs (id_sub (identity x))) (session_map (after_sweep 30 s))"
proof -
  define x where "x = (\<lambda>t::nat. \<lparr>identity = \<lparr>id_sub = ''u'', id_email = None, id_name = None\<rparr>, auth_time = None,
         expires_at = 9, created = t, created_wall = 0\<rparr>)"
  define key where "key = (\<lambda>i::nat. CHR ''k'' # decimal i)"
  define s where "s = \<lparr>session_map = map (\<lambda>i. (key i, x i)) [0..<20], last_sweep = 0, ttl = 100\<rparr>"
  have inj: "inj key"
    unfolding inj_def key_def by (metis digits_value_decimal list.inject)
  have k0: "key 0 = ''k0''"
    by (simp add: key_def decimal.simps digit_zero)
  have sw: "after_sweep 30 s = s"
    by (simp add: after_sweep_def s_def sweep_every_def from_secs_def nanos_per_sec_def elapsed_def)
  have wf: "session_wf s"
    using inj by (simp add: session_wf_def hm_wf_def s_def comp_def distinct_map inj_on_def inj_def)
  have own: "hm_count (is_theirs ''u'') (session_map s) = 20"
    by (simp add: hm_count_def s_def x_def is_theirs_def filter_map comp_def)
  have g: "hm_get (session_map s) ''k0'' = Some (x 0)"
    unfolding hm_get_def s_def by (simp add: upt_conv_Cons k0)
  have lv: "live (ttl s) 30 (x 0)"
    by (simp add: live_def elapsed_def s_def x_def)
  have idn: "id_sub (identity (x 0)) = ''u''"
    by (simp add: x_def)
  have c: "evict_choice (\<lambda>m. m) ''u'' (session_map s) = Some ''k0''"
  proof (rule evict_own[OF iteration_id, of "session_map s" "''u''"])
    show "hm_wf (session_map s)" using wf by (simp add: session_wf_def)
    show "max_per_subject \<le> hm_count (is_theirs ''u'') (session_map s)"
      by (simp add: own max_per_subject_def)
    fix k y
    assume k: "evict_choice (\<lambda>m. m) ''u'' (session_map s) = Some k" "hm_get (session_map s) k = Some y"
      and le: "\<forall>k' x'. hm_get (session_map s) k' = Some x' \<and> is_theirs ''u'' x' \<longrightarrow> created y \<le> created x'"
    have "(k, y) \<in> set (session_map s)"
      using k(2) by (simp add: hm_get_def map_of_SomeD)
    then obtain i where i: "k = key i" "y = x i"
      by (auto simp: s_def)
    moreover have "is_theirs ''u'' (x 0)"
      by (simp add: x_def is_theirs_def)
    then have "created y \<le> created (x 0)"
      using le g by blast
    ultimately show ?thesis using k(1) k0 by (simp add: x_def)
  qed
  have gone: "hm_get (session_map (snd (session_insert (\<lambda>m. m) 30 0 (Some ''new'') (identity (x 0)) None s))) ''k0'' = None"
    using wf by (simp add: insert_map sw idn c hm.get_put hm.get_del session_wf_def)
  have few: "\<not> session_count s \<ge> 10000"
    by (simp add: session_count_def hm_len_def s_def)
  have "20 \<le> hm_count (is_theirs (id_sub (identity (x 0)))) (session_map (after_sweep 30 s))"
    using insert_evicts_at_most_the_oldest[OF wf iteration_id g lv _ gone] few sw by auto
  with g gone show ?thesis by blast
qed

end
