(* ===== verification/Gate.thy ===== *)
theory Gate
  imports Prelude
begin

text \<open>
  The contract shared by the crate's two refreshers, \<open>JwksStore\<close>'s key refresh and \<open>Provider\<close>'s
  discovery: calls are serialised by a mutex held across the fetch (single flight), and a cooldown
  armed by an attempt keeps later attempts away for a while. The locale states what one call promises;
  its lemma lifts this to the spacing of all attempts of a run.
\<close>

text \<open>
  A run of serialised calls: each holds the lock from one instant to a later one, and the next
  takes it after that.
\<close>

fun timed :: "('call \<Rightarrow> instant) \<Rightarrow> ('call \<Rightarrow> instant) \<Rightarrow> instant \<Rightarrow> 'call list \<Rightarrow> bool" where
  "timed t_in t_out now [] = True"
| "timed t_in t_out now (c # cs) = (now \<le> t_in c \<and> t_in c \<le> t_out c \<and> timed t_in t_out (t_out c) cs)"

text \<open>The attempts a run makes, in order.\<close>

fun attempts :: "('call \<Rightarrow> 's \<Rightarrow> 'a option \<times> 's) \<Rightarrow> 'call list \<Rightarrow> 's \<Rightarrow> 'a list" where
  "attempts call [] s = []"
| "attempts call (c # cs) s =
     (case call c s of (None, s') \<Rightarrow> attempts call cs s' | (Some a, s') \<Rightarrow> a # attempts call cs s')"

locale cooldown_gate =
  fixes call :: "'call \<Rightarrow> 's \<Rightarrow> 'a option \<times> 's"
    and t_in :: "'call \<Rightarrow> instant"
    and t_out :: "'call \<Rightarrow> instant"
    and armed :: "'s \<Rightarrow> instant option"
    and gap :: duration
    and begins :: "'a \<Rightarrow> instant"
    and arms :: "'a \<Rightarrow> bool"
    and mark :: "'a \<Rightarrow> instant"
    and gated :: "'a \<Rightarrow> bool"
  assumes begins_in: "call c s = (Some a, s') \<Longrightarrow> t_in c \<le> begins a"
    and gated_begins: "call c s = (Some a, s') \<Longrightarrow> gated a \<Longrightarrow> armed s = Some f \<Longrightarrow> f + gap \<le> begins a"
    and arms_mark: "call c s = (Some a, s') \<Longrightarrow> arms a \<Longrightarrow> t_in c \<le> t_out c \<Longrightarrow> \<exists>f. armed s' = Some f \<and> mark a \<le> f"
    and stays_armed: "call c s = (r, s') \<Longrightarrow> armed s = Some f \<Longrightarrow> t_in c \<le> t_out c \<Longrightarrow> f \<le> t_in c \<Longrightarrow>
      (\<exists>f'. armed s' = Some f' \<and> f \<le> f') \<or> f + gap \<le> t_out c"
    and armed_past: "call c s = (r, s') \<Longrightarrow> t_in c \<le> t_out c \<Longrightarrow> armed s' = armed s \<or> (\<forall>f. armed s' = Some f \<longrightarrow> f \<le> t_out c)"
begin

definition spaced :: "'a \<Rightarrow> 'a \<Rightarrow> bool" where
  "spaced a b \<longleftrightarrow> (arms a \<longrightarrow> gated b \<longrightarrow> mark a + gap \<le> begins b)"

text \<open>An instant the gate protects: later gated attempts begin at least \<open>gap\<close> after it.\<close>

lemma protected:
  assumes "timed t_in t_out now cs" and "(\<exists>f. armed s = Some f \<and> m \<le> f \<and> f \<le> now) \<or> m + gap \<le> now"
    and "a \<in> set (attempts call cs s)" and "gated a"
  shows "m + gap \<le> begins a"
  using assms
proof (induction cs arbitrary: s now)
  case (Cons c cs)
  obtain r s' where c: "call c s = (r, s')" by (cases "call c s")
  have t: "now \<le> t_in c" "t_in c \<le> t_out c" "timed t_in t_out (t_out c) cs"
    using Cons.prems(1) by auto
  have here: "m + gap \<le> begins a" if "r = Some a"
  proof -
    have "f + gap \<le> begins a" if "armed s = Some f" for f
      using gated_begins[of c s a s' f] c \<open>r = Some a\<close> Cons.prems(4) that by simp
    then show ?thesis
      using Cons.prems(2) begins_in[of c s a s'] c \<open>r = Some a\<close> t(1) by fastforce
  qed
  have later: "(\<exists>f. armed s' = Some f \<and> m \<le> f \<and> f \<le> t_out c) \<or> m + gap \<le> t_out c"
  proof (cases "m + gap \<le> now")
    case True
    with t show ?thesis by simp
  next
    case False
    then obtain f where f: "armed s = Some f" "m \<le> f" "f \<le> now"
      using Cons.prems(2) by blast
    from stays_armed[OF c f(1) t(2)] f(3) t(1)
    have "(\<exists>f'. armed s' = Some f' \<and> f \<le> f') \<or> f + gap \<le> t_out c" by simp
    then show ?thesis
      using armed_past[OF c t(2)] f t by fastforce
  qed
  have "r = Some a \<or> a \<in> set (attempts call cs s')"
    using Cons.prems(3) c by (auto split: option.splits)
  then show ?case
    using here Cons.IH[OF t(3) later _ Cons.prems(4)] by blast
qed simp

lemma attempts_spaced:
  assumes "timed t_in t_out now cs" and "\<forall>f. armed s = Some f \<longrightarrow> f \<le> now"
  shows "sorted_wrt spaced (attempts call cs s)"
  using assms
proof (induction cs arbitrary: s now)
  case (Cons c cs)
  obtain r s' where c: "call c s = (r, s')" by (cases "call c s")
  have t: "now \<le> t_in c" "t_in c \<le> t_out c" "timed t_in t_out (t_out c) cs"
    using Cons.prems(1) by auto
  have past: "\<forall>f. armed s' = Some f \<longrightarrow> f \<le> t_out c"
    using armed_past[OF c t(2)] Cons.prems(2) t(1,2) by fastforce
  have rest: "sorted_wrt spaced (attempts call cs s')"
    by (rule Cons.IH[OF t(3) past])
  show ?case
  proof (cases r)
    case None
    with c rest show ?thesis by simp
  next
    case (Some a)
    have "spaced a b" if b: "b \<in> set (attempts call cs s')" for b
    proof (unfold spaced_def, intro impI)
      assume "arms a" and g: "gated b"
      then obtain f where "armed s' = Some f" "mark a \<le> f"
        using arms_mark[of c s a s'] c Some t(2) by auto
      with past protected[OF t(3) _ b g, of "mark a"] show "mark a + gap \<le> begins b" by blast
    qed
    with c Some rest show ?thesis by simp
  qed
qed simp

end

end
