(* ===== verification/Provider.thy ===== *)
theory Provider
  imports Gate
begin

text \<open>
  \<open>src/src/login/provider.rs\<close>: the identity provider's client, discovered on first use and
  rediscovered when a key rotation is suspected. Discovery itself and building a client from its
  metadata are \<open>openidconnect\<close>'s: the outcome of the fetch and \<open>build\<close> are arguments. The attempts
  mutex is held across the fetch, so discoveries are serialised; each is a call that takes the lock at
  one instant and is done at a later one.
\<close>

definition cooldown :: duration where
  "cooldown = from_secs 30"

record 'c provider =
  prov_issuer :: string
  client_id :: string
  redirect_uri :: string
  scopes :: "string list"
  client :: "'c option"
  failure :: "instant option"
  refreshed :: "instant option"

definition provider_new :: "string \<Rightarrow> string \<Rightarrow> string \<Rightarrow> string list \<Rightarrow> 'c provider" where
  "provider_new iss cid uri scs =
     \<lparr>prov_issuer = iss, client_id = cid, redirect_uri = uri, scopes = scs, client = None, failure = None, refreshed = None\<rparr>"

definition recent :: "instant \<Rightarrow> instant option \<Rightarrow> bool" where
  "recent now t = (case t of Some t \<Rightarrow> elapsed now t < cooldown | None \<Rightarrow> False)"

text \<open>
  One discovery: is it a refresh, when it holds the lock, when the fetch is done, and what the
  provider answers if asked. The result says whether it was asked.
\<close>

record 'm discovery =
  is_refresh :: bool
  locked_at :: instant
  done_at :: instant
  answer :: "'m option"

datatype outcome = Answered | Unanswered | Abandoned

record attempt =
  att_refresh :: bool
  att_begin :: instant
  att_end :: instant
  att_outcome :: outcome

definition attempt_of :: "'m discovery \<Rightarrow> attempt" where
  "attempt_of d = \<lparr>att_refresh = is_refresh d, att_begin = locked_at d, att_end = done_at d, 
     att_outcome = (if answer d = None then Unanswered else Answered)\<rparr>"

definition discover :: "('m \<Rightarrow> string \<Rightarrow> string \<Rightarrow> 'c) \<Rightarrow> 'm discovery \<Rightarrow> 'c provider \<Rightarrow> attempt option \<times> 'c provider" where
  "discover build d p =
     (if \<not> is_refresh d \<and> client p \<noteq> None then (None, p)
      else if recent (locked_at d) (failure p) \<or> (is_refresh d \<and> recent (locked_at d) (refreshed p)) then (None, p)
      else
        let p1 = (if is_refresh d then p\<lparr>refreshed := Some (locked_at d)\<rparr> else p)
        in (Some (attempt_of d),
            case answer d of
              Some md \<Rightarrow> p1\<lparr>client := Some (build md (client_id p) (redirect_uri p)), failure := None\<rparr>
            | None \<Rightarrow> p1\<lparr>failure := Some (done_at d)\<rparr>))"

text \<open>
  A discovery dropped with its request while the fetch is running: the lock is released, and of the two
  marks only that of a refresh, set before the fetch, is armed.
\<close>

definition dropped_attempt :: "'m discovery \<Rightarrow> attempt" where
  "dropped_attempt d = (attempt_of d)\<lparr>att_outcome := Abandoned\<rparr>"

definition discover_dropped :: "'m discovery \<Rightarrow> 'c provider \<Rightarrow> attempt option \<times> 'c provider" where
  "discover_dropped d p =
     (if \<not> is_refresh d \<and> client p \<noteq> None then (None, p)
      else if recent (locked_at d) (failure p) \<or> (is_refresh d \<and> recent (locked_at d) (refreshed p)) then (None, p)
      else (Some (dropped_attempt d), if is_refresh d then p\<lparr>refreshed := Some (locked_at d)\<rparr> else p))"

definition discover_or_drop :: "('m \<Rightarrow> string \<Rightarrow> string \<Rightarrow> 'c) \<Rightarrow> bool \<times> 'm discovery \<Rightarrow> 'c provider \<Rightarrow> attempt option \<times> 'c provider" where
  "discover_or_drop build x p = (if fst x then discover_dropped (snd x) p else discover build (snd x) p)"

definition provider_client :: "('m \<Rightarrow> string \<Rightarrow> string \<Rightarrow> 'c) \<Rightarrow> 'm discovery \<Rightarrow> 'c provider \<Rightarrow> 'c option \<times> 'c provider" where
  "provider_client build d p =
     (case client p of
        Some c \<Rightarrow> (Some c, p)
      | None \<Rightarrow> (let p' = snd (discover build (d\<lparr>is_refresh := False\<rparr>) p) in (client p', p')))"

definition rediscover :: "('m \<Rightarrow> string \<Rightarrow> string \<Rightarrow> 'c) \<Rightarrow> 'm discovery \<Rightarrow> 'c provider \<Rightarrow> 'c provider" where
  "rediscover build d p = snd (discover build (d\<lparr>is_refresh := True\<rparr>) p)"

section \<open>Both cooldowns are gates\<close>

lemma not_recent: "\<not> recent now (Some f) \<Longrightarrow> f + cooldown \<le> now"
  by (simp add: recent_def elapsed_def cooldown_def from_secs_def nanos_per_sec_def)

lemmas discover_cases = discover_def Let_def attempt_of_def

lemmas discover_or_drop_cases = discover_or_drop_def discover_dropped_def dropped_attempt_def discover_cases

lemma not_recent_later: "\<not> recent now (Some f) \<Longrightarrow> now \<le> t \<Longrightarrow> f + cooldown \<le> t"
  using not_recent le_trans by blast

interpretation failures: cooldown_gate "discover_or_drop build" "\<lambda>x. locked_at (snd x)" "\<lambda>x. done_at (snd x)" failure cooldown
    att_begin "\<lambda>a. att_outcome a = Unanswered" att_end "\<lambda>_. True"
  by unfold_locales
    (auto simp: discover_or_drop_cases not_recent not_recent_later split: if_splits option.splits)

interpretation refreshes: cooldown_gate "discover_or_drop build" "\<lambda>x. locked_at (snd x)" "\<lambda>x. done_at (snd x)" refreshed cooldown
    att_begin att_refresh att_begin att_refresh
  by unfold_locales
    (auto simp: discover_or_drop_cases not_recent split: if_splits option.splits)

text \<open>A discovered client is never lost.\<close>

lemma discover_keeps_client: "client p \<noteq> None \<Longrightarrow> client (snd (discover build d p)) \<noteq> None"
  by (auto simp: discover_cases split: option.splits)

lemma discover_dropped_keeps_client: "client (snd (discover_dropped d p)) = client p"
  by (simp add: discover_dropped_def)

text \<open>
  A refresh is spaced even when it is dropped. A first discovery is not: however often requests that ask for
  the client are dropped, the next one asks the provider again at once.
\<close>

lemma dropped_discovery_arms_nothing:
  assumes "client p = None" and "\<not> is_refresh d" and "\<not> recent (locked_at d) (failure p)"
  shows "discover_dropped d p = (Some (dropped_attempt d), p)"
    and "\<not> is_refresh d' \<Longrightarrow> locked_at d \<le> locked_at d' \<Longrightarrow> fst (discover build d' (snd (discover_dropped d p))) = Some (attempt_of d')"
proof -
  show d: "discover_dropped d p = (Some (dropped_attempt d), p)"
    using assms by (simp add: discover_dropped_def)
  show "fst (discover build d' (snd (discover_dropped d p))) = Some (attempt_of d')" if "\<not> is_refresh d'" "locked_at d \<le> locked_at d'"
    using assms that by (auto simp: d discover_def recent_def elapsed_def Let_def split: option.splits)
qed

text \<open>Once the provider has answered, it is asked again only to refresh.\<close>

lemma then_only_refreshes:
  "client p \<noteq> None \<Longrightarrow> a \<in> set (attempts (discover_or_drop build) calls p) \<Longrightarrow> att_refresh a"
proof (induction calls arbitrary: p)
  case (Cons x calls)
  obtain r p' where x: "discover_or_drop build x p = (r, p')" by fastforce
  have "client p' \<noteq> None" "r = Some a \<Longrightarrow> att_refresh a"
    using x Cons.prems(1) by (auto simp: discover_or_drop_cases split: if_splits option.splits)
  with Cons.IH[of p'] Cons.prems(2) x show ?case
    by (auto split: option.splits)
qed simp

lemma answered_once:
  "sorted_wrt (\<lambda>a b. att_outcome a = Answered \<longrightarrow> att_refresh b) (attempts (discover_or_drop build) calls p)"
proof (induction calls arbitrary: p)
  case (Cons x calls)
  obtain r p' where x: "discover_or_drop build x p = (r, p')" by fastforce
  have "att_refresh b" if "r = Some a" "att_outcome a = Answered" "b \<in> set (attempts (discover_or_drop build) calls p')" for a b
  proof -
    have "client p' \<noteq> None"
      using x that(1,2) by (auto simp: discover_or_drop_cases split: if_splits option.splits)
    from then_only_refreshes[OF this that(3)] show ?thesis .
  qed
  then have "\<forall>a. r = Some a \<longrightarrow> (\<forall>b \<in> set (attempts (discover_or_drop build) calls p'). att_outcome a = Answered \<longrightarrow> att_refresh b)"
    by blast
  then show ?case
    using Cons.IH[of p'] by (cases r) (simp_all add: x)
qed simp

fun discover_all :: "('m \<Rightarrow> string \<Rightarrow> string \<Rightarrow> 'c) \<Rightarrow> 'm discovery list \<Rightarrow> 'c provider \<Rightarrow> 'c provider" where
  "discover_all build [] p = p"
| "discover_all build (d # ds) p = discover_all build ds (snd (discover build d p))"

section \<open>Properties\<close>

text \<open>C22
  While the provider is down it is asked at most once per cooldown, and a burst of failed verifications
  triggers one key refresh per cooldown: of any two attempts of a run, in which any fetch may be dropped with
  the request it serves, the later begins at least 30 seconds after the earlier ended if that one failed, and
  at least 30 seconds after the earlier began if both are refreshes. Once an attempt was answered, however
  many requests ask for the client, every later attempt is a refresh: the provider is discovered once.\<close>

theorem discovery_attempts_are_spaced:
  assumes "timed (\<lambda>x. locked_at (snd x)) (\<lambda>x. done_at (snd x)) now calls"
    and "\<forall>f. failure p = Some f \<longrightarrow> f \<le> now" and "\<forall>f. refreshed p = Some f \<longrightarrow> f \<le> now"
  shows "sorted_wrt (\<lambda>a b. (att_outcome a = Unanswered \<longrightarrow> att_end a + cooldown \<le> att_begin b)
      \<and> (att_refresh a \<and> att_refresh b \<longrightarrow> att_begin a + cooldown \<le> att_begin b)
      \<and> (att_outcome a = Answered \<longrightarrow> att_refresh b))
    (attempts (discover_or_drop build) calls p)"
proof -
  have "sorted_wrt (\<lambda>a b. att_outcome a = Unanswered \<longrightarrow> att_end a + cooldown \<le> att_begin b) (attempts (discover_or_drop build) calls p)"
    using failures.attempts_spaced[OF assms(1,2), of build] by (simp add: failures.spaced_def[abs_def])
  moreover have "sorted_wrt (\<lambda>a b. att_refresh a \<and> att_refresh b \<longrightarrow> att_begin a + cooldown \<le> att_begin b) (attempts (discover_or_drop build) calls p)"
    using refreshes.attempts_spaced[OF assms(1,3), of build] by (simp add: refreshes.spaced_def[abs_def] imp_conjL)
  ultimately show ?thesis
    using answered_once[of build calls p] by (simp add: sorted_wrt_iff_nth_less)
qed

definition a_discovery :: "bool \<Rightarrow> nat \<Rightarrow> nat option \<Rightarrow> nat discovery" where
  "a_discovery r t ans = \<lparr>is_refresh = r, locked_at = from_secs t, done_at = from_secs (Suc t), answer = ans\<rparr>"

definition an_outage :: "(bool \<times> nat discovery) list" where
  "an_outage = [(True, a_discovery False 90 None), (False, a_discovery False 100 None), (False, a_discovery True 110 (Some 1)),
     (True, a_discovery True 140 (Some 2)), (False, a_discovery True 150 (Some 3)),
     (False, a_discovery False 160 (Some 4)), (False, a_discovery False 170 (Some 5)), (False, a_discovery True 180 (Some 6))]"

lemmas discovery_run = discover_or_drop_cases an_outage_def a_discovery_def provider_new_def recent_def elapsed_def
  cooldown_def from_secs_def nanos_per_sec_def

theorem discovery_attempts_are_spaced_witness:
  "attempts (discover_or_drop (\<lambda>md _ _. md)) an_outage (provider_new ''iss'' ''cid'' ''uri'' []) =
     [dropped_attempt (a_discovery False 90 None), attempt_of (a_discovery False 100 None), dropped_attempt (a_discovery True 140 (Some 2)),
      attempt_of (a_discovery False 160 (Some 4)), attempt_of (a_discovery True 180 (Some 6))]
   \<and> sorted_wrt (\<lambda>a b. (att_outcome a = Unanswered \<longrightarrow> att_end a + cooldown \<le> att_begin b)
      \<and> (att_refresh a \<and> att_refresh b \<longrightarrow> att_begin a + cooldown \<le> att_begin b)
      \<and> (att_outcome a = Answered \<longrightarrow> att_refresh b))
     (attempts (discover_or_drop (\<lambda>md _ _. md)) an_outage (provider_new ''iss'' ''cid'' ''uri'' []))"
proof
  show "attempts (discover_or_drop (\<lambda>md _ _. md)) an_outage (provider_new ''iss'' ''cid'' ''uri'' []) =
     [dropped_attempt (a_discovery False 90 None), attempt_of (a_discovery False 100 None), dropped_attempt (a_discovery True 140 (Some 2)),
      attempt_of (a_discovery False 160 (Some 4)), attempt_of (a_discovery True 180 (Some 6))]"
    by (simp add: discovery_run)
  have "timed (\<lambda>x. locked_at (snd x)) (\<lambda>x. done_at (snd x)) 0 an_outage"
    by (simp add: discovery_run)
  from discovery_attempts_are_spaced[OF this, of "provider_new ''iss'' ''cid'' ''uri'' []" "\<lambda>md _ _. md"]
  show "sorted_wrt (\<lambda>a b. (att_outcome a = Unanswered \<longrightarrow> att_end a + cooldown \<le> att_begin b)
      \<and> (att_refresh a \<and> att_refresh b \<longrightarrow> att_begin a + cooldown \<le> att_begin b)
      \<and> (att_outcome a = Answered \<longrightarrow> att_refresh b))
     (attempts (discover_or_drop (\<lambda>md _ _. md)) an_outage (provider_new ''iss'' ''cid'' ''uri'' []))"
    by (simp add: provider_new_def)
qed

text \<open>
  Asking for the client discovers it when there is none and no attempt failed within the last 30
  seconds; a client once discovered is returned without a fetch, and no later discovery or refresh,
  failed or not, loses it.\<close>

theorem client_is_discovered_and_kept:
  assumes "client p = None" and "\<forall>f. failure p = Some f \<longrightarrow> f + cooldown \<le> locked_at d"
    and "answer d = Some md"
  shows "fst (provider_client build d p) = Some (build md (client_id p) (redirect_uri p))
    \<and> client (discover_all build ds (snd (provider_client build d p))) \<noteq> None
    \<and> (\<forall>d' q. client q \<noteq> None \<longrightarrow> provider_client build d' q = (client q, q))"
proof -
  have "\<not> recent (locked_at d) (failure p)"
    using assms(2) by (cases "failure p") (auto simp: recent_def elapsed_def)
  then have c: "fst (provider_client build d p) = Some (build md (client_id p) (redirect_uri p))"
      "client (snd (provider_client build d p)) \<noteq> None"
    using assms(1,3) by (simp_all add: provider_client_def discover_cases)
  have "client q \<noteq> None \<Longrightarrow> client (discover_all build ds q) \<noteq> None" for q
  proof (induction ds arbitrary: q)
    case (Cons d ds)
    show ?case unfolding discover_all.simps by (intro Cons.IH discover_keeps_client Cons.prems)
  qed simp
  with c show ?thesis
    by (auto simp: provider_client_def)
qed

theorem client_is_discovered_and_kept_witness:
  "fst (provider_client (\<lambda>md cid uri. (md, cid, uri)) (a_discovery False 7 (Some 1))
      (provider_new ''iss'' ''cid'' ''uri'' [])) = Some (1, ''cid'', ''uri'')"
  using client_is_discovered_and_kept[of "provider_new ''iss'' ''cid'' ''uri'' []" "a_discovery False 7 (Some 1)" 1
      "\<lambda>md cid uri. (md, cid, uri)"]
  by (simp add: provider_new_def a_discovery_def)

end
