(* ===== verification/LoginCore.thy ===== *)
theory LoginCore
  imports Cookie Flow Session Provider
begin

text \<open>
  \<open>src/src/login/mod.rs\<close>: the sign-in's configuration and its checks, the \<open>Login\<close> that ties provider,
  flow sealer and sessions together, and the rule by which a session cookie counts as a credential.
  URL parsing and the building of the HTTP client are libraries': arguments.
\<close>

section \<open>Configuration\<close>

definition default_session_ttl :: duration where
  "default_session_ttl = from_secs (8 * 3600)"

definition min_session_ttl :: duration where
  "min_session_ttl = from_secs 300"

definition max_session_ttl :: duration where
  "max_session_ttl = from_secs (7 * 24 * 3600)"

record login_config =
  cfg_issuer :: string
  cfg_client_id :: string
  public_url :: string
  cfg_scopes :: "string list"
  session_ttl :: duration
  cfg_dev_no_auth :: bool

definition login_config_new :: "string \<Rightarrow> string \<Rightarrow> string \<Rightarrow> login_config" where
  "login_config_new iss cid url =
     \<lparr>cfg_issuer = iss, cfg_client_id = cid, public_url = url, cfg_scopes = [''openid'', ''email'', ''profile''],
      session_ttl = default_session_ttl, cfg_dev_no_auth = False\<rparr>"

text \<open>An environment is a lookup; \<open>None\<close> is a lifetime that is not whole seconds.\<close>

definition env_var :: "(string \<Rightarrow> string option) \<Rightarrow> string \<Rightarrow> string option" where
  "env_var env k = (case env k of Some v \<Rightarrow> if trim v = [] then None else Some v | None \<Rightarrow> None)"

definition unwrap_or_default :: "string option \<Rightarrow> string" where
  "unwrap_or_default x = (case x of Some v \<Rightarrow> v | None \<Rightarrow> [])"

definition login_config_from_env :: "(string \<Rightarrow> string option) \<Rightarrow> bool \<Rightarrow> login_config option" where
  "login_config_from_env env dev =
     (let c = login_config_new (unwrap_or_default (env_var env ''DEX_ISSUER_URL''))
                (unwrap_or_default (env_var env ''OIDC_CLIENT_ID''))
                (unwrap_or_default (env_var env ''PUBLIC_URL''))
      in case env_var env ''LOGIN_SESSION_TTL_SECS'' of
           Some t \<Rightarrow> (case parse_unsigned 64 t of
                        Some n \<Rightarrow> Some (c\<lparr>session_ttl := from_secs n, cfg_dev_no_auth := dev\<rparr>)
                      | None \<Rightarrow> None)
         | None \<Rightarrow> Some (c\<lparr>cfg_dev_no_auth := dev\<rparr>))"

section \<open>The sign-in of one service\<close>

record url =
  url_scheme :: string
  url_host_str :: "string option"
  url_path :: string
  url_query :: "string option"
  url_fragment :: "string option"
  url_username :: string
  url_password :: "string option"
  url_origin :: string

record url_lib =
  url_parse :: "string \<Rightarrow> url option"
  issuer_url :: "string \<Rightarrow> string option"
  redirect_url :: "string \<Rightarrow> string option"

datatype login_error =
  Url_invalid | Not_https | Not_an_origin | Ttl_out_of_bounds | Issuer_invalid | Client_id_empty
  | Callback_invalid | Client_not_built | No_entropy

record 'c login =
  lo_origin :: string
  lo_names :: names
  lo_provider :: "'c provider option"
  lo_flows :: flow_sealer
  lo_sessions :: session_store

definition is_loopback :: "url \<Rightarrow> bool" where
  "is_loopback u \<longleftrightarrow> url_host_str u \<in> {Some ''localhost'', Some ''127.0.0.1'', Some ''[::1]''}"

definition login_provider :: "url_lib \<Rightarrow> bool \<Rightarrow> login_config \<Rightarrow> string \<Rightarrow> login_error + 'c provider option" where
  "login_provider U http_ok c orig =
     (if cfg_dev_no_auth c then Inr None
      else (case issuer_url U (cfg_issuer c) of None \<Rightarrow> Inl Issuer_invalid | Some iss \<Rightarrow>
        if cfg_client_id c = [] then Inl Client_id_empty
        else (case redirect_url U (orig @ ''/auth/callback'') of None \<Rightarrow> Inl Callback_invalid | Some cb \<Rightarrow>
          if http_ok then Inr (Some (provider_new iss (cfg_client_id c) cb (cfg_scopes c)))
          else Inl Client_not_built)))"

definition login_new :: "url_lib \<Rightarrow> bool \<Rightarrow> string option \<Rightarrow> instant \<Rightarrow> login_config \<Rightarrow> login_error + 'c login" where
  "login_new U http_ok rng now c =
     (case url_parse U (public_url c) of None \<Rightarrow> Inl Url_invalid | Some u \<Rightarrow>
        if url_scheme u \<noteq> ''https'' \<and> \<not> (url_scheme u = ''http'' \<and> (is_loopback u \<or> cfg_dev_no_auth c)) then Inl Not_https
        else if url_path u \<noteq> ''/'' \<or> url_query u \<noteq> None \<or> url_fragment u \<noteq> None \<or> url_username u \<noteq> [] then Inl Not_an_origin
        else if \<not> (min_session_ttl \<le> session_ttl c \<and> session_ttl c \<le> max_session_ttl) then Inl Ttl_out_of_bounds
        else (case login_provider U http_ok c (url_origin u) of Inl e \<Rightarrow> Inl e | Inr p \<Rightarrow>
          (case flow_sealer_new rng of None \<Rightarrow> Inl No_entropy | Some fl \<Rightarrow>
            Inr \<lparr>lo_origin = url_origin u, lo_names = names_new (url_scheme u = ''https''), lo_provider = p,
                 lo_flows = fl, lo_sessions = session_store_new (session_ttl c) now\<rparr>)))"

definition login_issuer :: "'c login \<Rightarrow> string option" where
  "login_issuer l = map_option prov_issuer (lo_provider l)"

definition login_is_disabled :: "'c login \<Rightarrow> bool" where
  "login_is_disabled l \<longleftrightarrow> lo_provider l = None"

definition sessions_held :: "'c login \<Rightarrow> nat" where
  "sessions_held l = session_count (lo_sessions l)"

section \<open>When a cookie counts\<close>

datatype http_method = GET | HEAD | OPTIONS | POST | Method string

record parts =
  p_method :: http_method
  p_headers :: headers

datatype auth_route = Auth_login | Auth_callback | Auth_logout | Auth_me

text \<open>The four routes; \<open>get\<close> routes of axum also answer \<open>HEAD\<close>.\<close>

definition login_router :: "(string \<times> http_method \<times> auth_route) list" where
  "login_router = [(''/auth/login'', GET, Auth_login), (''/auth/callback'', GET, Auth_callback),
     (''/auth/logout'', POST, Auth_logout), (''/auth/me'', GET, Auth_me)]"

definition same_origin :: "headers \<Rightarrow> string \<Rightarrow> bool" where
  "same_origin h orig =
     (case header_get h ''origin'' of
        Some v \<Rightarrow> v = orig
      | None \<Rightarrow> header_get h ''sec-fetch-site'' = Some ''same-origin'')"

definition embedded_by_another_site :: "headers \<Rightarrow> bool" where
  "embedded_by_another_site h =
     (let top_level = (header_get h ''sec-fetch-mode'' = Some ''navigate''
                       \<and> (case header_get h ''sec-fetch-dest'' of None \<Rightarrow> True | Some d \<Rightarrow> d = ''document''))
      in header_get h ''sec-fetch-site'' \<in> {Some ''same-site'', Some ''cross-site''} \<and> \<not> top_level)"

definition is_safe_method :: "http_method \<Rightarrow> bool" where
  "is_safe_method m \<longleftrightarrow> m \<in> {GET, HEAD, OPTIONS}"

definition claims_of_session :: "session \<Rightarrow> claims" where
  "claims_of_session x =
     \<lparr>cl_sub = id_sub (identity x), cl_email = id_email (identity x), cl_exp = expires_at x, cl_auth_time = auth_time x\<rparr>"

definition authenticate :: "http_lib \<Rightarrow> instant \<Rightarrow> parts \<Rightarrow> 'c login \<Rightarrow> (status_code + claims) option \<times> 'c login" where
  "authenticate H now r l =
     (case cookie_read H (p_headers r) (session_name (lo_names l)) of None \<Rightarrow> (None, l) | Some i \<Rightarrow>
      (case session_get i now (lo_sessions l) of
         (None, ss) \<Rightarrow> (None, l\<lparr>lo_sessions := ss\<rparr>)
       | (Some x, ss) \<Rightarrow>
           (let l' = l\<lparr>lo_sessions := ss\<rparr>; safe = is_safe_method (p_method r) in
            if \<not> safe \<and> \<not> same_origin (p_headers r) (lo_origin l) then (Some (Inl FORBIDDEN), l')
            else if safe \<and> embedded_by_another_site (p_headers r) then (Some (Inl FORBIDDEN), l')
            else (Some (Inr (claims_of_session x)), l'))))"

text \<open>The session a request's cookie names, if it is live.\<close>

definition session_behind :: "http_lib \<Rightarrow> instant \<Rightarrow> headers \<Rightarrow> 'c login \<Rightarrow> session option" where
  "session_behind H now h l =
     Option.bind (cookie_read H h (session_name (lo_names l)))
       (\<lambda>i. case hm_get (session_map (lo_sessions l)) i of
              Some x \<Rightarrow> if live (ttl (lo_sessions l)) now x then Some x else None | None \<Rightarrow> None)"

text \<open>
  The evidence a cookie-authenticated request needs beside the cookie, stated on the headers: a
  request that changes state names this origin, and a read is no embedded one.
\<close>

definition own_page :: "string \<Rightarrow> headers \<Rightarrow> bool" where
  "own_page orig h \<longleftrightarrow> header_get h ''origin'' = Some orig
     \<or> (header_get h ''origin'' = None \<and> header_get h ''sec-fetch-site'' = Some ''same-origin'')"

definition foreign_embed :: "headers \<Rightarrow> bool" where
  "foreign_embed h \<longleftrightarrow>
     (header_get h ''sec-fetch-site'' = Some ''same-site'' \<or> header_get h ''sec-fetch-site'' = Some ''cross-site'')
     \<and> (header_get h ''sec-fetch-mode'' = Some ''navigate'' \<longrightarrow>
          header_get h ''sec-fetch-dest'' \<noteq> None \<and> header_get h ''sec-fetch-dest'' \<noteq> Some ''document'')"

definition cookie_counts :: "parts \<Rightarrow> string \<Rightarrow> bool" where
  "cookie_counts r orig \<longleftrightarrow> (case p_method r of
     GET \<Rightarrow> \<not> foreign_embed (p_headers r) | HEAD \<Rightarrow> \<not> foreign_embed (p_headers r)
   | OPTIONS \<Rightarrow> \<not> foreign_embed (p_headers r) | _ \<Rightarrow> own_page orig (p_headers r))"

lemma same_origin_own_page: "same_origin h orig = own_page orig h"
  by (auto simp: same_origin_def own_page_def split: option.splits)

lemma embedded_foreign: "embedded_by_another_site h = foreign_embed h"
  by (auto simp: embedded_by_another_site_def foreign_embed_def Let_def split: option.splits)

lemma authenticate_result:
  "fst (authenticate H now r l) = (case session_behind H now (p_headers r) l of None \<Rightarrow> None
     | Some x \<Rightarrow> Some (if cookie_counts r (lo_origin l) then Inr (claims_of_session x) else Inl FORBIDDEN))"
  by (auto simp: authenticate_def session_behind_def session_get_def cookie_counts_def is_safe_method_def Let_def
      same_origin_own_page embedded_foreign split: option.splits http_method.splits)

section \<open>Properties\<close>

text \<open>C8
  A session cookie alone is never enough. Whenever the cookie path lets a request in, the identity is
  that of a live session the cookie names, and the request either changes state and comes from this
  origin (its \<open>Origin\<close>, or failing that its Fetch Metadata, says so) or is a read no other site's page
  embedded; with a live session and no such evidence the answer is 403, and without a live session
  the path says nothing at all.\<close>

theorem cookie_alone_is_never_enough:
  "(fst (authenticate H now r l) = Some (Inr c) \<longleftrightarrow>
      (\<exists>i x. cookie_read H (p_headers r) (session_name (lo_names l)) = Some i
        \<and> hm_get (session_map (lo_sessions l)) i = Some x \<and> elapsed now (created x) < ttl (lo_sessions l)
        \<and> cl_sub c = id_sub (identity x) \<and> c = claims_of_session x
        \<and> (if p_method r \<in> {GET, HEAD, OPTIONS} then \<not> foreign_embed (p_headers r) else own_page (lo_origin l) (p_headers r))))
   \<and> (\<forall>s. fst (authenticate H now r l) = Some (Inl s) \<longrightarrow> s = FORBIDDEN)
   \<and> (fst (authenticate H now r l) = None \<longleftrightarrow> session_behind H now (p_headers r) l = None)"
  by (auto simp: authenticate_result session_behind_def cookie_counts_def live_def claims_of_session_def
      split: option.splits http_method.splits if_splits bind_split)


definition sample_session :: session where
  "sample_session = \<lparr>identity = \<lparr>id_sub = ''ada'', id_email = None, id_name = None\<rparr>, auth_time = Some 7,
     expires_at = 1000, created = 5, created_wall = 0\<rparr>"

definition sample_login :: "unit login" where
  "sample_login = \<lparr>lo_origin = ''https://x'', lo_names = names_new True, lo_provider = Some (provider_new ''iss'' ''cid'' ''cb'' []),
     lo_flows = \<lparr>cipher_key = ''k''\<rparr>,
     lo_sessions = \<lparr>session_map = [(''s'', sample_session)], last_sweep = 0, ttl = 300\<rparr>\<rparr>"

definition sample_request :: "http_method \<Rightarrow> headers \<Rightarrow> parts" where
  "sample_request m h = \<lparr>p_method = m, p_headers = (''cookie'', cookie_header [(''__Host-session'', ''s'')]) # h\<rparr>"

lemma sample_cookie:
  assumes "header_get_all h ''cookie'' = []"
  shows "cookie_read plain_http (p_headers (sample_request m h)) (session_name (lo_names sample_login)) = Some ''s''"
proof -
  have "header_get_all (p_headers (sample_request m h)) ''cookie'' = map cookie_header [[(''__Host-session'', ''s'')]]"
    using assms by (simp add: sample_request_def header_get_all_def)
  from cookie_jar(2)[OF this, of plain_http] show ?thesis
    by (simp add: sample_login_def names_new_def cookie_name_safe_def cookie_value_safe_def no_blank_def byte_def is_whitespace_def)
qed

theorem cookie_alone_is_never_enough_witness:
  "(\<exists>c. fst (authenticate plain_http 9 (sample_request POST [(''origin'', ''https://x'')]) sample_login) = Some (Inr c) \<and> cl_sub c = ''ada'')
   \<and> \<not> (\<exists>c. fst (authenticate plain_http 9 (sample_request POST [(''origin'', ''https://evil'')]) sample_login) = Some (Inr c))"
proof -
  have g: "hm_get (session_map (lo_sessions sample_login)) ''s'' = Some sample_session"
    by (simp add: sample_login_def hm_get_def)
  have "fst (authenticate plain_http 9 (sample_request POST [(''origin'', ''https://x'')]) sample_login)
      = Some (Inr (claims_of_session sample_session))"
    using cookie_alone_is_never_enough[of plain_http 9 "sample_request POST [(''origin'', ''https://x'')]" sample_login
        "claims_of_session sample_session"] sample_cookie[of "[(''origin'', ''https://x'')]" POST] g
    by (simp add: header_get_all_def sample_session_def elapsed_def claims_of_session_def sample_request_def
        own_page_def header_get_def) (simp add: sample_login_def)
  moreover have "\<not> (\<exists>c. fst (authenticate plain_http 9 (sample_request POST [(''origin'', ''https://evil'')]) sample_login) = Some (Inr c))"
    using cookie_alone_is_never_enough[of plain_http 9 "sample_request POST [(''origin'', ''https://evil'')]" sample_login]
    by (simp add: sample_request_def own_page_def header_get_def) (simp add: sample_login_def)
  ultimately show ?thesis by (simp add: claims_of_session_def sample_session_def)
qed

lemma accepted_is_sound:
  assumes "login_new U http_ok rng now c = Inr l"
  shows "\<exists>u. url_parse U (public_url c) = Some u
    \<and> (url_scheme u = ''https'' \<or> url_scheme u = ''http'' \<and> (is_loopback u \<or> cfg_dev_no_auth c))
    \<and> url_path u = ''/'' \<and> url_query u = None \<and> url_fragment u = None \<and> url_username u = []
    \<and> lo_origin l = url_origin u \<and> (secure (lo_names l) \<longleftrightarrow> url_scheme u = ''https'')
    \<and> from_secs 300 \<le> ttl (lo_sessions l) \<and> ttl (lo_sessions l) \<le> from_secs 604800 \<and> ttl (lo_sessions l) = session_ttl c
    \<and> sessions_held l = 0 \<and> (login_is_disabled l \<longleftrightarrow> cfg_dev_no_auth c)
    \<and> (\<forall>p. lo_provider l = Some p \<longrightarrow> client_id p = cfg_client_id c \<and> cfg_client_id c \<noteq> [] \<and> client p = None
         \<and> redirect_url U (lo_origin l @ ''/auth/callback'') = Some (redirect_uri p))"
proof -
  obtain u where u: "url_parse U (public_url c) = Some u"
      "url_scheme u = ''https'' \<or> url_scheme u = ''http'' \<and> (is_loopback u \<or> cfg_dev_no_auth c)"
      "url_path u = ''/''" "url_query u = None" "url_fragment u = None" "url_username u = []"
      "min_session_ttl \<le> session_ttl c" "session_ttl c \<le> max_session_ttl"
      and rest: "(case login_provider U http_ok c (url_origin u) of Inl e \<Rightarrow> Inl e | Inr p \<Rightarrow>
          (case flow_sealer_new rng of None \<Rightarrow> Inl No_entropy | Some fl \<Rightarrow>
            Inr \<lparr>lo_origin = url_origin u, lo_names = names_new (url_scheme u = ''https''), lo_provider = p,
                 lo_flows = fl, lo_sessions = session_store_new (session_ttl c) now\<rparr>)) = Inr l"
    using assms unfolding login_new_def by (simp split: option.splits if_splits)
  then obtain p fl where p: "login_provider U http_ok c (url_origin u) = Inr p"
      and l: "l = \<lparr>lo_origin = url_origin u, lo_names = names_new (url_scheme u = ''https''), lo_provider = p,
                 lo_flows = fl, lo_sessions = session_store_new (session_ttl c) now\<rparr>"
    by (auto split: sum.splits option.splits)
  have "(p = None \<longleftrightarrow> cfg_dev_no_auth c) \<and> (\<forall>q. p = Some q \<longrightarrow> client_id q = cfg_client_id c \<and> cfg_client_id c \<noteq> []
      \<and> client q = None \<and> redirect_url U (url_origin u @ ''/auth/callback'') = Some (redirect_uri q))"
    using p by (auto simp: login_provider_def provider_new_def split: option.splits if_splits)
  with u l show ?thesis
    by (intro exI[of _ u]) (simp add: min_session_ttl_def max_session_ttl_def names_new_def sessions_held_def
      session_count_def session_store_new_def hm.size_new login_is_disabled_def)
qed

text \<open>And nothing else is refused.\<close>

lemma accepted_iff:
  "(\<exists>l :: 'c login. login_new U http_ok rng now c = Inr l) \<longleftrightarrow>
     (\<exists>u. url_parse U (public_url c) = Some u
       \<and> (url_scheme u = ''https'' \<or> url_scheme u = ''http'' \<and> (is_loopback u \<or> cfg_dev_no_auth c))
       \<and> url_path u = ''/'' \<and> url_query u = None \<and> url_fragment u = None \<and> url_username u = []
       \<and> from_secs 300 \<le> session_ttl c \<and> session_ttl c \<le> from_secs 604800
       \<and> (cfg_dev_no_auth c \<or> issuer_url U (cfg_issuer c) \<noteq> None \<and> cfg_client_id c \<noteq> []
            \<and> redirect_url U (url_origin u @ ''/auth/callback'') \<noteq> None \<and> http_ok)
       \<and> rng \<noteq> None)"
proof (cases "url_parse U (public_url c)")
  case (Some u)
  have "(\<exists>p :: 'c provider option. login_provider U http_ok c (url_origin u) = Inr p) \<longleftrightarrow>
      cfg_dev_no_auth c \<or> issuer_url U (cfg_issuer c) \<noteq> None \<and> cfg_client_id c \<noteq> []
            \<and> redirect_url U (url_origin u @ ''/auth/callback'') \<noteq> None \<and> http_ok"
    by (auto simp: login_provider_def split: option.splits)
  moreover have "(\<exists>fl. flow_sealer_new rng = Some fl) \<longleftrightarrow> rng \<noteq> None"
    by (auto simp: flow_sealer_new_def)
  ultimately show ?thesis
    by (auto simp: login_new_def Some min_session_ttl_def max_session_ttl_def split: sum.splits option.splits)
qed (simp add: login_new_def)

text \<open>
  The credentials test looks at the user name only: a URL with a password and an empty user name passes,
  although the refusal speaks of credentials.\<close>

definition bare_password :: "url \<Rightarrow> bool" where
  "bare_password u \<longleftrightarrow> url_username u = [] \<and> url_password u \<noteq> None"

lemma bare_password_passes:
  fixes l :: "'c login"
  assumes "login_new U http_ok rng now c = Inr l" and "url_parse U (public_url c) = Some u"
  shows "\<exists>l' :: 'c login. login_new (U\<lparr>url_parse := \<lambda>_. Some (u\<lparr>url_password := Some pw\<rparr>)\<rparr>) http_ok rng now c = Inr l'
    \<and> bare_password (u\<lparr>url_password := Some pw\<rparr>)"
proof -
  let ?U = "U\<lparr>url_parse := \<lambda>_. Some (u\<lparr>url_password := Some pw\<rparr>)\<rparr>"
  have "(\<exists>l :: 'c login. login_new U http_ok rng now c = Inr l)" using assms(1) by blast
  then have "(\<exists>l :: 'c login. login_new ?U http_ok rng now c = Inr l)" and "url_username u = []"
    unfolding accepted_iff using assms(2) by (auto simp: is_loopback_def)
  then show ?thesis by (simp add: bare_password_def)
qed

text \<open>An origin and nothing more: no path, query, fragment or credentials.\<close>

definition origin_only :: "url \<Rightarrow> bool" where
  "origin_only u \<longleftrightarrow> url_path u = ''/'' \<and> url_query u = None \<and> url_fragment u = None \<and> url_username u = [] \<and> url_password u = None"

text \<open>C23
  For a public URL that does not hold a password without a user name, \<open>Login::new\<close> accepts exactly the sound
  configurations: the URL is an origin, with no path, query, fragment or credentials, HTTPS unless it is plain
  HTTP on loopback or in \<open>dev_no_auth\<close>; the lifetime is between 5 minutes and 7 days; the generator gives a key; and
  outside \<open>dev_no_auth\<close> there is a client id, a provider's URL and a callback that parses. In the sign-in it
  builds cookies are host-locked exactly over HTTPS, no session exists yet, sign-in is bypassed exactly in
  \<open>dev_no_auth\<close>, and otherwise the provider's callback is on this origin.\<close>

theorem accepted_configurations_are_sound:
  assumes "\<forall>u. url_parse U (public_url c) = Some u \<longrightarrow> \<not> bare_password u"
  shows "(\<forall>l :: 'c login. login_new U http_ok rng now c = Inr l \<longrightarrow>
     (\<exists>u. url_parse U (public_url c) = Some u
       \<and> (url_scheme u = ''https'' \<or> url_scheme u = ''http'' \<and> (is_loopback u \<or> cfg_dev_no_auth c))
       \<and> origin_only u
       \<and> lo_origin l = url_origin u \<and> (secure (lo_names l) \<longleftrightarrow> url_scheme u = ''https'')
       \<and> from_secs 300 \<le> ttl (lo_sessions l) \<and> ttl (lo_sessions l) \<le> from_secs 604800 \<and> ttl (lo_sessions l) = session_ttl c
       \<and> sessions_held l = 0 \<and> (login_is_disabled l \<longleftrightarrow> cfg_dev_no_auth c)
       \<and> (\<forall>p. lo_provider l = Some p \<longrightarrow> client_id p = cfg_client_id c \<and> cfg_client_id c \<noteq> [] \<and> client p = None
            \<and> redirect_url U (lo_origin l @ ''/auth/callback'') = Some (redirect_uri p))))
   \<and> ((\<exists>l :: 'c login. login_new U http_ok rng now c = Inr l) \<longleftrightarrow>
     (\<exists>u. url_parse U (public_url c) = Some u
       \<and> (url_scheme u = ''https'' \<or> url_scheme u = ''http'' \<and> (is_loopback u \<or> cfg_dev_no_auth c))
       \<and> origin_only u
       \<and> from_secs 300 \<le> session_ttl c \<and> session_ttl c \<le> from_secs 604800
       \<and> (cfg_dev_no_auth c \<or> issuer_url U (cfg_issuer c) \<noteq> None \<and> cfg_client_id c \<noteq> []
            \<and> redirect_url U (url_origin u @ ''/auth/callback'') \<noteq> None \<and> http_ok)
       \<and> rng \<noteq> None))"
proof -
  have pw: "url_parse U (public_url c) = Some u \<Longrightarrow> url_username u = [] \<Longrightarrow> url_password u = None" for u
    using assms by (auto simp: bare_password_def)
  show ?thesis
  proof (intro conjI allI impI)
    fix l :: "'c login"
    assume "login_new U http_ok rng now c = Inr l"
    from accepted_is_sound[OF this] show "\<exists>u. url_parse U (public_url c) = Some u
       \<and> (url_scheme u = ''https'' \<or> url_scheme u = ''http'' \<and> (is_loopback u \<or> cfg_dev_no_auth c))
       \<and> origin_only u
       \<and> lo_origin l = url_origin u \<and> (secure (lo_names l) \<longleftrightarrow> url_scheme u = ''https'')
       \<and> from_secs 300 \<le> ttl (lo_sessions l) \<and> ttl (lo_sessions l) \<le> from_secs 604800 \<and> ttl (lo_sessions l) = session_ttl c
       \<and> sessions_held l = 0 \<and> (login_is_disabled l \<longleftrightarrow> cfg_dev_no_auth c)
       \<and> (\<forall>p. lo_provider l = Some p \<longrightarrow> client_id p = cfg_client_id c \<and> cfg_client_id c \<noteq> [] \<and> client p = None
            \<and> redirect_url U (lo_origin l @ ''/auth/callback'') = Some (redirect_uri p))"
      using pw unfolding origin_only_def by blast
  next
    show "(\<exists>l :: 'c login. login_new U http_ok rng now c = Inr l) \<longleftrightarrow>
     (\<exists>u. url_parse U (public_url c) = Some u
       \<and> (url_scheme u = ''https'' \<or> url_scheme u = ''http'' \<and> (is_loopback u \<or> cfg_dev_no_auth c))
       \<and> origin_only u
       \<and> from_secs 300 \<le> session_ttl c \<and> session_ttl c \<le> from_secs 604800
       \<and> (cfg_dev_no_auth c \<or> issuer_url U (cfg_issuer c) \<noteq> None \<and> cfg_client_id c \<noteq> []
            \<and> redirect_url U (url_origin u @ ''/auth/callback'') \<noteq> None \<and> http_ok)
       \<and> rng \<noteq> None)"
      unfolding accepted_iff origin_only_def using pw by blast
  qed
qed

theorem accepted_configurations_are_sound_witness:
  "\<exists>c l. login_config_from_env (\<lambda>k. map_of [(''DEX_ISSUER_URL'', ''https://idp''), (''OIDC_CLIENT_ID'', ''cid''),
         (''PUBLIC_URL'', ''https://x''), (''LOGIN_SESSION_TTL_SECS'', ''600'')] k) False = Some c
     \<and> login_new \<lparr>url_parse = (\<lambda>s. Some \<lparr>url_scheme = ''https'', url_host_str = Some ''x'', url_path = ''/'', url_query = None,
           url_fragment = None, url_username = [], url_password = None, url_origin = s\<rparr>), issuer_url = Some, redirect_url = Some\<rparr>
         True (Some ''key'') 0 c = Inr (l :: unit login)
     \<and> ttl (lo_sessions l) = from_secs 600 \<and> \<not> login_is_disabled l"
proof -
  let ?env = "\<lambda>k. map_of [(''DEX_ISSUER_URL'', ''https://idp''), (''OIDC_CLIENT_ID'', ''cid''),
         (''PUBLIC_URL'', ''https://x''), (''LOGIN_SESSION_TTL_SECS'', ''600'')] k"
  let ?c = "(login_config_new ''https://idp'' ''cid'' ''https://x'')\<lparr>session_ttl := from_secs 600\<rparr>"
  let ?U = "\<lparr>url_parse = (\<lambda>s. Some \<lparr>url_scheme = ''https'', url_host_str = Some ''x'', url_path = ''/'', url_query = None,
           url_fragment = None, url_username = [], url_password = None, url_origin = s\<rparr>), issuer_url = Some, redirect_url = Some\<rparr>"
  have nb: "trim v = v" if "v \<in> {''https://idp'', ''cid'', ''https://x'', ''600''}" for v
    using that by (auto intro!: trim_no_blank simp: no_blank_def byte_def is_whitespace_def)
  have "parse_unsigned 64 ''600'' = Some 600"
    by (simp add: parse_unsigned_def is_digit_def digits_value_def byte_def)
  then have env: "login_config_from_env ?env False = Some ?c"
    by (simp add: login_config_from_env_def env_var_def nb unwrap_or_default_def login_config_new_def)
  obtain l :: "unit login" where l: "login_new ?U True (Some ''key'') 0 ?c = Inr l"
    by (simp add: login_new_def login_provider_def login_config_new_def min_session_ttl_def max_session_ttl_def
        from_secs_def flow_sealer_new_def)
  have "\<forall>u. url_parse ?U (public_url ?c) = Some u \<longrightarrow> \<not> bare_password u"
    by (simp add: bare_password_def)
  from accepted_configurations_are_sound[OF this, of True "Some ''key''" 0] l
  have "ttl (lo_sessions l) = from_secs 600" "\<not> login_is_disabled l"
    by (auto simp: login_config_new_def)
  with env l show ?thesis by blast
qed

end
