(* ===== verification/Handlers.thy ===== *)
theory Handlers
  imports LoginCore "HOL-Library.Option_ord"
begin

text \<open>
  \<open>src/src/login/handlers.rs\<close>: the four \<open>/auth/*\<close> handlers. A handler takes the request, the
  \<open>Login\<close> it runs on and what the world does meanwhile (the clock, the generator, the provider's
  answers), and gives the response with the \<open>Login\<close> it leaves. The OpenID Connect client, URL encoding
  and header conversion are libraries': arguments. A response holds the headers the handlers set.
\<close>

section \<open>Data\<close>

definition retry_ttl :: duration where
  "retry_ttl = from_secs 300"

definition max_flow_cookies :: nat where
  "max_flow_cookies = 5"

record login_query =
  q_return_to :: "string option"
  q_step_up :: "string option"

record callback_query =
  q_code :: "string option"
  q_state :: "string option"
  q_error :: "string option"

record me =
  authenticated :: bool
  me_sub :: "string option"
  me_email :: "string option"
  me_name :: "string option"

datatype body = Empty | Text string | Json_me me

record answer =
  ans_status :: status_code
  ans_headers :: headers
  ans_body :: body

definition into_response :: "status_code \<Rightarrow> body \<Rightarrow> answer" where
  "into_response st b = \<lparr>ans_status = st, ans_headers = [], ans_body = b\<rparr>"

definition header_insert :: "string \<Rightarrow> string \<Rightarrow> answer \<Rightarrow> answer" where
  "header_insert k v a = a\<lparr>ans_headers := filter (\<lambda>(k', _). k' \<noteq> k) (ans_headers a) @ [(k, v)]\<rparr>"

definition header_append :: "string \<Rightarrow> string \<Rightarrow> answer \<Rightarrow> answer" where
  "header_append k v a = a\<lparr>ans_headers := ans_headers a @ [(k, v)]\<rparr>"

section \<open>Building responses\<close>

definition no_store :: "answer \<Rightarrow> answer" where
  "no_store a = header_insert ''cache-control'' ''no-store'' a"

definition append_cookie :: "http_lib \<Rightarrow> string \<Rightarrow> answer \<Rightarrow> bool \<times> answer" where
  "append_cookie H c a = (case from_str H c of Some v \<Rightarrow> (True, header_append ''set-cookie'' v a) | None \<Rightarrow> (False, a))"

definition redirect :: "http_lib \<Rightarrow> string \<Rightarrow> answer" where
  "redirect H location =
     (let a = no_store (into_response SEE_OTHER Empty)
      in case from_str H location of Some v \<Rightarrow> header_insert ''location'' v a | None \<Rightarrow> a)"

definition text_answer :: "status_code \<Rightarrow> string \<Rightarrow> answer" where
  "text_answer st b = no_store (into_response st (Text b))"

definition done_answer :: "http_lib \<Rightarrow> names \<Rightarrow> string option \<Rightarrow> answer \<Rightarrow> answer" where
  "done_answer H n flow_cookie a =
     (case flow_cookie of Some name \<Rightarrow> snd (append_cookie H (names_clear n name) a) | None \<Rightarrow> a)"

text \<open>\<open>serialize\<close> is \<open>form_urlencoded\<close>: the query string of a list of pairs.\<close>

definition restart_or_refuse ::
  "http_lib \<Rightarrow> ((string \<times> string) list \<Rightarrow> string) \<Rightarrow> names \<Rightarrow> headers \<Rightarrow> string \<Rightarrow> flow option \<Rightarrow> answer" where
  "restart_or_refuse H serialize n h reason f =
     (if cookie_read H h (retry_name n) \<noteq> None
      then text_answer FORBIDDEN (''Sign-in could not be completed. Close this tab and open the app again. ['' @ reason @ '']'')
      else
        let again = (case f of
                Some f \<Rightarrow> (''returnTo'', return_to f) # (if step_up f then [(''stepUp'', ''1'')] else [])
              | None \<Rightarrow> []);
            query = serialize again;
            a = redirect H (if query = [] then ''/auth/login'' else ''/auth/login?'' @ query)
        in snd (append_cookie H (names_set n (retry_name n) ''1'' (as_secs retry_ttl)) a))"

section \<open>The OpenID Connect client\<close>

record auth_params =
  ap_state :: string
  ap_nonce :: string
  ap_scopes :: "string list"
  ap_prompt_login :: bool
  ap_max_age :: "duration option"
  ap_challenge :: string

record token_request =
  tr_code :: string
  tr_verifier :: string

text \<open>The verified claims: the display name is looked up by locale, \<open>auth_time\<close> a signed timestamp.\<close>

record id_claims =
  ic_subject :: string
  ic_email :: "string option"
  ic_name :: "(string option \<Rightarrow> string option) option"
  ic_auth_time :: "int option"

record ('c, 'm, 'r, 'tok, 'idt) oidc_lib =
  build :: "'m \<Rightarrow> string \<Rightarrow> string \<Rightarrow> 'c"
  new_pkce :: "'r \<Rightarrow> string \<times> string"
  new_csrf :: "'r \<Rightarrow> string"
  new_nonce :: "'r \<Rightarrow> string"
  authorize_url :: "'c \<Rightarrow> auth_params \<Rightarrow> string"
  has_token_endpoint :: "'c \<Rightarrow> bool"
  request_token :: "'c \<Rightarrow> token_request \<Rightarrow> 'tok option"
  id_token :: "'tok \<Rightarrow> 'idt option"
  verify_claims :: "'c \<Rightarrow> 'idt \<Rightarrow> string \<Rightarrow> id_claims option"
  form_serialize :: "(string \<times> string) list \<Rightarrow> string"

definition identity_from_claims :: "id_claims \<Rightarrow> identity \<times> u64 option" where
  "identity_from_claims c =
     (\<lparr>id_sub = ic_subject c, id_email = ic_email c, id_name = Option.bind (ic_name c) (\<lambda>n. n None)\<rparr>,
      Option.bind (ic_auth_time c) (\<lambda>t. if 0 \<le> t then Some (word_of_int t) else None))"

definition ask_client :: "('c, 'm, 'r, 'tok, 'idt) oidc_lib \<Rightarrow> 'm discovery \<Rightarrow> 'c login \<Rightarrow> 'c option \<times> 'c login" where
  "ask_client P d l =
     (case lo_provider l of None \<Rightarrow> (None, l)
      | Some p \<Rightarrow> (let (c, p') = provider_client (build P) d p in (c, l\<lparr>lo_provider := Some p'\<rparr>)))"

definition ask_rediscover :: "('c, 'm, 'r, 'tok, 'idt) oidc_lib \<Rightarrow> 'm discovery \<Rightarrow> 'c login \<Rightarrow> 'c login" where
  "ask_rediscover P d l = l\<lparr>lo_provider := map_option (rediscover (build P) d) (lo_provider l)\<rparr>"

definition verify_id_token ::
  "('c, 'm, 'r, 'tok, 'idt) oidc_lib \<Rightarrow> 'm discovery \<Rightarrow> 'm discovery \<Rightarrow> 'c \<Rightarrow> 'idt \<Rightarrow> string \<Rightarrow> 'c login
     \<Rightarrow> (identity \<times> u64 option) option \<times> 'c login" where
  "verify_id_token P refresh again c tok n l =
     (case verify_claims P c tok n of
        Some claims \<Rightarrow> (Some (identity_from_claims claims), l)
      | None \<Rightarrow>
          (let l1 = ask_rediscover P refresh l in
           case ask_client P again l1 of
             (None, l2) \<Rightarrow> (None, l2)
           | (Some c2, l2) \<Rightarrow> (map_option identity_from_claims (verify_claims P c2 tok n), l2)))"

section \<open>Starting a sign-in\<close>

text \<open>\<open>std::cmp::Reverse\<close>.\<close>

datatype 'a reverse = Reverse 'a

instantiation reverse :: (linorder) linorder
begin

fun less_eq_reverse :: "'a reverse \<Rightarrow> 'a reverse \<Rightarrow> bool" where
  "Reverse a \<le> Reverse b \<longleftrightarrow> b \<le> a"

fun less_reverse :: "'a reverse \<Rightarrow> 'a reverse \<Rightarrow> bool" where
  "Reverse a < Reverse b \<longleftrightarrow> b < a"

instance
proof
  fix x y z :: "'a reverse"
  show "x < y \<longleftrightarrow> x \<le> y \<and> \<not> y \<le> x" by (cases x; cases y) auto
  show "x \<le> x" by (cases x) simp
  show "x \<le> y \<Longrightarrow> y \<le> z \<Longrightarrow> x \<le> z" by (cases x; cases y; cases z) simp
  show "x \<le> y \<Longrightarrow> y \<le> x \<Longrightarrow> x = y" by (cases x; cases y) simp
  show "x \<le> y \<or> y \<le> x" by (cases x; cases y) (simp add: linear)
qed

end

type_synonym held_flow = "string \<times> u64 option"

definition held_flows :: "http_lib \<Rightarrow> flow_lib \<Rightarrow> 'c login \<Rightarrow> headers \<Rightarrow> held_flow list" where
  "held_flows H L l h =
     List.map_filter (\<lambda>(name, val).
        case strip_prefix (flow_prefix (lo_names l)) name of
          None \<Rightarrow> None
        | Some state \<Rightarrow> Some (name, if valid_state state then issued_at L (lo_flows l) state val else None))
       (cookie_pairs H h)"

fun prune_held :: "http_lib \<Rightarrow> names \<Rightarrow> nat \<Rightarrow> held_flow list \<Rightarrow> answer \<Rightarrow> answer" where
  "prune_held H n kept [] a = a"
| "prune_held H n kept ((name, issued) # rest) a =
     (if issued \<noteq> None \<and> kept < max_flow_cookies - 1 then prune_held H n (kept + 1) rest a
      else prune_held H n kept rest (snd (append_cookie H (names_clear n name) a)))"

definition prune_flow_cookies :: "http_lib \<Rightarrow> flow_lib \<Rightarrow> 'c login \<Rightarrow> headers \<Rightarrow> answer \<Rightarrow> answer" where
  "prune_flow_cookies H L l h a =
     prune_held H (lo_names l) 0 (sort_key (\<lambda>(_, issued). Reverse issued) (held_flows H L l h)) a"

record ('m, 'r) login_world =
  lw_discovery :: "'m discovery"
  lw_random :: 'r
  lw_unix :: u64
  lw_seal_nonce :: "string option"

definition login_handler ::
  "http_lib \<Rightarrow> flow_lib \<Rightarrow> ('c, 'm, 'r, 'tok, 'idt) oidc_lib \<Rightarrow> ('m, 'r) login_world \<Rightarrow> login_query \<Rightarrow> headers
     \<Rightarrow> 'c login \<Rightarrow> answer \<times> 'c login" where
  "login_handler H L P w q h l =
     (let return = safe_return_to (q_return_to q) in
      case lo_provider l of None \<Rightarrow> (redirect H return, l) | Some p \<Rightarrow>
      (case ask_client P (lw_discovery w) l of
         (None, l1) \<Rightarrow> (text_answer SERVICE_UNAVAILABLE
            ''Sign-in is unavailable right now: the identity provider cannot be reached. Try again shortly. [idp-unavailable]'', l1)
       | (Some c, l1) \<Rightarrow>
          (let step = (q_step_up q = Some ''1'');
               (challenge, verifier) = new_pkce P (lw_random w);
               state = new_csrf P (lw_random w);
               nc = new_nonce P (lw_random w);
               auth_url = authorize_url P c \<lparr>ap_state = state, ap_nonce = nc, ap_scopes = scopes p,
                 ap_prompt_login = step, ap_max_age = (if step then Some 0 else None), ap_challenge = challenge\<rparr>;
               f = \<lparr>pkce_verifier = verifier, nonce = nc, return_to = return, step_up = step\<rparr>
           in case seal L (lo_flows l1) (lw_unix w) (lw_seal_nonce w) state f of
                None \<Rightarrow> (text_answer INTERNAL_SERVER_ERROR ''Sign-in could not start. [flow-seal]'', l1)
              | Some val \<Rightarrow>
                  (case append_cookie H (names_set (lo_names l1) (names_flow (lo_names l1) state) val (as_secs flow_ttl))
                          (prune_flow_cookies H L l1 h (redirect H auth_url)) of
                     (True, a) \<Rightarrow> (a, l1)
                   | (False, _) \<Rightarrow> (text_answer INTERNAL_SERVER_ERROR ''Sign-in could not start. [flow-cookie]'', l1)))))"

section \<open>Finishing a sign-in\<close>

record 'm callback_world =
  cw_unix :: u64
  cw_discovery :: "'m discovery"
  cw_refresh :: "'m discovery"
  cw_again :: "'m discovery"
  cw_order :: "session_map \<Rightarrow> session_map"
  cw_now :: instant
  cw_wall :: int
  cw_fresh_id :: "string option"

definition opened_flow :: "http_lib \<Rightarrow> flow_lib \<Rightarrow> u64 \<Rightarrow> 'c login \<Rightarrow> headers \<Rightarrow> string \<Rightarrow> flow option" where
  "opened_flow H L unix l h state =
     Option.bind (Option.bind (if valid_state state then Some (names_flow (lo_names l) state) else None) (cookie_read H h))
       (flow_open L (lo_flows l) unix state)"

definition complete_sign_in ::
  "http_lib \<Rightarrow> 'm callback_world \<Rightarrow> headers \<Rightarrow> flow \<Rightarrow> identity \<Rightarrow> u64 option \<Rightarrow> 'c login \<Rightarrow> answer \<times> 'c login" where
  "complete_sign_in H w h f idn auth l =
     (case session_insert (cw_order w) (cw_now w) (cw_wall w) (cw_fresh_id w) idn auth (lo_sessions l) of
        (None, ss) \<Rightarrow> (text_answer INTERNAL_SERVER_ERROR ''Signed in, but the session could not be created. [session-id]'',
                       l\<lparr>lo_sessions := ss\<rparr>)
      | (Some i, ss) \<Rightarrow>
          (let ss1 = (case cookie_read H h (session_name (lo_names l)) of Some old \<Rightarrow> session_remove old ss | None \<Rightarrow> ss)
           in case append_cookie H (names_set (lo_names l) (session_name (lo_names l)) i (as_secs (ttl ss1))) (redirect H (return_to f)) of
                (False, _) \<Rightarrow> (text_answer INTERNAL_SERVER_ERROR ''Signed in, but the session could not be set. [session-cookie]'',
                               l\<lparr>lo_sessions := session_remove i ss1\<rparr>)
              | (True, a) \<Rightarrow> (snd (append_cookie H (names_clear (lo_names l) (retry_name (lo_names l))) a), l\<lparr>lo_sessions := ss1\<rparr>)))"

definition exchange_and_verify ::
  "http_lib \<Rightarrow> ('c, 'm, 'r, 'tok, 'idt) oidc_lib \<Rightarrow> 'm callback_world \<Rightarrow> headers \<Rightarrow> string \<Rightarrow> flow \<Rightarrow> 'c login \<Rightarrow> answer \<times> 'c login" where
  "exchange_and_verify H P w h code f l =
     (let restart = (\<lambda>reason. restart_or_refuse H (form_serialize P) (lo_names l) h reason (Some f)) in
      case ask_client P (cw_discovery w) l of
        (None, l1) \<Rightarrow> (restart ''idp-unavailable'', l1)
      | (Some c, l1) \<Rightarrow>
          (if \<not> has_token_endpoint P c
           then (text_answer INTERNAL_SERVER_ERROR ''Sign-in failed preparing the token request. [exchange-setup]'', l1)
           else (case request_token P c \<lparr>tr_code = code, tr_verifier = pkce_verifier f\<rparr> of
             None \<Rightarrow> (restart ''token-exchange'', l1)
           | Some tokens \<Rightarrow> (case id_token P tokens of
               None \<Rightarrow> (text_answer BAD_GATEWAY ''The identity provider returned no identity token. [no-id-token]'', l1)
             | Some tok \<Rightarrow> (case verify_id_token P (cw_refresh w) (cw_again w) c tok (nonce f) l1 of
                 (None, l2) \<Rightarrow> (restart ''id-token-verify'', l2)
               | (Some (idn, auth), l2) \<Rightarrow> complete_sign_in H w h f idn auth l2)))))"

definition shown_error :: "string \<Rightarrow> string" where
  "shown_error e = take 64 (filter (\<lambda>c. is_ascii_alphanumeric (byte c) \<or> c = CHR ''_'') e)"

definition callback_handler ::
  "http_lib \<Rightarrow> flow_lib \<Rightarrow> ('c, 'm, 'r, 'tok, 'idt) oidc_lib \<Rightarrow> 'm callback_world \<Rightarrow> callback_query \<Rightarrow> headers
     \<Rightarrow> 'c login \<Rightarrow> answer \<times> 'c login" where
  "callback_handler H L P w q h l =
     (case lo_provider l of None \<Rightarrow> (redirect H ''/'', l) | Some _ \<Rightarrow>
      (case q_error q of
         Some e \<Rightarrow> (text_answer BAD_REQUEST
            (''Sign-in was refused by the identity provider ('' @ shown_error e @ ''). [callback-error]''), l)
       | None \<Rightarrow>
      (case (q_code q, q_state q) of
         (Some code, Some state) \<Rightarrow>
           (let flow_cookie = (if valid_state state then Some (names_flow (lo_names l) state) else None);
                finish = done_answer H (lo_names l) flow_cookie
            in case opened_flow H L (cw_unix w) l h state of
                 None \<Rightarrow> (finish (restart_or_refuse H (form_serialize P) (lo_names l) h ''flow-unknown'' None), l)
               | Some f \<Rightarrow> (case exchange_and_verify H P w h code f l of (a, l') \<Rightarrow> (finish a, l')))
       | _ \<Rightarrow> (text_answer BAD_REQUEST ''Sign-in callback is missing its code or state. [callback-params]'', l))))"

section \<open>Signing out, and who is signed in\<close>

definition logout_handler :: "http_lib \<Rightarrow> headers \<Rightarrow> 'c login \<Rightarrow> answer \<times> 'c login" where
  "logout_handler H h l =
     (if \<not> login_is_disabled l \<and> \<not> same_origin h (lo_origin l)
      then (text_answer FORBIDDEN ''Sign-out must come from this site. [cross-origin]'', l)
      else
        (snd (append_cookie H (names_clear (lo_names l) (session_name (lo_names l))) (no_store (into_response NO_CONTENT Empty))),
         case cookie_read H h (session_name (lo_names l)) of
           Some i \<Rightarrow> l\<lparr>lo_sessions := session_remove i (lo_sessions l)\<rparr> | None \<Rightarrow> l))"

definition nobody :: me where
  "nobody = \<lparr>authenticated = False, me_sub = None, me_email = None, me_name = None\<rparr>"

definition me_of :: "session \<Rightarrow> me" where
  "me_of x = \<lparr>authenticated = True, me_sub = Some (id_sub (identity x)), me_email = id_email (identity x), me_name = id_name (identity x)\<rparr>"

definition me_handler :: "http_lib \<Rightarrow> instant \<Rightarrow> headers \<Rightarrow> 'c login \<Rightarrow> answer \<times> 'c login" where
  "me_handler H now h l =
     (let (who, l') =
        (if login_is_disabled l
         then (\<lparr>authenticated = True, me_sub = Some ''dev'', me_email = Some ''dev@local'', me_name = Some ''Local dev''\<rparr>, l)
         else (case cookie_read H h (session_name (lo_names l)) of
                 None \<Rightarrow> (nobody, l)
               | Some i \<Rightarrow> (case session_get i now (lo_sessions l) of
                   (Some x, ss) \<Rightarrow> (me_of x, l\<lparr>lo_sessions := ss\<rparr>)
                 | (None, ss) \<Rightarrow> (nobody, l\<lparr>lo_sessions := ss\<rparr>))))
      in (no_store (into_response OK (Json_me who)), l'))"

section \<open>Headers of a response\<close>

definition set_cookies :: "answer \<Rightarrow> string list" where
  "set_cookies a = header_get_all (ans_headers a) ''set-cookie''"

definition location_of :: "answer \<Rightarrow> string option" where
  "location_of a = header_get (ans_headers a) ''location''"

definition never_cached :: "answer \<Rightarrow> bool" where
  "never_cached a \<longleftrightarrow> header_get_all (ans_headers a) ''cache-control'' = [''no-store'']"

lemma get_all_insert:
  "header_get_all (ans_headers (header_insert k v a)) k' =
     (if k' = k then [v] else header_get_all (ans_headers a) k')"
proof -
  have "map snd (filter (\<lambda>(u, _). u = k') (filter (\<lambda>(u, _). u \<noteq> k) xs)) =
      (if k' = k then [] else map snd (filter (\<lambda>(u, _). u = k') xs))" for xs :: headers
    by (induction xs) auto
  then show ?thesis
    by (simp add: header_insert_def header_get_all_def del: filter_filter)
qed

lemma get_all_append:
  "header_get_all (ans_headers (header_append k v a)) k' =
     header_get_all (ans_headers a) k' @ (if k' = k then [v] else [])"
  by (simp add: header_append_def header_get_all_def)

lemma header_get_first: "header_get h k = (case header_get_all h k of [] \<Rightarrow> None | v # _ \<Rightarrow> Some v)"
  by (induction h) (auto simp: header_get_def header_get_all_def)

lemma get_all_fresh [simp]: "header_get_all (ans_headers (into_response st b)) k = []"
  by (simp add: into_response_def header_get_all_def)

lemma status_insert [simp]: "ans_status (header_insert k v a) = ans_status a"
  and status_append [simp]: "ans_status (header_append k v a) = ans_status a"
  and status_fresh [simp]: "ans_status (into_response st b) = st"
  by (simp_all add: header_insert_def header_append_def into_response_def)

lemmas answer_views = set_cookies_def location_of_def never_cached_def header_get_first get_all_insert get_all_append
lemmas answer_builders = no_store_def redirect_def text_answer_def append_cookie_def done_answer_def Let_def

lemma no_store_view [gate_simps]:
  "set_cookies (no_store a) = set_cookies a" "location_of (no_store a) = location_of a" "never_cached (no_store a)"
  "ans_status (no_store a) = ans_status a"
  by (simp_all add: no_store_def answer_views)

lemma fresh_view [gate_simps]: "set_cookies (into_response st b) = []" "location_of (into_response st b) = None"
  by (simp_all add: answer_views)

lemma text_view [gate_simps]:
  "set_cookies (text_answer st b) = []" "location_of (text_answer st b) = None" "never_cached (text_answer st b)"
  "ans_status (text_answer st b) = st"
  by (simp_all add: text_answer_def gate_simps)

lemma redirect_view [gate_simps]:
  "set_cookies (redirect H u) = []" "location_of (redirect H u) = from_str H u" "never_cached (redirect H u)"
  "ans_status (redirect H u) = SEE_OTHER"
  by (auto simp: redirect_def no_store_def answer_views Let_def split: option.splits)

lemma append_cookie_view [gate_simps]:
  "set_cookies (snd (append_cookie H c a)) = set_cookies a @ (case from_str H c of Some v \<Rightarrow> [v] | None \<Rightarrow> [])"
  "location_of (snd (append_cookie H c a)) = location_of a" "never_cached (snd (append_cookie H c a)) = never_cached a"
  "ans_status (snd (append_cookie H c a)) = ans_status a"
  by (auto simp: append_cookie_def answer_views split: option.splits)

lemma append_cookie_cases:
  "append_cookie H c a = (ok, b) \<longleftrightarrow> (ok \<longleftrightarrow> from_str H c \<noteq> None) \<and> b = snd (append_cookie H c a)"
  by (auto simp: append_cookie_def split: option.splits)

lemma done_view [gate_simps]:
  "set_cookies (done_answer H n fc a) = set_cookies a @
     (case fc of Some name \<Rightarrow> (case from_str H (names_clear n name) of Some v \<Rightarrow> [v] | None \<Rightarrow> []) | None \<Rightarrow> [])"
  "location_of (done_answer H n fc a) = location_of a" "never_cached (done_answer H n fc a) = never_cached a"
  "ans_status (done_answer H n fc a) = ans_status a"
  by (auto simp: done_answer_def gate_simps split: option.splits)

lemma restart_view [gate_simps]:
  "never_cached (restart_or_refuse H ser n h reason f)"
  "ans_status (restart_or_refuse H ser n h reason f) = (if cookie_read H h (retry_name n) = None then SEE_OTHER else FORBIDDEN)"
  by (simp_all add: restart_or_refuse_def gate_simps Let_def)

lemma prune_held_view [gate_simps]:
  "location_of (prune_held H n kept hs a) = location_of a" "never_cached (prune_held H n kept hs a) = never_cached a"
  "ans_status (prune_held H n kept hs a) = ans_status a"
  by (induction H n kept hs a rule: prune_held.induct) (simp_all add: gate_simps)

lemma prune_view [gate_simps]:
  "location_of (prune_flow_cookies H L l h a) = location_of a" "never_cached (prune_flow_cookies H L l h a) = never_cached a"
  "ans_status (prune_flow_cookies H L l h a) = ans_status a"
  by (simp_all add: prune_flow_cookies_def gate_simps)

lemma append_cookie_pair [gate_simps]:
  "fst (append_cookie H c a) \<longleftrightarrow> from_str H c \<noteq> None"
  by (auto simp: append_cookie_def split: option.splits)

lemma complete_cached: "never_cached (fst (complete_sign_in H w h f idn auth l))"
  by (auto simp: complete_sign_in_def gate_simps append_cookie_cases Let_def split: option.splits prod.splits bool.splits)

lemma exchange_cached: "never_cached (fst (exchange_and_verify H P w h code f l))"
  by (auto simp: exchange_and_verify_def gate_simps complete_cached Let_def split: option.splits prod.splits)

text \<open>
  The statuses each route answers with. The description generated for the routes leaves out those of a
  sign-in that fails on this side (500) and of a provider that returns no identity token (502).
\<close>

lemma complete_status: "ans_status (fst (complete_sign_in H w h f idn auth l)) \<in> {SEE_OTHER, INTERNAL_SERVER_ERROR}"
  by (auto simp: complete_sign_in_def gate_simps append_cookie_cases Let_def split: option.splits prod.splits bool.splits)

lemma exchange_status:
  "ans_status (fst (exchange_and_verify H P w h code f l)) \<in> {SEE_OTHER, FORBIDDEN, INTERNAL_SERVER_ERROR, BAD_GATEWAY}"
  using complete_status[of H w h f]
  by (auto simp: exchange_and_verify_def Let_def gate_simps split: option.splits prod.splits)

lemma route_statuses:
  "ans_status (fst (login_handler H L P lw lq h l)) \<in> {SEE_OTHER, INTERNAL_SERVER_ERROR, SERVICE_UNAVAILABLE}"
  "ans_status (fst (callback_handler H L P w cq h l)) \<in> {SEE_OTHER, BAD_REQUEST, FORBIDDEN, INTERNAL_SERVER_ERROR, BAD_GATEWAY}"
  "ans_status (fst (logout_handler H h l)) \<in> {NO_CONTENT, FORBIDDEN}"
  "ans_status (fst (me_handler H now h l)) = OK"
proof -
  show "ans_status (fst (login_handler H L P lw lq h l)) \<in> {SEE_OTHER, INTERNAL_SERVER_ERROR, SERVICE_UNAVAILABLE}"
    by (auto simp: login_handler_def gate_simps append_cookie_cases Let_def split: option.splits prod.splits bool.splits)
  show "ans_status (fst (callback_handler H L P w cq h l)) \<in> {SEE_OTHER, BAD_REQUEST, FORBIDDEN, INTERNAL_SERVER_ERROR, BAD_GATEWAY}"
  proof -
    have "ans_status a \<in> {SEE_OTHER, FORBIDDEN, INTERNAL_SERVER_ERROR, BAD_GATEWAY}"
      if "exchange_and_verify H P w h code f l = (a, l')" for code f a l'
      using exchange_status[of H P w h code f l] that by simp
    then show ?thesis
      by (auto simp: callback_handler_def gate_simps Let_def split: option.splits prod.splits)
  qed
qed (auto simp: logout_handler_def me_handler_def gate_simps Let_def split: option.splits prod.splits)

lemma no_id_token_is_a_bad_gateway:
  assumes "lo_provider l \<noteq> None" and "q_error q = None" and "q_code q = Some code" and "q_state q = Some state"
    and "opened_flow H L (cw_unix w) l h state = Some f" and "ask_client P (cw_discovery w) l = (Some c, l1)"
    and "has_token_endpoint P c" and "request_token P c \<lparr>tr_code = code, tr_verifier = pkce_verifier f\<rparr> = Some tokens"
    and "id_token P tokens = None"
  shows "ans_status (fst (callback_handler H L P w q h l)) = BAD_GATEWAY"
  using assms by (auto simp: callback_handler_def exchange_and_verify_def Let_def gate_simps)

section \<open>What a callback can do to the sessions\<close>

lemma ask_client_keeps [simp]:
  "lo_sessions (snd (ask_client P d l)) = lo_sessions l" "lo_names (snd (ask_client P d l)) = lo_names l"
  "lo_flows (snd (ask_client P d l)) = lo_flows l" "lo_origin (snd (ask_client P d l)) = lo_origin l"
  by (simp_all add: ask_client_def split: option.splits prod.splits)

lemma verify_keeps [simp]:
  "lo_sessions (snd (verify_id_token P d d' c tok n l)) = lo_sessions l"
  "lo_names (snd (verify_id_token P d d' c tok n l)) = lo_names l"
  "lo_origin (snd (verify_id_token P d d' c tok n l)) = lo_origin l"
proof -
  obtain c2 l2 where e: "ask_client P d' (ask_rediscover P d l) = (c2, l2)"
    by fastforce
  have k: "lo_sessions l2 = lo_sessions l" "lo_names l2 = lo_names l" "lo_origin l2 = lo_origin l"
    using ask_client_keeps(1,2,4)[of P d' "ask_rediscover P d l", unfolded e] by (simp_all add: ask_rediscover_def)
  have "snd (verify_id_token P d d' c tok n l) \<in> {l, l2}"
    by (simp add: verify_id_token_def e split: option.splits)
  then show "lo_sessions (snd (verify_id_token P d d' c tok n l)) = lo_sessions l"
    "lo_names (snd (verify_id_token P d d' c tok n l)) = lo_names l"
    "lo_origin (snd (verify_id_token P d d' c tok n l)) = lo_origin l"
    using k by auto
qed

text \<open>
  The evidence behind a new session: the callback's code and state, this browser's sealed flow for that
  state, the code exchanged with the flow's PKCE verifier, and the ID token received verified by a
  client of the provider against the flow's nonce.
\<close>

definition verified_sign_in ::
  "http_lib \<Rightarrow> flow_lib \<Rightarrow> ('c, 'm, 'r, 'tok, 'idt) oidc_lib \<Rightarrow> u64 \<Rightarrow> callback_query \<Rightarrow> headers \<Rightarrow> 'c login
     \<Rightarrow> flow \<Rightarrow> identity \<Rightarrow> u64 option \<Rightarrow> bool" where
  "verified_sign_in H L P unix q h l f idn auth \<longleftrightarrow>
     (\<exists>code state val c tokens tok c' claims.
        q_error q = None \<and> q_code q = Some code \<and> q_state q = Some state \<and> valid_state state
      \<and> cookie_read H h (names_flow (lo_names l) state) = Some val
      \<and> flow_open L (lo_flows l) unix state val = Some f
      \<and> request_token P c \<lparr>tr_code = code, tr_verifier = pkce_verifier f\<rparr> = Some tokens
      \<and> id_token P tokens = Some tok \<and> verify_claims P c' tok (nonce f) = Some claims
      \<and> identity_from_claims claims = (idn, auth))"

lemma verify_id_token_Some:
  assumes "verify_id_token P d d' c tok n l = (Some r, l')"
  obtains c' claims where "verify_claims P c' tok n = Some claims" "identity_from_claims claims = r"
  using assms by (auto simp: verify_id_token_def Let_def split: option.splits prod.splits)

text \<open>
  The failures the code calls recoverable, from the flow opened on: no client, a token request that fails, an ID
  token that does not verify even under keys fetched again. \<open>failed_recoverably\<close> adds a callback that opens no
  flow, and names the flow to start again.
\<close>

definition exchange_fails ::
  "('c, 'm, 'r, 'tok, 'idt) oidc_lib \<Rightarrow> 'm callback_world \<Rightarrow> string \<Rightarrow> flow \<Rightarrow> 'c login \<Rightarrow> bool" where
  "exchange_fails P w code f l \<longleftrightarrow>
     (case ask_client P (cw_discovery w) l of
        (None, _) \<Rightarrow> True
      | (Some c, l1) \<Rightarrow> has_token_endpoint P c \<and>
          (case request_token P c \<lparr>tr_code = code, tr_verifier = pkce_verifier f\<rparr> of
             None \<Rightarrow> True
           | Some tokens \<Rightarrow> \<exists>tok. id_token P tokens = Some tok
               \<and> fst (verify_id_token P (cw_refresh w) (cw_again w) c tok (nonce f) l1) = None))"

definition failed_recoverably ::
  "http_lib \<Rightarrow> flow_lib \<Rightarrow> ('c, 'm, 'r, 'tok, 'idt) oidc_lib \<Rightarrow> 'm callback_world \<Rightarrow> callback_query \<Rightarrow> headers \<Rightarrow> 'c login
     \<Rightarrow> flow option \<Rightarrow> bool" where
  "failed_recoverably H L P w q h l again \<longleftrightarrow> q_error q = None
     \<and> (\<exists>code state. q_code q = Some code \<and> q_state q = Some state \<and> opened_flow H L (cw_unix w) l h state = again
          \<and> (\<forall>f. again = Some f \<longrightarrow> exchange_fails P w code f l))"

lemma exchange_cases:
  assumes "exchange_and_verify H P w h code f l = (a, l')"
  obtains (restarts) reason where "exchange_fails P w code f l" "lo_sessions l' = lo_sessions l"
      "a = restart_or_refuse H (form_serialize P) (lo_names l) h reason (Some f)"
  | (broken) "\<not> exchange_fails P w code f l" "lo_sessions l' = lo_sessions l" "ans_status a \<in> {INTERNAL_SERVER_ERROR, BAD_GATEWAY}"
  | (verified) c tokens tok c' claims idn auth l2 where "\<not> exchange_fails P w code f l"
      "request_token P c \<lparr>tr_code = code, tr_verifier = pkce_verifier f\<rparr> = Some tokens"
      "id_token P tokens = Some tok" "verify_claims P c' tok (nonce f) = Some claims" "identity_from_claims claims = (idn, auth)"
      "lo_sessions l2 = lo_sessions l" "lo_names l2 = lo_names l" "complete_sign_in H w h f idn auth l2 = (a, l')"
proof -
  let ?tokens = "\<lambda>c. request_token P c \<lparr>tr_code = code, tr_verifier = pkce_verifier f\<rparr>"
  obtain oc l1 where ask: "ask_client P (cw_discovery w) l = (oc, l1)" by fastforce
  have l1: "lo_sessions l1 = lo_sessions l" "lo_names l1 = lo_names l"
    using ask_client_keeps(1,2)[of P "cw_discovery w" l] by (simp_all add: ask)
  note defs = exchange_and_verify_def exchange_fails_def ask Let_def
  consider (none) "oc = None" | (no_endpoint) c where "oc = Some c" "\<not> has_token_endpoint P c"
    | (no_answer) c where "oc = Some c" "has_token_endpoint P c" "?tokens c = None"
    | (no_token) c tokens where "oc = Some c" "has_token_endpoint P c" "?tokens c = Some tokens" "id_token P tokens = None"
    | (token) c tokens tok where "oc = Some c" "has_token_endpoint P c" "?tokens c = Some tokens" "id_token P tokens = Some tok"
    by (metis not_Some_eq)
  then show thesis
  proof cases
    case none
    with assms l1 show thesis by (intro restarts[of "''idp-unavailable''"]) (auto simp: defs)
  next
    case no_endpoint
    with assms l1 show thesis by (intro broken) (auto simp: defs gate_simps)
  next
    case no_answer
    with assms l1 show thesis by (intro restarts[of "''token-exchange''"]) (auto simp: defs)
  next
    case no_token
    with assms l1 show thesis by (intro broken) (auto simp: defs gate_simps)
  next
    case (token c tokens tok)
    obtain v l2 where v: "verify_id_token P (cw_refresh w) (cw_again w) c tok (nonce f) l1 = (v, l2)" by fastforce
    have l2: "lo_sessions l2 = lo_sessions l" "lo_names l2 = lo_names l"
      using verify_keeps(1,2)[of P "cw_refresh w" "cw_again w" c tok "nonce f" l1] l1 by (simp_all add: v)
    show thesis
    proof (cases v)
      case None
      with assms token v l2 show thesis by (intro restarts[of "''id-token-verify''"]) (auto simp: defs)
    next
      case (Some r)
      obtain idn auth where r: "r = (idn, auth)" by fastforce
      obtain c' claims where vc: "verify_claims P c' tok (nonce f) = Some claims" "identity_from_claims claims = (idn, auth)"
        using verify_id_token_Some[of P "cw_refresh w" "cw_again w" c tok "nonce f" l1 r l2] v Some r by auto
      have "\<not> exchange_fails P w code f l" "complete_sign_in H w h f idn auth l2 = (a, l')"
        using assms token v Some r by (auto simp: defs)
      from verified[OF this(1) token(3,4) vc l2 this(2)] show thesis .
    qed
  qed
qed

text \<open>How a callback ends: nothing failed recoverably and nothing was verified, a failure starts again or is refused, or a verified sign-in.\<close>

definition flow_cookie_of :: "names \<Rightarrow> callback_query \<Rightarrow> string option" where
  "flow_cookie_of n q = Option.bind (q_state q) (\<lambda>state. if valid_state state then Some (names_flow n state) else None)"

lemma callback_cases:
  assumes "callback_handler H L P w q h l = (a, l')" and "lo_provider l \<noteq> None"
  obtains (refused) "\<nexists>again. failed_recoverably H L P w q h l again" "lo_sessions l' = lo_sessions l"
      "ans_status a \<in> {BAD_REQUEST, INTERNAL_SERVER_ERROR, BAD_GATEWAY}"
  | (restarts) again reason where "failed_recoverably H L P w q h l again" "lo_sessions l' = lo_sessions l"
      "a = done_answer H (lo_names l) (flow_cookie_of (lo_names l) q) (restart_or_refuse H (form_serialize P) (lo_names l) h reason again)"
  | (verified) f idn auth l2 b state where "\<nexists>again. failed_recoverably H L P w q h l again"
      "verified_sign_in H L P (cw_unix w) q h l f idn auth" "q_state q = Some state"
      "lo_sessions l2 = lo_sessions l" "lo_names l2 = lo_names l" "complete_sign_in H w h f idn auth l2 = (b, l')"
      "a = done_answer H (lo_names l) (Some (names_flow (lo_names l) state)) b"
proof -
  consider (error) "q_error q \<noteq> None \<or> q_code q = None \<or> q_state q = None"
    | (unknown) code state where "q_error q = None" "q_code q = Some code" "q_state q = Some state" "opened_flow H L (cw_unix w) l h state = None"
    | (known) code state f where "q_error q = None" "q_code q = Some code" "q_state q = Some state" "opened_flow H L (cw_unix w) l h state = Some f"
    by (metis not_Some_eq)
  then show thesis
  proof cases
    case error
    with assms show thesis
      by (intro refused) (auto simp: callback_handler_def failed_recoverably_def gate_simps split: option.splits)
  next
    case unknown
    with assms show thesis
      by (intro restarts[of None "''flow-unknown''"])
        (auto simp: callback_handler_def failed_recoverably_def flow_cookie_of_def Let_def)
  next
    case (known code state f)
    obtain b l1 where e: "exchange_and_verify H P w h code f l = (b, l1)" by fastforce
    have vs: "valid_state state" using known(4) by (auto simp: opened_flow_def split: if_splits)
    have al: "a = done_answer H (lo_names l) (Some (names_flow (lo_names l) state)) b" "l' = l1"
      using assms known e vs by (auto simp: callback_handler_def Let_def)
    have failed: "failed_recoverably H L P w q h l again \<longleftrightarrow> again = Some f \<and> exchange_fails P w code f l" for again
      using known by (auto simp: failed_recoverably_def)
    from e show thesis
    proof (cases rule: exchange_cases)
      case (restarts reason)
      with al known vs failed that(2)[of "Some f" reason] show thesis by (simp add: flow_cookie_of_def)
    next
      case broken
      with al failed that(1) show thesis by (simp add: gate_simps)
    next
      case (verified c tokens tok c' claims idn auth l2)
      obtain val where "cookie_read H h (names_flow (lo_names l) state) = Some val" "flow_open L (lo_flows l) (cw_unix w) state val = Some f"
        using known(4) vs by (auto simp: opened_flow_def bind_eq_Some_conv)
      with verified(2-5) known vs have "verified_sign_in H L P (cw_unix w) q h l f idn auth"
        unfolding verified_sign_in_def by blast
      with verified al known(3) failed that(3)[of f idn auth state l2 b] show thesis by simp
    qed
  qed
qed

lemma callback_outcome:
  assumes "callback_handler H L P w q h l = (a, l')" and "lo_provider l \<noteq> None"
  shows "(lo_sessions l' = lo_sessions l \<and> (ans_status a \<noteq> SEE_OTHER \<or> cookie_read H h (retry_name (lo_names l)) = None))
    \<or> (\<exists>f idn auth l2 b state. verified_sign_in H L P (cw_unix w) q h l f idn auth \<and> q_state q = Some state
        \<and> lo_sessions l2 = lo_sessions l \<and> lo_names l2 = lo_names l
        \<and> complete_sign_in H w h f idn auth l2 = (b, l')
        \<and> a = done_answer H (lo_names l) (Some (names_flow (lo_names l) state)) b)"
  using assms
proof (cases rule: callback_cases)
  case refused
  then show ?thesis by auto
next
  case restarts
  then show ?thesis by (auto simp: gate_simps)
next
  case verified
  then show ?thesis by blast
qed

lemma session_wf_insert: "session_wf s \<Longrightarrow> session_wf (snd (session_insert iter now wall nid idn auth s))"
  using session_wf_apply[of s "Insert iter now wall nid idn auth"] by simp

lemma remove_lookup:
  "session_wf s \<Longrightarrow> hm_get (session_map (session_remove i s)) k = (if k = i then None else hm_get (session_map s) k)"
  by (simp add: session_remove_def session_wf_def hm.get_del)

lemma remove_wf: "session_wf s \<Longrightarrow> session_wf (session_remove i s)"
  by (auto simp: session_remove_def session_wf_def)

lemma insert_id: "fst (session_insert iter now wall nid idn auth s) = nid"
  by (simp add: session_insert_def Let_def split: option.splits)

lemma insert_fails: "snd (session_insert iter now wall None idn auth s) = s"
  by (simp add: session_insert_def)

lemma insert_ttl: "ttl (snd (session_insert iter now wall nid idn auth s)) = ttl s"
  using session_ttl_apply[of "Insert iter now wall nid idn auth" s] by simp

definition replace_old :: "string option \<Rightarrow> session_store \<Rightarrow> session_store" where
  "replace_old old ss = (case old of Some i \<Rightarrow> session_remove i ss | None \<Rightarrow> ss)"

lemma replace_old_view:
  "session_wf ss \<Longrightarrow> hm_get (session_map (replace_old old ss)) k = (if old = Some k then None else hm_get (session_map ss) k)"
  "session_wf ss \<Longrightarrow> session_wf (replace_old old ss)" "ttl (replace_old old ss) = ttl ss"
  by (auto simp: replace_old_def remove_lookup remove_wf split: option.splits) (simp add: session_remove_def)

text \<open>A completed sign-in: its session, replacing the old one, and its three \<open>Set-Cookie\<close> headers.\<close>

lemma complete_cases:
  assumes "complete_sign_in H w h f idn auth l = (a, l')"
  obtains (no_id) "cw_fresh_id w = None" "lo_sessions l' = lo_sessions l" "ans_status a = INTERNAL_SERVER_ERROR" "set_cookies a = []"
  | (no_cookie) i ss where "cw_fresh_id w = Some i"
      "from_str H (names_set (lo_names l) (session_name (lo_names l)) i (as_secs (ttl (lo_sessions l)))) = None"
      "ss = snd (session_insert (cw_order w) (cw_now w) (cw_wall w) (Some i) idn auth (lo_sessions l))"
      "lo_sessions l' = session_remove i (replace_old (cookie_read H h (session_name (lo_names l))) ss)"
      "ans_status a = INTERNAL_SERVER_ERROR"
  | (signed) i ss v where "cw_fresh_id w = Some i"
      "from_str H (names_set (lo_names l) (session_name (lo_names l)) i (as_secs (ttl (lo_sessions l)))) = Some v"
      "ss = snd (session_insert (cw_order w) (cw_now w) (cw_wall w) (Some i) idn auth (lo_sessions l))"
      "l' = l\<lparr>lo_sessions := replace_old (cookie_read H h (session_name (lo_names l))) ss\<rparr>"
      "ans_status a = SEE_OTHER" "location_of a = from_str H (return_to f)"
      "set_cookies a = v # (case from_str H (names_clear (lo_names l) (retry_name (lo_names l))) of Some c \<Rightarrow> [c] | None \<Rightarrow> [])"
proof (cases "cw_fresh_id w")
  case None
  with assms show ?thesis
    by (intro no_id) (auto simp: complete_sign_in_def session_insert_def gate_simps)
next
  case (Some i)
  obtain ss where ss: "session_insert (cw_order w) (cw_now w) (cw_wall w) (Some i) idn auth (lo_sessions l) = (Some i, ss)"
    using insert_id[of "cw_order w" "cw_now w" "cw_wall w" "Some i" idn auth "lo_sessions l"] by (metis prod.collapse)
  let ?old = "cookie_read H h (session_name (lo_names l))"
  have ttl: "ttl (replace_old ?old ss) = ttl (lo_sessions l)"
    using insert_ttl[of "cw_order w" "cw_now w" "cw_wall w" "Some i" idn auth "lo_sessions l"] by (simp add: ss replace_old_view)
  let ?c = "names_set (lo_names l) (session_name (lo_names l)) i (as_secs (ttl (lo_sessions l)))"
  have al: "(a, l') = (case append_cookie H ?c (redirect H (return_to f)) of
      (False, _) \<Rightarrow> (text_answer INTERNAL_SERVER_ERROR ''Signed in, but the session could not be set. [session-cookie]'',
                      l\<lparr>lo_sessions := session_remove i (replace_old ?old ss)\<rparr>)
    | (True, b) \<Rightarrow> (snd (append_cookie H (names_clear (lo_names l) (retry_name (lo_names l))) b), l\<lparr>lo_sessions := replace_old ?old ss\<rparr>))"
    using assms ttl by (simp add: complete_sign_in_def Some ss Let_def replace_old_def[symmetric])
  obtain ok b where ap: "append_cookie H ?c (redirect H (return_to f)) = (ok, b)"
    by fastforce
  have ok: "ok \<longleftrightarrow> from_str H ?c \<noteq> None" and b: "b = snd (append_cookie H ?c (redirect H (return_to f)))"
    using ap append_cookie_cases by auto
  show ?thesis
  proof (cases "from_str H ?c")
    case None
    with ok ap al have "a = text_answer INTERNAL_SERVER_ERROR ''Signed in, but the session could not be set. [session-cookie]''"
      "l' = l\<lparr>lo_sessions := session_remove i (replace_old ?old ss)\<rparr>" by auto
    with None Some ss show ?thesis
      by (intro no_cookie[of i ss]) (simp_all add: gate_simps)
  next
    case v: (Some v)
    with ok ap al have "a = snd (append_cookie H (names_clear (lo_names l) (retry_name (lo_names l))) b)"
      "l' = l\<lparr>lo_sessions := replace_old ?old ss\<rparr>" by auto
    with v Some ss show ?thesis
      by (intro signed[of i v ss]) (simp_all add: gate_simps b)
  qed
qed

lemma complete_adds_one:
  assumes "complete_sign_in H w h f idn auth l = (a, l')" and "session_wf (lo_sessions l)"
    and "hm_get (session_map (lo_sessions l')) k = Some x" and "hm_get (session_map (lo_sessions l)) k \<noteq> Some x"
  shows "cw_fresh_id w = Some k \<and> identity x = idn \<and> auth_time x = auth \<and> created x = cw_now w \<and> ans_status a = SEE_OTHER"
proof (cases rule: complete_cases[OF assms(1)])
  case 1
  with assms(3,4) show ?thesis by simp
next
  case (2 i ss)
  have wf: "session_wf ss"
    unfolding 2(3) by (rule session_wf_insert[OF assms(2)])
  have "hm_get (session_map ss) k = Some x \<and> k \<noteq> i"
    using assms(3) by (simp add: 2(4) remove_lookup[OF replace_old_view(2)[OF wf]] replace_old_view(1)[OF wf] split: if_splits)
  with assms(4) insert_lookup_old[OF assms(2)] show ?thesis
    unfolding 2(3) by blast
next
  case (3 i ss v)
  have wf: "session_wf ss"
    unfolding 3(3) by (rule session_wf_insert[OF assms(2)])
  have g: "hm_get (session_map ss) k = Some x"
    using assms(3) by (simp add: 3(4) replace_old_view(1)[OF wf] split: if_splits)
  then have "k = i"
    using assms(4) insert_lookup_old[OF assms(2)] unfolding 3(3) by blast
  with g show ?thesis
    unfolding 3(3) by (simp add: insert_lookup_new 3(1,5)) auto
qed

text \<open>A sign-in in which everything goes well.\<close>

definition good_callback ::
  "http_lib \<Rightarrow> flow_lib \<Rightarrow> ('c, 'm, 'r, 'tok, 'idt) oidc_lib \<Rightarrow> 'm callback_world \<Rightarrow> callback_query \<Rightarrow> headers \<Rightarrow> 'c login
     \<Rightarrow> string \<Rightarrow> flow \<Rightarrow> id_claims \<Rightarrow> string \<Rightarrow> bool" where
  "good_callback H L P w q h l state f claims i \<longleftrightarrow>
     (\<exists>p c code tokens tok. lo_provider l = Some p \<and> client p = Some c
      \<and> q = \<lparr>q_code = Some code, q_state = Some state, q_error = None\<rparr>
      \<and> opened_flow H L (cw_unix w) l h state = Some f \<and> has_token_endpoint P c
      \<and> request_token P c \<lparr>tr_code = code, tr_verifier = pkce_verifier f\<rparr> = Some tokens
      \<and> id_token P tokens = Some tok \<and> verify_claims P c tok (nonce f) = Some claims)
    \<and> cw_fresh_id w = Some i \<and> session_wf (lo_sessions l)
    \<and> (\<forall>c \<in> {names_set (lo_names l) (session_name (lo_names l)) i (as_secs (ttl (lo_sessions l))),
             names_clear (lo_names l) (retry_name (lo_names l)), names_clear (lo_names l) (names_flow (lo_names l) state)}.
          from_str H c = Some c)"

definition signed_in_store :: "http_lib \<Rightarrow> 'm callback_world \<Rightarrow> headers \<Rightarrow> 'c login \<Rightarrow> id_claims \<Rightarrow> string \<Rightarrow> session_store" where
  "signed_in_store H w h l claims i = replace_old (cookie_read H h (session_name (lo_names l)))
     (snd (session_insert (cw_order w) (cw_now w) (cw_wall w) (Some i) (fst (identity_from_claims claims))
       (snd (identity_from_claims claims)) (lo_sessions l)))"

lemma good_callback_answer:
  assumes "good_callback H L P w q h l state f claims i" and "callback_handler H L P w q h l = (a, l')"
  shows "l' = l\<lparr>lo_sessions := signed_in_store H w h l claims i\<rparr>"
    and "ans_status a = SEE_OTHER" and "location_of a = from_str H (return_to f)"
    and "set_cookies a = [names_set (lo_names l) (session_name (lo_names l)) i (as_secs (ttl (lo_sessions l))),
           names_clear (lo_names l) (retry_name (lo_names l)), names_clear (lo_names l) (names_flow (lo_names l) state)]"
proof -
  obtain p c code tokens tok where g: "lo_provider l = Some p" "client p = Some c"
      "q = \<lparr>q_code = Some code, q_state = Some state, q_error = None\<rparr>"
      "opened_flow H L (cw_unix w) l h state = Some f" "has_token_endpoint P c"
      "request_token P c \<lparr>tr_code = code, tr_verifier = pkce_verifier f\<rparr> = Some tokens"
      "id_token P tokens = Some tok" "verify_claims P c tok (nonce f) = Some claims"
    using assms(1) unfolding good_callback_def by blast
  have hd: "from_str H (names_set (lo_names l) (session_name (lo_names l)) i (as_secs (ttl (lo_sessions l))))
        = Some (names_set (lo_names l) (session_name (lo_names l)) i (as_secs (ttl (lo_sessions l))))"
      "from_str H (names_clear (lo_names l) (retry_name (lo_names l))) = Some (names_clear (lo_names l) (retry_name (lo_names l)))"
      "from_str H (names_clear (lo_names l) (names_flow (lo_names l) state)) = Some (names_clear (lo_names l) (names_flow (lo_names l) state))"
      and i: "cw_fresh_id w = Some i"
    using assms(1) unfolding good_callback_def by blast+
  obtain idn auth where ia: "identity_from_claims claims = (idn, auth)" by fastforce
  have ask: "ask_client P (cw_discovery w) l = (Some c, l)"
    using g(1,2) by (simp add: ask_client_def provider_client_def)
  obtain b l1 where b: "complete_sign_in H w h f idn auth l = (b, l1)" by fastforce
  have vs: "valid_state state"
    using g(4) by (auto simp: opened_flow_def split: if_splits)
  have "exchange_and_verify H P w h code f l = (b, l1)"
    using ask g(5-8) ia b by (simp add: exchange_and_verify_def verify_id_token_def)
  then have al: "a = done_answer H (lo_names l) (Some (names_flow (lo_names l) state)) b" "l' = l1"
    using assms(2) g(1,3,4) vs by (simp_all add: callback_handler_def)
  from b show "l' = l\<lparr>lo_sessions := signed_in_store H w h l claims i\<rparr>" "ans_status a = SEE_OTHER"
    "location_of a = from_str H (return_to f)"
    "set_cookies a = [names_set (lo_names l) (session_name (lo_names l)) i (as_secs (ttl (lo_sessions l))),
       names_clear (lo_names l) (retry_name (lo_names l)), names_clear (lo_names l) (names_flow (lo_names l) state)]"
    by (cases rule: complete_cases; use hd i ia in \<open>simp add: al signed_in_store_def gate_simps\<close>)+
qed

lemma signed_in_store_view:
  assumes "session_wf (lo_sessions l)" and "cookie_read H h (session_name (lo_names l)) \<noteq> Some i"
  shows "hm_get (session_map (signed_in_store H w h l claims i)) i =
      Some \<lparr>identity = fst (identity_from_claims claims), auth_time = snd (identity_from_claims claims),
        expires_at = unix_now (cw_wall w) + as_secs (ttl (lo_sessions l)), created = cw_now w, created_wall = cw_wall w\<rparr>"
    and "cookie_read H h (session_name (lo_names l)) = Some old \<Longrightarrow> hm_get (session_map (signed_in_store H w h l claims i)) old = None"
    and "ttl (signed_in_store H w h l claims i) = ttl (lo_sessions l)"
  using assms(2) session_wf_insert[OF assms(1)]
  by (simp_all add: signed_in_store_def replace_old_view insert_lookup_new insert_ttl)

text \<open>What pruning keeps and drops: the first openable cookies in the order given, up to four.\<close>

lemma prune_held_split:
  assumes "\<forall>(name, i) \<in> set hs. from_str H (names_clear n name) = Some (names_clear n name)"
  shows "\<exists>dropped. set_cookies (prune_held H n k hs a) = set_cookies a @ map (\<lambda>(name, _). names_clear n name) dropped
    \<and> filter (\<lambda>(_, i). i \<noteq> None) dropped = drop (4 - k) (filter (\<lambda>(_, i). i \<noteq> None) hs)
    \<and> mset hs = mset (take (4 - k) (filter (\<lambda>(_, i). i \<noteq> None) hs)) + mset dropped"
  using assms
proof (induction hs arbitrary: k a)
  case (Cons p hs)
  obtain name i where p: "p = (name, i)" by fastforce
  have hd: "from_str H (names_clear n name) = Some (names_clear n name)"
    using Cons.prems p by simp
  have tl: "\<forall>(name, i) \<in> set hs. from_str H (names_clear n name) = Some (names_clear n name)"
    using Cons.prems by simp
  show ?case
  proof (cases "i \<noteq> None \<and> k < 4")
    case True
    then have s: "4 - k = Suc (4 - Suc k)" by arith
    obtain dropped where "set_cookies (prune_held H n (Suc k) hs a) = set_cookies a @ map (\<lambda>(name, _). names_clear n name) dropped"
        "filter (\<lambda>(_, i). i \<noteq> None) dropped = drop (4 - Suc k) (filter (\<lambda>(_, i). i \<noteq> None) hs)"
        "mset hs = mset (take (4 - Suc k) (filter (\<lambda>(_, i). i \<noteq> None) hs)) + mset dropped"
      using Cons.IH[OF tl, of "Suc k" a] by blast
    with True show ?thesis
      unfolding s by (intro exI[of _ dropped]) (simp add: p max_flow_cookies_def)
  next
    case False
    obtain dropped where d: "set_cookies (prune_held H n k hs (snd (append_cookie H (names_clear n name) a)))
          = set_cookies a @ [names_clear n name] @ map (\<lambda>(name, _). names_clear n name) dropped"
        "filter (\<lambda>(_, i). i \<noteq> None) dropped = drop (4 - k) (filter (\<lambda>(_, i). i \<noteq> None) hs)"
        "mset hs = mset (take (4 - k) (filter (\<lambda>(_, i). i \<noteq> None) hs)) + mset dropped"
      using Cons.IH[OF tl, of k "snd (append_cookie H (names_clear n name) a)"] hd by (auto simp: gate_simps)
    have "i = None \<or> 4 - k = 0" using False by auto
    with d False show ?thesis
      by (intro exI[of _ "(name, i) # dropped"]) (auto simp: p max_flow_cookies_def)
  qed
qed simp

lemma sorted_take_drop: "sorted xs \<Longrightarrow> x \<in> set (take n xs) \<Longrightarrow> y \<in> set (drop n xs) \<Longrightarrow> x \<le> y"
  using sorted_append[of "take n xs" "drop n xs"] by auto

lemma prune_keeps_newest:
  assumes "\<forall>(name, i) \<in> set (held_flows H L l h). from_str H (names_clear (lo_names l) name) = Some (names_clear (lo_names l) name)"
  obtains kept dropped where "mset (held_flows H L l h) = mset kept + mset dropped" "length kept \<le> 4"
    "set_cookies (prune_flow_cookies H L l h a) = set_cookies a @ map (\<lambda>(name, _). names_clear (lo_names l) name) dropped"
    "\<forall>(name, i) \<in> set kept. i \<noteq> None"
    "\<forall>(name, i) \<in> set dropped. i \<noteq> None \<longrightarrow> length kept = 4 \<and> (\<forall>(_, j) \<in> set kept. i \<le> j)"
proof -
  let ?key = "\<lambda>(_ :: string, i). Reverse i"
  define hs where "hs = sort_key ?key (held_flows H L l h)"
  define op where "op = filter (\<lambda>(_, i). i \<noteq> None) hs"
  have hs: "\<forall>(name, i) \<in> set hs. from_str H (names_clear (lo_names l) name) = Some (names_clear (lo_names l) name)"
    and ms: "mset hs = mset (held_flows H L l h)"
    using assms by (simp_all add: hs_def)
  obtain dropped where d: "set_cookies (prune_held H (lo_names l) 0 hs a) = set_cookies a @ map (\<lambda>(name, _). names_clear (lo_names l) name) dropped"
      "filter (\<lambda>(_, i). i \<noteq> None) dropped = drop 4 op" "mset hs = mset (take 4 op) + mset dropped"
    using prune_held_split[OF hs, of 0 a] by (auto simp: op_def)
  have sorted: "sorted (map ?key op)"
    unfolding op_def hs_def by (intro sorted_filter) simp
  have open_kept: "\<forall>(name, i) \<in> set (take 4 op). i \<noteq> None"
    unfolding op_def by (auto dest!: in_set_takeD)
  have newest: "length (take 4 op) = 4 \<and> (\<forall>(_, j) \<in> set (take 4 op). i \<le> j)"
    if m: "(name, i) \<in> set dropped" "i \<noteq> None" for name i
  proof -
    have "(name, i) \<in> set (filter (\<lambda>(_, i). i \<noteq> None) dropped)"
      using m by simp
    then have dr: "(name, i) \<in> set (drop 4 op)"
      by (simp only: d(2))
    then have len: "4 \<le> length op"
      by (cases "4 \<le> length op") simp_all
    have r: "Reverse i \<in> set (drop 4 (map ?key op))"
      unfolding drop_map set_map by (rule rev_image_eqI[OF dr]) simp
    have "i \<le> j" if "(name', j) \<in> set (take 4 op)" for name' j
    proof -
      have "Reverse j \<in> set (take 4 (map ?key op))"
        unfolding take_map set_map by (rule rev_image_eqI[OF that]) simp
      from sorted_take_drop[OF sorted this r] show ?thesis by simp
    qed
    with len show ?thesis by auto
  qed
  show thesis
  proof (rule that[of "take 4 op" dropped])
    show "mset (held_flows H L l h) = mset (take 4 op) + mset dropped"
      using d(3) ms by simp
    show "set_cookies (prune_flow_cookies H L l h a) = set_cookies a @ map (\<lambda>(name, _). names_clear (lo_names l) name) dropped"
      using d(1) by (simp add: prune_flow_cookies_def hs_def)
    show "\<forall>(name, i) \<in> set dropped. i \<noteq> None \<longrightarrow> length (take 4 op) = 4 \<and> (\<forall>(_, j) \<in> set (take 4 op). i \<le> j)"
      using newest by blast
  qed (use open_kept in simp_all)
qed

text \<open>A sign-in that starts: the redirect to the provider and the sealed flow.\<close>

definition started_flow :: "('c, 'm, 'r, 'tok, 'idt) oidc_lib \<Rightarrow> 'r \<Rightarrow> login_query \<Rightarrow> flow" where
  "started_flow P r q = \<lparr>pkce_verifier = snd (new_pkce P r), nonce = new_nonce P r,
     return_to = safe_return_to (q_return_to q), step_up = (q_step_up q = Some ''1'')\<rparr>"

definition started_params :: "('c, 'm, 'r, 'tok, 'idt) oidc_lib \<Rightarrow> 'r \<Rightarrow> string list \<Rightarrow> bool \<Rightarrow> auth_params" where
  "started_params P r scs step = \<lparr>ap_state = new_csrf P r, ap_nonce = new_nonce P r, ap_scopes = scs,
     ap_prompt_login = step, ap_max_age = (if step then Some 0 else None), ap_challenge = fst (new_pkce P r)\<rparr>"

lemma login_started:
  assumes "login_handler H L P w q h l = (a, l')" and "lo_provider l = Some p" and "ans_status a = SEE_OTHER"
  obtains c val where "seal L (lo_flows l) (lw_unix w) (lw_seal_nonce w) (new_csrf P (lw_random w)) (started_flow P (lw_random w) q) = Some val"
    "from_str H (names_set (lo_names l) (names_flow (lo_names l) (new_csrf P (lw_random w))) val (as_secs flow_ttl)) \<noteq> None"
    "a = snd (append_cookie H (names_set (lo_names l) (names_flow (lo_names l) (new_csrf P (lw_random w))) val (as_secs flow_ttl))
       (prune_flow_cookies H L l h (redirect H (authorize_url P c (started_params P (lw_random w) (scopes p) (q_step_up q = Some ''1''))))))"
    "lo_names l' = lo_names l" "lo_flows l' = lo_flows l" "lo_sessions l' = lo_sessions l"
proof -
  obtain oc l1 where ask: "ask_client P (lw_discovery w) l = (oc, l1)" by fastforce
  have l1: "lo_names l1 = lo_names l" "lo_flows l1 = lo_flows l" "lo_sessions l1 = lo_sessions l"
    using ask_client_keeps(1-3)[of P "lw_discovery w" l] by (simp_all add: ask)
  have prune: "prune_flow_cookies H L l1 h b = prune_flow_cookies H L l h b" for b
    unfolding prune_flow_cookies_def held_flows_def by (simp only: l1)
  obtain ch ver where pk: "new_pkce P (lw_random w) = (ch, ver)" by fastforce
  show thesis
  proof (cases oc)
    case None
    with assms ask show thesis by (auto simp: login_handler_def gate_simps)
  next
    case (Some c)
    let ?f = "started_flow P (lw_random w) q" and ?st = "new_csrf P (lw_random w)"
    let ?b = "prune_flow_cookies H L l h (redirect H (authorize_url P c (started_params P (lw_random w) (scopes p) (q_step_up q = Some ''1''))))"
    let ?k = "\<lambda>val. names_set (lo_names l) (names_flow (lo_names l) ?st) val (as_secs flow_ttl)"
    have res: "(a, l') = (case seal L (lo_flows l) (lw_unix w) (lw_seal_nonce w) ?st ?f of
         None \<Rightarrow> (text_answer INTERNAL_SERVER_ERROR ''Sign-in could not start. [flow-seal]'', l1)
       | Some val \<Rightarrow> (case append_cookie H (?k val) ?b of
           (True, a) \<Rightarrow> (a, l1)
         | (False, _) \<Rightarrow> (text_answer INTERNAL_SERVER_ERROR ''Sign-in could not start. [flow-cookie]'', l1)))"
      using assms(1)[symmetric]
      unfolding login_handler_def Let_def assms(2) option.case ask Some prod.case pk l1(1,2) prune
        started_flow_def started_params_def fst_conv snd_conv .
    then obtain val where val: "seal L (lo_flows l) (lw_unix w) (lw_seal_nonce w) ?st ?f = Some val"
      using assms(3) by (cases "seal L (lo_flows l) (lw_unix w) (lw_seal_nonce w) ?st ?f") (auto simp: gate_simps)
    obtain ok a1 where ap: "append_cookie H (?k val) ?b = (ok, a1)" by fastforce
    from res val ap assms(3) have ok: ok and al: "a = a1" "l' = l1"
      by (cases ok; simp add: gate_simps)+
    with ap have "from_str H (?k val) \<noteq> None" "a = snd (append_cookie H (?k val) ?b)"
      using append_cookie_cases[of H "?k val" ?b ok a1] by auto
    from that[OF val this] show thesis by (simp add: al l1)
  qed
qed

section \<open>A concrete provider, browser and sign-in\<close>

definition an_oidc :: "(unit, unit, unit, unit, unit) oidc_lib" where
  "an_oidc = \<lparr>build = \<lambda>_ _ _. (), new_pkce = \<lambda>_. (''challenge'', ''verifier''), new_csrf = \<lambda>_. ''abcdefghijklmnop'',
     new_nonce = \<lambda>_. ''nonce'', authorize_url = \<lambda>_ _. ''https://idp/auth'', has_token_endpoint = \<lambda>_. True,
     request_token = \<lambda>_ r. if r = \<lparr>tr_code = ''code'', tr_verifier = ''verifier''\<rparr> then Some () else None, id_token = Some,
     verify_claims = \<lambda>_ _ n. if n = ''nonce'' then Some \<lparr>ic_subject = ''ada'', ic_email = None, ic_name = None, ic_auth_time = Some 40\<rparr> else None,
     form_serialize = \<lambda>ps. if ps = [] then [] else ''query''\<rparr>"

definition a_flow :: flow where
  "a_flow = \<lparr>pkce_verifier = ''verifier'', nonce = ''nonce'', return_to = ''/app'', step_up = False\<rparr>"

definition a_flow_value :: string where
  "a_flow_value = ''nnnnnnnnnnnnnnnnnnnnnnnnc''"

definition a_flow_lib :: flow_lib where
  "a_flow_lib = \<lparr>url_b64_encode = \<lambda>x. x, url_b64_decode = Some, aead_encrypt = \<lambda>k n a m. Some ''c'',
     aead_decrypt = \<lambda>k n a c. if a = ''abcdefghijklmnop'' \<and> c = ''c'' then Some ''json'' else None,
     sealed_to_json = \<lambda>_. Some ''json'', sealed_from_json = \<lambda>_. Some (sealed_of a_flow 20)\<rparr>"

definition a_login :: "unit login" where
  "a_login = sample_login\<lparr>lo_provider := Some ((provider_new ''iss'' ''cid'' ''cb'' [''openid''])\<lparr>client := Some ()\<rparr>)\<rparr>"

definition no_discovery :: "unit discovery" where
  "no_discovery = \<lparr>is_refresh = False, locked_at = 0, done_at = 0, answer = None\<rparr>"

definition a_world :: "unit callback_world" where
  "a_world = \<lparr>cw_unix = 50, cw_discovery = no_discovery, cw_refresh = no_discovery, cw_again = no_discovery,
     cw_order = \<lambda>m. m, cw_now = 9, cw_wall = 50000000000, cw_fresh_id = Some ''new''\<rparr>"

definition a_query :: callback_query where
  "a_query = \<lparr>q_code = Some ''code'', q_state = Some ''abcdefghijklmnop'', q_error = None\<rparr>"

definition browser :: "(string \<times> string) list \<Rightarrow> headers" where
  "browser ps = [(''origin'', ''https://x''), (''cookie'', cookie_header ps)]"

definition its_cookies :: "(string \<times> string) list" where
  "its_cookies = [(''__Host-session'', ''s''), (''__Host-login-flow-abcdefghijklmnop'', a_flow_value)]"

lemma browser_cookies:
  assumes "ps \<noteq> []" and "\<forall>(k, v) \<in> set ps. cookie_name_safe k \<and> cookie_value_safe v"
  shows "cookie_pairs plain_http (browser ps) = ps" and "cookie_read plain_http (browser ps) name = map_of ps name"
proof -
  have "header_get_all (browser ps) ''cookie'' = map cookie_header [ps]"
    by (simp add: browser_def header_get_all_def)
  from cookie_jar[OF this, of plain_http] assms
  show "cookie_pairs plain_http (browser ps) = ps" and "cookie_read plain_http (browser ps) name = map_of ps name"
    by simp_all
qed

lemmas safe_defs = cookie_name_safe_def cookie_value_safe_def no_blank_def byte_def is_whitespace_def

lemma its_cookies_safe: "its_cookies \<noteq> []" "\<forall>(k, v) \<in> set its_cookies. cookie_name_safe k \<and> cookie_value_safe v"
  by (simp_all add: its_cookies_def a_flow_value_def safe_defs)

lemmas its_cookies_read = browser_cookies[OF its_cookies_safe]

lemma a_state_valid: "valid_state ''abcdefghijklmnop''"
  by (simp add: valid_state_def is_ascii_alphanumeric_def byte_def)

lemma a_login_simps [simp]:
  "lo_names a_login = names_new True" "lo_sessions a_login = lo_sessions sample_login" "lo_flows a_login = \<lparr>cipher_key = ''k''\<rparr>"
  "lo_provider a_login = Some ((provider_new ''iss'' ''cid'' ''cb'' [''openid''])\<lparr>client := Some ()\<rparr>)" "lo_origin a_login = ''https://x''"
  by (simp_all add: a_login_def sample_login_def)

lemma a_login_wf: "session_wf (lo_sessions a_login)"
  by (simp add: sample_login_def session_wf_def hm_wf_def)

lemma a_flow_opens: "flow_open a_flow_lib \<lparr>cipher_key = ''k''\<rparr> 50 ''abcdefghijklmnop'' a_flow_value = Some a_flow"
  by (simp add: flow_open_def open_raw_def a_flow_lib_def a_flow_value_def flow_ttl_secs saturating_sub_def sealed_of_def a_flow_def)

lemma a_flow_opened: "opened_flow plain_http a_flow_lib 50 a_login (browser its_cookies) ''abcdefghijklmnop'' = Some a_flow"
  by (simp add: opened_flow_def a_state_valid its_cookies_read names_new_def names_flow_def) (simp add: its_cookies_def a_flow_opens)

definition the_claims :: id_claims where
  "the_claims = \<lparr>ic_subject = ''ada'', ic_email = None, ic_name = None, ic_auth_time = Some 40\<rparr>"

lemma a_callback_good:
  "good_callback plain_http a_flow_lib an_oidc a_world a_query (browser its_cookies) a_login ''abcdefghijklmnop'' a_flow the_claims ''new''"
  using a_login_wf a_flow_opened
  by (simp add: good_callback_def a_query_def a_world_def an_oidc_def a_flow_def the_claims_def)

lemma browser_session: "cookie_read plain_http (browser its_cookies) (session_name (lo_names a_login)) = Some ''s''"
  by (simp add: its_cookies_read names_new_def) (simp add: its_cookies_def)

section \<open>Properties\<close>

text \<open>
  Every answer of the four handlers, on every branch, carries exactly one \<open>Cache-Control\<close>, and it is
  \<open>no-store\<close>: sign-in responses hold cookies and one-time redirects.\<close>

theorem auth_answers_are_never_cached:
  "never_cached (fst (login_handler H L P lw lq h l)) \<and> never_cached (fst (callback_handler H L P cw cq h l))
   \<and> never_cached (fst (logout_handler H h l)) \<and> never_cached (fst (me_handler H now h l))"
proof (intro conjI)
  show "never_cached (fst (login_handler H L P lw lq h l))"
    by (auto simp: login_handler_def gate_simps append_cookie_cases Let_def split: option.splits prod.splits bool.splits)
  show "never_cached (fst (callback_handler H L P cw cq h l))"
    using exchange_cached[of H P cw h] 
    by (auto simp: callback_handler_def gate_simps Let_def split: option.splits prod.splits) (metis fst_conv)+
  show "never_cached (fst (logout_handler H h l))"
    by (simp add: logout_handler_def gate_simps)
  show "never_cached (fst (me_handler H now h l))"
    by (simp add: me_handler_def gate_simps split: prod.splits)
qed

text \<open>C2
  A session is created only for the browser that started the sign-in, and only for whom the provider
  vouched: whenever a callback leaves a session that was not there, its id is the one freshly
  generated, the request carried the sealed flow of its state, that flow was sealed by this process
  for this state less than 30 minutes ago, the code was exchanged with the flow's PKCE verifier, and
  the session's identity and authentication time are those of an ID token verified against the flow's
  nonce.\<close>

theorem sessions_need_this_browsers_verified_flow:
  assumes "callback_handler H L P w q h l = (a, l')" and "session_wf (lo_sessions l)" and "lo_provider l \<noteq> None"
    and "only_sealings_decrypt L (cipher_key (lo_flows l)) sealings"
    and "\<forall>(st, f, t) \<in> set sealings. \<forall>j. sealed_to_json L (sealed_of f t) = Some j \<longrightarrow> sealed_from_json L j = Some (sealed_of f t)"
    and "hm_get (session_map (lo_sessions l')) i = Some x" and "hm_get (session_map (lo_sessions l)) i \<noteq> Some x"
  shows "cw_fresh_id w = Some i \<and> ans_status a = SEE_OTHER
    \<and> (\<exists>f state t. verified_sign_in H L P (cw_unix w) q h l f (identity x) (auth_time x) \<and> q_state q = Some state
        \<and> (state, f, t) \<in> set sealings \<and> unat (cw_unix w) - unat t < 1800)"
proof -
  from callback_outcome[OF assms(1,3)] assms(6,7)
  obtain f idn auth l2 b state where v: "verified_sign_in H L P (cw_unix w) q h l f idn auth" "q_state q = Some state"
      and l2: "lo_sessions l2 = lo_sessions l" "lo_names l2 = lo_names l"
      and c: "complete_sign_in H w h f idn auth l2 = (b, l')"
      and a: "a = done_answer H (lo_names l) (Some (names_flow (lo_names l) state)) b"
    by auto
  have "cw_fresh_id w = Some i \<and> identity x = idn \<and> auth_time x = auth \<and> ans_status b = SEE_OTHER"
    using complete_adds_one[OF c, unfolded l2, OF assms(2,6,7)] by blast
  moreover from v obtain val where "flow_open L (lo_flows l) (cw_unix w) state val = Some f"
    unfolding verified_sign_in_def by auto
  ultimately show ?thesis
    using v opened_was_sealed[OF assms(4,5)] by (auto simp: a gate_simps)
qed

theorem sessions_need_this_browsers_verified_flow_witness:
  "\<exists>a l' x. callback_handler plain_http a_flow_lib an_oidc a_world a_query (browser its_cookies) a_login = (a, l')
     \<and> hm_get (session_map (lo_sessions l')) ''new'' = Some x
     \<and> (\<exists>f. verified_sign_in plain_http a_flow_lib an_oidc 50 a_query (browser its_cookies) a_login f (identity x) (auth_time x))"
proof -
  obtain a l' where e: "callback_handler plain_http a_flow_lib an_oidc a_world a_query (browser its_cookies) a_login = (a, l')"
    by fastforce
  have n: "cookie_read plain_http (browser its_cookies) (session_name (lo_names a_login)) \<noteq> Some ''new''"
    by (simp only: browser_session) simp
  obtain x where x: "hm_get (session_map (lo_sessions l')) ''new'' = Some x"
    using good_callback_answer(1)[OF a_callback_good e] signed_in_store_view(1)[OF a_login_wf n, of a_world the_claims] by simp
  have old: "hm_get (session_map (lo_sessions a_login)) ''new'' \<noteq> Some x"
    by (simp add: sample_login_def hm_get_def)
  have p: "lo_provider a_login \<noteq> None" by simp
  have only: "only_sealings_decrypt a_flow_lib (cipher_key (lo_flows a_login)) [(''abcdefghijklmnop'', a_flow, 20)]"
    by (simp add: only_sealings_decrypt_def a_flow_lib_def)
  have parses: "\<forall>(st, f, t) \<in> set [(''abcdefghijklmnop'', a_flow, 20)]. \<forall>j. sealed_to_json a_flow_lib (sealed_of f t) = Some j
      \<longrightarrow> sealed_from_json a_flow_lib j = Some (sealed_of f t)"
    by (simp add: a_flow_lib_def)
  from sessions_need_this_browsers_verified_flow[OF e a_login_wf p only parses x old] e x show ?thesis
    by (auto simp: a_world_def)
qed

text \<open>C9
  A sign-in that succeeds signs the user in: the answer is a redirect to the flow's destination that
  sets the session cookie for the session's lifetime and clears the retry marker and the used flow;
  from then until the lifetime ends a request with that cookie, from a page of ours, is the verified
  subject; and the session it replaces is gone.\<close>

theorem sign_in_round_trip:
  assumes "good_callback H L P w q h l state f claims i" and "callback_handler H L P w q h l = (a, l')"
    and "cookie_read H h (session_name (lo_names l)) \<noteq> Some i"
    and "cookie_read H (p_headers r) (session_name (lo_names l)) = Some i" and "cookie_counts r (lo_origin l)"
  shows "ans_status a = SEE_OTHER \<and> location_of a = from_str H (return_to f)
    \<and> set_cookies a = [names_set (lo_names l) (session_name (lo_names l)) i (as_secs (ttl (lo_sessions l))),
         names_clear (lo_names l) (retry_name (lo_names l)), names_clear (lo_names l) (names_flow (lo_names l) state)]
    \<and> fst (authenticate H t r l') = (if t - cw_now w < ttl (lo_sessions l)
        then Some (Inr \<lparr>cl_sub = ic_subject claims, cl_email = ic_email claims,
               cl_exp = unix_now (cw_wall w) + as_secs (ttl (lo_sessions l)), cl_auth_time = snd (identity_from_claims claims)\<rparr>)
        else None)
    \<and> (\<forall>old. cookie_read H h (session_name (lo_names l)) = Some old \<longrightarrow> hm_get (session_map (lo_sessions l')) old = None)"
proof -
  note ans = good_callback_answer[OF assms(1,2)]
  have wf: "session_wf (lo_sessions l)"
    using assms(1) by (simp add: good_callback_def)
  note st = signed_in_store_view[OF wf assms(3)]
  show ?thesis
    using ans(2-4) assms(4,5)
    by (simp add: st ans(1) authenticate_result session_behind_def live_def elapsed_def claims_of_session_def identity_from_claims_def)
qed

theorem sign_in_round_trip_witness:
  "\<exists>a l' c. callback_handler plain_http a_flow_lib an_oidc a_world a_query (browser its_cookies) a_login = (a, l')
     \<and> location_of a = Some ''/app''
     \<and> fst (authenticate plain_http 12 \<lparr>p_method = POST, p_headers = browser [(''__Host-session'', ''new'')]\<rparr> l') = Some (Inr c)
     \<and> cl_sub c = ''ada'' \<and> cl_auth_time c = Some 40"
proof -
  obtain a l' where e: "callback_handler plain_http a_flow_lib an_oidc a_world a_query (browser its_cookies) a_login = (a, l')"
    by fastforce
  have n: "cookie_read plain_http (browser its_cookies) (session_name (lo_names a_login)) \<noteq> Some ''new''"
    by (simp only: browser_session) simp
  let ?r = "\<lparr>p_method = POST, p_headers = browser [(''__Host-session'', ''new'')]\<rparr>"
  have r: "cookie_read plain_http (p_headers ?r) (session_name (lo_names a_login)) = Some ''new''"
    using browser_cookies(2)[of "[(''__Host-session'', ''new'')]"] by (simp add: safe_defs names_new_def)
  have o: "cookie_counts ?r (lo_origin a_login)"
    by (simp add: cookie_counts_def own_page_def browser_def header_get_def)
  from sign_in_round_trip[OF a_callback_good e n r o, of 12] e show ?thesis
    by (auto simp: a_world_def a_flow_def the_claims_def identity_from_claims_def sample_login_def)
qed

text \<open>C17
  A sign-in that fails never logs the user out: unless the callback redirects to the flow's
  destination with a new session cookie, every session is exactly as it was, provided only that the
  session cookie is a valid header value.\<close>

theorem failed_sign_in_keeps_every_session:
  assumes "callback_handler H L P w q h l = (a, l')" and "lo_provider l \<noteq> None"
    and "\<forall>i. cw_fresh_id w = Some i \<longrightarrow> from_str H (names_set (lo_names l) (session_name (lo_names l)) i (as_secs (ttl (lo_sessions l)))) \<noteq> None"
  shows "lo_sessions l' = lo_sessions l
    \<or> (\<exists>f idn auth i v rest. verified_sign_in H L P (cw_unix w) q h l f idn auth \<and> cw_fresh_id w = Some i
        \<and> ans_status a = SEE_OTHER \<and> location_of a = from_str H (return_to f) \<and> set_cookies a = v # rest
        \<and> from_str H (names_set (lo_names l) (session_name (lo_names l)) i (as_secs (ttl (lo_sessions l)))) = Some v)"
proof (cases "lo_sessions l' = lo_sessions l")
  case False
  with callback_outcome[OF assms(1,2)]
  obtain f idn auth l2 b state where v: "verified_sign_in H L P (cw_unix w) q h l f idn auth"
      and l2: "lo_sessions l2 = lo_sessions l" "lo_names l2 = lo_names l"
      and c: "complete_sign_in H w h f idn auth l2 = (b, l')"
      and a: "a = done_answer H (lo_names l) (Some (names_flow (lo_names l) state)) b"
    by auto
  from c show ?thesis
  proof (cases rule: complete_cases)
    case no_id
    with False l2 show ?thesis by simp
  next
    case (no_cookie i ss)
    with assms(3) l2 show ?thesis by simp
  next
    case (signed i ss s)
    then have "set_cookies a = s # tl (set_cookies a)"
      by (simp add: a gate_simps)
    with signed v l2 show ?thesis
      by (auto simp: a gate_simps)
  qed
qed simp

theorem failed_sign_in_keeps_every_session_witness:
  "lo_sessions (snd (callback_handler plain_http a_flow_lib (an_oidc\<lparr>request_token := \<lambda>_ _. None\<rparr>) a_world a_query
     (browser its_cookies) a_login)) = lo_sessions a_login"
proof -
  let ?P = "an_oidc\<lparr>request_token := \<lambda>_ _. None\<rparr>"
  obtain a l' where e: "callback_handler plain_http a_flow_lib ?P a_world a_query (browser its_cookies) a_login = (a, l')"
    by fastforce
  have "\<not> verified_sign_in plain_http a_flow_lib ?P u q h l f idn auth" for u q h f idn auth and l :: "unit login"
    by (simp add: verified_sign_in_def)
  then show ?thesis
    using failed_sign_in_keeps_every_session[OF e] by (simp add: e)
qed

text \<open>C18
  A failing sign-in is started again once, the same one, and cannot bounce the browser for ever. Whenever a callback
  fails recoverably (its flow does not open, the provider cannot be asked, the token request fails, or the ID token
  does not verify), a browser without the retry marker is sent to start again, to the destination and with the
  step-up of the flow that opened, and gets the marker for 300 seconds; one that carries the marker is refused
  with 403 and no redirect, whatever the failure. Either way the flow's cookie is cleared. And without such a failure
  no callback answers 403, and the only redirect is that of a verified sign-in, to its flow's destination, which
  clears the marker.\<close>

theorem no_redirect_loop:
  assumes "callback_handler H L P w q h l = (a, l')" and "lo_provider l \<noteq> None"
    and "\<forall>pairs. form_serialize P pairs = [] \<longleftrightarrow> pairs = []"
    and "from_str H (names_set (lo_names l) (retry_name (lo_names l)) ''1'' 300) = Some marker"
    and "from_str H (names_clear (lo_names l) (retry_name (lo_names l))) = Some unmark"
  shows "(\<forall>again. failed_recoverably H L P w q h l again \<longrightarrow>
      (\<exists>cleared. cleared = (case flow_cookie_of (lo_names l) q of None \<Rightarrow> []
            | Some name \<Rightarrow> (case from_str H (names_clear (lo_names l) name) of Some v \<Rightarrow> [v] | None \<Rightarrow> []))
        \<and> (if cookie_read H h (retry_name (lo_names l)) = None
           then ans_status a = SEE_OTHER \<and> set_cookies a = marker # cleared
             \<and> location_of a = from_str H (case again of None \<Rightarrow> ''/auth/login''
                 | Some f \<Rightarrow> ''/auth/login?'' @ form_serialize P ((''returnTo'', return_to f) # (if step_up f then [(''stepUp'', ''1'')] else [])))
           else ans_status a = FORBIDDEN \<and> set_cookies a = cleared \<and> location_of a = None)))
    \<and> ((\<nexists>again. failed_recoverably H L P w q h l again) \<longrightarrow> ans_status a \<noteq> FORBIDDEN
        \<and> (ans_status a = SEE_OTHER \<longrightarrow> (\<exists>f idn auth. verified_sign_in H L P (cw_unix w) q h l f idn auth
             \<and> location_of a = from_str H (return_to f) \<and> unmark \<in> set (set_cookies a))))"
proof -
  have secs: "as_secs retry_ttl = 300"
    by (simp add: as_secs_def retry_ttl_def from_secs_def nanos_per_sec_def)
  have one: "failed_recoverably H L P w q h l x \<Longrightarrow> failed_recoverably H L P w q h l y \<Longrightarrow> x = y" for x y
    by (auto simp: failed_recoverably_def)
  from assms(1,2) show ?thesis
  proof (cases rule: callback_cases)
    case refused
    then show ?thesis by auto
  next
    case (restarts again reason)
    then have "failed_recoverably H L P w q h l x \<longleftrightarrow> x = again" for x
      using one by blast
    then show ?thesis
      by (cases again) (simp_all add: restarts(3) restart_or_refuse_def gate_simps Let_def assms(3,4) secs)
  next
    case (verified f idn auth l2 b state)
    from verified(6) have "ans_status b \<noteq> FORBIDDEN \<and> (ans_status b = SEE_OTHER \<longrightarrow> location_of b = from_str H (return_to f) \<and> unmark \<in> set (set_cookies b))"
      by (cases rule: complete_cases) (auto simp: verified(5) assms(5))
    with verified show ?thesis by (auto simp: gate_simps)
  qed
qed

theorem no_redirect_loop_witness:
  "\<exists>a l'. callback_handler plain_http a_flow_lib (an_oidc\<lparr>request_token := \<lambda>_ _. None\<rparr>) a_world a_query (browser its_cookies) a_login = (a, l')
   \<and> ans_status a = SEE_OTHER \<and> location_of a = Some ''/auth/login?query''"
proof -
  let ?P = "an_oidc\<lparr>request_token := \<lambda>_ _. None\<rparr>"
  obtain a l' where e: "callback_handler plain_http a_flow_lib ?P a_world a_query (browser its_cookies) a_login = (a, l')"
    by fastforce
  have p: "lo_provider a_login \<noteq> None" by simp
  have ser: "\<forall>pairs. form_serialize ?P pairs = [] \<longleftrightarrow> pairs = []" by (simp add: an_oidc_def)
  have n: "cookie_read plain_http (browser its_cookies) (retry_name (lo_names a_login)) = None"
    by (simp add: its_cookies_read names_new_def) (simp add: its_cookies_def)
  have "cw_unix a_world = 50" by (simp add: a_world_def)
  then have f: "failed_recoverably plain_http a_flow_lib ?P a_world a_query (browser its_cookies) a_login (Some a_flow)"
    by (simp add: failed_recoverably_def a_query_def a_flow_opened exchange_fails_def ask_client_def provider_client_def an_oidc_def)
  from no_redirect_loop[OF e p ser refl[THEN trans[rotated]] refl[THEN trans[rotated]]] f n e show ?thesis
    by (auto simp: an_oidc_def)
qed

text \<open>C19
  A browser never holds more than five sign-in cookies of ours: the answer that starts a sign-in sets
  one and clears, of those the request showed, all but at most four; those left still open, and none
  that was dropped while it still opened is newer than one left.\<close>

theorem sign_in_cookies_are_bounded:
  assumes "login_handler H L P w q h l = (a, l')" and "lo_provider l \<noteq> None" and "ans_status a = SEE_OTHER"
    and "\<forall>c. from_str H c \<noteq> None \<longrightarrow> from_str H c = Some c"
    and "\<forall>(name, i) \<in> set (held_flows H L l h). from_str H (names_clear (lo_names l) name) \<noteq> None"
  shows "\<exists>kept dropped new. mset (held_flows H L l h) = mset kept + mset dropped \<and> length kept + 1 \<le> 5
    \<and> set_cookies a = map (\<lambda>(name, _). names_clear (lo_names l) name) dropped @ [new]
    \<and> (\<forall>(name, i) \<in> set kept. i \<noteq> None)
    \<and> (\<forall>(name, i) \<in> set dropped. i \<noteq> None \<longrightarrow> length kept = 4 \<and> (\<forall>(_, j) \<in> set kept. i \<le> j))"
proof -
  obtain p where p: "lo_provider l = Some p" using assms(2) by blast
  obtain c u where c: "from_str H c \<noteq> None" and a: "a = snd (append_cookie H c (prune_flow_cookies H L l h (redirect H u)))"
    by (rule login_started[OF assms(1) p assms(3)])
  have clear: "\<forall>(name, i) \<in> set (held_flows H L l h). from_str H (names_clear (lo_names l) name) = Some (names_clear (lo_names l) name)"
    using assms(4,5) by fast
  obtain kept dropped where k: "mset (held_flows H L l h) = mset kept + mset dropped" "length kept \<le> 4"
      "set_cookies (prune_flow_cookies H L l h (redirect H u)) = set_cookies (redirect H u) @ map (\<lambda>(name, _). names_clear (lo_names l) name) dropped"
      "\<forall>(name, i) \<in> set kept. i \<noteq> None"
      "\<forall>(name, i) \<in> set dropped. i \<noteq> None \<longrightarrow> length kept = 4 \<and> (\<forall>(_, j) \<in> set kept. i \<le> j)"
    by (rule prune_keeps_newest[OF clear])
  have "set_cookies a = map (\<lambda>(name, _). names_clear (lo_names l) name) dropped @ [c]"
    using assms(4) c k(3) by (auto simp: a gate_simps)
  with k show ?thesis
    by (intro exI[of _ kept] exI[of _ dropped] exI[of _ c]) simp
qed

definition a_login_query :: login_query where
  "a_login_query = \<lparr>q_return_to = Some ''/app'', q_step_up = None\<rparr>"

definition a_login_world :: "(unit, unit) login_world" where
  "a_login_world = \<lparr>lw_discovery = no_discovery, lw_random = (), lw_unix = 20, lw_seal_nonce = Some (replicate 24 CHR ''n'')\<rparr>"

lemma a_login_answer: "ans_status (fst (login_handler plain_http a_flow_lib an_oidc a_login_world a_login_query (browser its_cookies) a_login)) = SEE_OTHER"
  by (simp add: login_handler_def ask_client_def provider_client_def a_login_world_def seal_def a_flow_lib_def an_oidc_def
      append_cookie_def gate_simps)

theorem sign_in_cookies_are_bounded_witness:
  "\<exists>a l' (dropped :: held_flow list) new. login_handler plain_http a_flow_lib an_oidc a_login_world a_login_query (browser its_cookies) a_login = (a, l')
     \<and> set_cookies a = map (\<lambda>(name, _). names_clear (lo_names a_login) name) dropped @ [new]"
proof -
  obtain a l' where e: "login_handler plain_http a_flow_lib an_oidc a_login_world a_login_query (browser its_cookies) a_login = (a, l')"
    by fastforce
  have s: "ans_status a = SEE_OTHER" using a_login_answer by (simp add: e)
  have p: "lo_provider a_login \<noteq> None" by simp
  have h: "\<forall>c. from_str plain_http c \<noteq> None \<longrightarrow> from_str plain_http c = Some c" by simp
  have c: "\<forall>(name, i) \<in> set (held_flows plain_http a_flow_lib a_login (browser its_cookies)).
      from_str plain_http (names_clear (lo_names a_login) name) \<noteq> None" by simp
  from sign_in_cookies_are_bounded[OF e p s h c]
  obtain dropped :: "held_flow list" and new where "set_cookies a = map (\<lambda>(name, _). names_clear (lo_names a_login) name) dropped @ [new]"
    by (elim exE conjE) (rule that, assumption+)
  with e show ?thesis by (intro exI conjI)
qed

text \<open>C10
  A sign-in that was started can be finished: the answer sends the browser to the provider with the
  state, nonce and PKCE challenge just made, and sets last the cookie named for that state; when a
  callback within 30 minutes brings it back, it opens to exactly the verifier behind the challenge, the
  nonce sent, the checked destination and the step-up asked for.\<close>

theorem started_sign_in_can_be_finished:
  assumes "login_handler H L P w q h l = (a, l')" and "lo_provider l = Some p" and "ans_status a = SEE_OTHER"
    and "\<forall>c. from_str H c \<noteq> None \<longrightarrow> from_str H c = Some c"
    and "lw_seal_nonce w = Some nc" and "length nc = 24" and "valid_state state" and "state = new_csrf P (lw_random w)"
    and "f = \<lparr>pkce_verifier = snd (new_pkce P (lw_random w)), nonce = new_nonce P (lw_random w),
               return_to = safe_return_to (q_return_to q), step_up = (q_step_up q = Some ''1'')\<rparr>"
    and "flow_lib_inverse L (cipher_key (lo_flows l)) (sealed_of f (lw_unix w))"
  shows "\<exists>c val. location_of a = from_str H (authorize_url P c
        \<lparr>ap_state = state, ap_nonce = nonce f, ap_scopes = scopes p, ap_prompt_login = step_up f,
         ap_max_age = (if step_up f then Some 0 else None), ap_challenge = fst (new_pkce P (lw_random w))\<rparr>)
    \<and> last (set_cookies a) = names_set (lo_names l) (names_flow (lo_names l) state) val 1800
    \<and> (\<forall>h' unix. cookie_read H h' (names_flow (lo_names l) state) = Some val \<longrightarrow>
         opened_flow H L unix l' h' state = (if unat unix - unat (lw_unix w) < 1800 then Some f else None))"
proof -
  have f: "f = started_flow P (lw_random w) q"
    by (simp add: assms(9) started_flow_def)
  note st = assms(8)[symmetric]
  obtain c val where r: "seal L (lo_flows l) (lw_unix w) (lw_seal_nonce w) (new_csrf P (lw_random w)) (started_flow P (lw_random w) q) = Some val"
    "from_str H (names_set (lo_names l) (names_flow (lo_names l) (new_csrf P (lw_random w))) val (as_secs flow_ttl)) \<noteq> None"
    "a = snd (append_cookie H (names_set (lo_names l) (names_flow (lo_names l) (new_csrf P (lw_random w))) val (as_secs flow_ttl))
       (prune_flow_cookies H L l h (redirect H (authorize_url P c (started_params P (lw_random w) (scopes p) (q_step_up q = Some ''1''))))))"
    and l': "lo_names l' = lo_names l" "lo_flows l' = lo_flows l"
    by (rule login_started[OF assms(1-3)])
  note sealed = r(1)[unfolded st f[symmetric] assms(5)] and k = r(2)[unfolded st] and a = r(3)[unfolded st]
  have k': "from_str H (names_set (lo_names l) (names_flow (lo_names l) state) val (as_secs flow_ttl))
      = Some (names_set (lo_names l) (names_flow (lo_names l) state) val (as_secs flow_ttl))"
    using assms(4) k by blast
  have "opened_flow H L unix l' h' state = (if unat unix - unat (lw_unix w) < 1800 then Some f else None)"
    if "cookie_read H h' (names_flow (lo_names l) state) = Some val" for h' unix
    using that sealed_opens[OF assms(10,6) sealed, of unix] assms(7) by (simp add: opened_flow_def l')
  moreover have "location_of a = from_str H (authorize_url P c
        \<lparr>ap_state = state, ap_nonce = nonce f, ap_scopes = scopes p, ap_prompt_login = step_up f,
         ap_max_age = (if step_up f then Some 0 else None), ap_challenge = fst (new_pkce P (lw_random w))\<rparr>)"
    by (simp add: a gate_simps started_params_def started_flow_def f assms(8))
  moreover have "last (set_cookies a) = names_set (lo_names l) (names_flow (lo_names l) state) val 1800"
    using k' by (simp add: a gate_simps flow_ttl_secs)
  ultimately show ?thesis by blast
qed

definition a_sealing_lib :: flow_lib where
  "a_sealing_lib = \<lparr>url_b64_encode = \<lambda>x. x, url_b64_decode = Some, aead_encrypt = \<lambda>k n a m. Some (CHR ''!'' # m),
     aead_decrypt = \<lambda>k n a c. case c of [] \<Rightarrow> None | _ # m \<Rightarrow> Some m,
     sealed_to_json = \<lambda>_. Some ''json'', sealed_from_json = \<lambda>_. Some (sealed_of a_flow 20)\<rparr>"

lemma a_sealing_answer:
  "ans_status (fst (login_handler plain_http a_sealing_lib an_oidc a_login_world a_login_query (browser its_cookies) a_login)) = SEE_OTHER"
  by (simp add: login_handler_def ask_client_def provider_client_def a_login_world_def seal_def a_sealing_lib_def an_oidc_def
      append_cookie_def gate_simps)

theorem started_sign_in_can_be_finished_witness:
  "\<exists>a l' val. login_handler plain_http a_sealing_lib an_oidc a_login_world a_login_query (browser its_cookies) a_login = (a, l')
     \<and> location_of a = Some ''https://idp/auth''
     \<and> last (set_cookies a) = names_set (lo_names a_login) (names_flow (lo_names a_login) ''abcdefghijklmnop'') val 1800"
proof -
  obtain a l' where e: "login_handler plain_http a_sealing_lib an_oidc a_login_world a_login_query (browser its_cookies) a_login = (a, l')"
    by fastforce
  have s: "ans_status a = SEE_OTHER" using a_sealing_answer by (simp add: e)
  have p: "lo_provider a_login = Some ((provider_new ''iss'' ''cid'' ''cb'' [''openid''])\<lparr>client := Some ()\<rparr>)" by simp
  have h: "\<forall>c. from_str plain_http c \<noteq> None \<longrightarrow> from_str plain_http c = Some c" by simp
  have w: "lw_seal_nonce a_login_world = Some (replicate 24 CHR ''n'')" and n: "length (replicate 24 CHR ''n'') = 24"
    by (simp_all add: a_login_world_def)
  have st: "''abcdefghijklmnop'' = new_csrf an_oidc (lw_random a_login_world)" by (simp add: an_oidc_def)
  have path: "safe_return_to (Some ''/app'') = ''/app''"
    by (simp add: safe_return_to_def max_return_to_def starts_with_def chars_def utf8_width_def byte_def code_point_def
        utf8_lead_def is_control_def is_whitespace_def)
  have f: "a_flow = \<lparr>pkce_verifier = snd (new_pkce an_oidc (lw_random a_login_world)), nonce = new_nonce an_oidc (lw_random a_login_world),
      return_to = safe_return_to (q_return_to a_login_query), step_up = (q_step_up a_login_query = Some ''1'')\<rparr>"
    by (simp add: a_flow_def an_oidc_def a_login_query_def path)
  have inv: "flow_lib_inverse a_sealing_lib (cipher_key (lo_flows a_login)) (sealed_of a_flow (lw_unix a_login_world))"
    by (simp add: flow_lib_inverse_def a_sealing_lib_def a_login_world_def)
  have u: "from_str plain_http (authorize_url an_oidc c ps) = Some ''https://idp/auth''" for c ps
    by (simp add: an_oidc_def)
  from started_sign_in_can_be_finished[OF e p s h w n a_state_valid st f inv]
  obtain val where "location_of a = Some ''https://idp/auth''"
      "last (set_cookies a) = names_set (lo_names a_login) (names_flow (lo_names a_login) ''abcdefghijklmnop'') val 1800"
    unfolding u by (elim exE conjE) (rule that, assumption+)
  with e show ?thesis by (intro exI conjI)
qed

text \<open>C20
  Signing out is this site's own act: a logout from anywhere else answers 403 and leaves every session
  as it was; one from this origin ends exactly the session its cookie names, which no later lookup
  returns, and clears the cookie.\<close>

theorem only_this_site_signs_out:
  assumes "session_wf (lo_sessions l)" and "lo_provider l \<noteq> None" and "logout_handler H h l = (a, l')"
    and "from_str H (names_clear (lo_names l) (session_name (lo_names l))) = Some (names_clear (lo_names l) (session_name (lo_names l)))"
  shows "if own_page (lo_origin l) h
    then ans_status a = NO_CONTENT \<and> set_cookies a = [names_clear (lo_names l) (session_name (lo_names l))]
      \<and> (\<forall>i. hm_get (session_map (lo_sessions l')) i =
           (if cookie_read H h (session_name (lo_names l)) = Some i then None else hm_get (session_map (lo_sessions l)) i))
      \<and> (\<forall>r t. cookie_read H (p_headers r) (session_name (lo_names l)) = cookie_read H h (session_name (lo_names l)) \<longrightarrow>
           fst (authenticate H t r l') = None)
    else ans_status a = FORBIDDEN \<and> l' = l"
proof (cases "own_page (lo_origin l) h")
  case False
  with assms(2,3) show ?thesis
    by (auto simp: logout_handler_def login_is_disabled_def same_origin_own_page gate_simps)
next
  case True
  let ?old = "cookie_read H h (session_name (lo_names l))"
  have al: "a = snd (append_cookie H (names_clear (lo_names l) (session_name (lo_names l))) (no_store (into_response NO_CONTENT Empty)))"
      "l' = (case ?old of Some i \<Rightarrow> l\<lparr>lo_sessions := session_remove i (lo_sessions l)\<rparr> | None \<Rightarrow> l)"
    using assms(3) True by (auto simp: logout_handler_def same_origin_own_page)
  have s: "lo_sessions l' = replace_old ?old (lo_sessions l)" "lo_names l' = lo_names l"
    by (simp_all add: al replace_old_def split: option.splits)
  have "fst (authenticate H t r l') = None" if "cookie_read H (p_headers r) (session_name (lo_names l)) = ?old" for r t
    using that by (cases ?old) (simp_all add: authenticate_result session_behind_def s replace_old_view(1)[OF assms(1)])
  with True assms(4) show ?thesis
    by (simp add: s replace_old_view(1)[OF assms(1)]) (simp add: al gate_simps)
qed

theorem only_this_site_signs_out_witness:
  "hm_get (session_map (lo_sessions (snd (logout_handler plain_http (browser its_cookies) a_login)))) ''s'' = None
   \<and> hm_get (session_map (lo_sessions a_login)) ''s'' \<noteq> None"
proof -
  obtain a l' where e: "logout_handler plain_http (browser its_cookies) a_login = (a, l')"
    by fastforce
  have p: "lo_provider a_login \<noteq> None" by simp
  have o: "own_page (lo_origin a_login) (browser its_cookies)"
    by (simp add: own_page_def browser_def header_get_def)
  have c: "from_str plain_http (names_clear (lo_names a_login) (session_name (lo_names a_login)))
      = Some (names_clear (lo_names a_login) (session_name (lo_names a_login)))" by simp
  have "hm_get (session_map (lo_sessions l')) ''s'' = None"
    using only_this_site_signs_out[OF a_login_wf p e c] o browser_session by (simp only: if_True) simp
  then show ?thesis
    by (simp add: e sample_login_def hm_get_def)
qed

end
