(* ===== verification/Stages.thy ===== *)
theory Stages
  imports Handlers
begin

text \<open>
  The callback of \<open>src/src/login/handlers.rs\<close> as the steps it really takes: from one await to the next,
  and after the last one from lock to lock. Between two steps of one callback other requests run, on the
  same sessions and the same provider. \<open>resume\<close> is one step, \<open>drive\<close> takes them back to back; what
  other requests do in between is theory \<open>Server\<close>.
\<close>

section \<open>Steps\<close>

text \<open>
  Where a callback stands: waiting for the client, for the answer to the token request, for the refreshed
  provider and its client; then, without a further await, about to store the session, to remove the old one,
  and to set the cookie.
\<close>

datatype ('c, 'idt) pending =
    At_client string flow
  | At_exchange 'c string flow
  | At_refresh 'idt flow
  | At_client_again 'idt flow
  | At_insert flow identity "u64 option"
  | At_replace flow string
  | At_cookie flow string

text \<open>Up to the first await: an answer, or the state and flow of the sign-in to finish.\<close>

definition begin_callback ::
  "http_lib \<Rightarrow> flow_lib \<Rightarrow> ('c, 'm, 'r, 'tok, 'idt) oidc_lib \<Rightarrow> u64 \<Rightarrow> callback_query \<Rightarrow> headers
     \<Rightarrow> 'c login \<Rightarrow> answer + string \<times> ('c, 'idt) pending" where
  "begin_callback H L P unix q h l =
     (case lo_provider l of None \<Rightarrow> Inl (redirect H ''/'') | Some _ \<Rightarrow>
      (case q_error q of
         Some e \<Rightarrow> Inl (text_answer BAD_REQUEST
            (''Sign-in was refused by the identity provider ('' @ shown_error e @ ''). [callback-error]''))
       | None \<Rightarrow>
      (case (q_code q, q_state q) of
         (Some code, Some state) \<Rightarrow>
           (case opened_flow H L unix l h state of
              None \<Rightarrow> Inl (done_answer H (lo_names l) (if valid_state state then Some (names_flow (lo_names l) state) else None)
                (restart_or_refuse H (form_serialize P) (lo_names l) h ''flow-unknown'' None))
            | Some f \<Rightarrow> Inr (state, At_client code f))
       | _ \<Rightarrow> Inl (text_answer BAD_REQUEST ''Sign-in callback is missing its code or state. [callback-params]''))))"

text \<open>The single use of a sign-in: every answer after the flow opened clears its cookie.\<close>

definition finish_callback :: "http_lib \<Rightarrow> names \<Rightarrow> string \<Rightarrow> answer \<Rightarrow> answer" where
  "finish_callback H n state a = done_answer H n (Some (names_flow n state)) a"

fun resume ::
  "http_lib \<Rightarrow> ('c, 'm, 'r, 'tok, 'idt) oidc_lib \<Rightarrow> 'm callback_world \<Rightarrow> headers \<Rightarrow> ('c, 'idt) pending
     \<Rightarrow> 'c login \<Rightarrow> (answer + ('c, 'idt) pending) \<times> 'c login" where
  "resume H P w h (At_client code f) l =
     (case ask_client P (cw_discovery w) l of
        (None, l1) \<Rightarrow> (Inl (restart_or_refuse H (form_serialize P) (lo_names l) h ''idp-unavailable'' (Some f)), l1)
      | (Some c, l1) \<Rightarrow>
          (if has_token_endpoint P c then Inr (At_exchange c code f)
           else Inl (text_answer INTERNAL_SERVER_ERROR ''Sign-in failed preparing the token request. [exchange-setup]''), l1))"
| "resume H P w h (At_exchange c code f) l =
     (case request_token P c \<lparr>tr_code = code, tr_verifier = pkce_verifier f\<rparr> of
        None \<Rightarrow> Inl (restart_or_refuse H (form_serialize P) (lo_names l) h ''token-exchange'' (Some f))
      | Some tokens \<Rightarrow> (case id_token P tokens of
          None \<Rightarrow> Inl (text_answer BAD_GATEWAY ''The identity provider returned no identity token. [no-id-token]'')
        | Some tok \<Rightarrow> (case verify_claims P c tok (nonce f) of
            Some claims \<Rightarrow> (case identity_from_claims claims of (idn, auth) \<Rightarrow> Inr (At_insert f idn auth))
          | None \<Rightarrow> Inr (At_refresh tok f))), l)"
| "resume H P w h (At_refresh tok f) l = (Inr (At_client_again tok f), ask_rediscover P (cw_refresh w) l)"
| "resume H P w h (At_client_again tok f) l =
     (case ask_client P (cw_again w) l of (oc, l1) \<Rightarrow>
       (case Option.bind oc (\<lambda>c2. verify_claims P c2 tok (nonce f)) of
          None \<Rightarrow> Inl (restart_or_refuse H (form_serialize P) (lo_names l) h ''id-token-verify'' (Some f))
        | Some claims \<Rightarrow> (case identity_from_claims claims of (idn, auth) \<Rightarrow> Inr (At_insert f idn auth)), l1))"
| "resume H P w h (At_insert f idn auth) l =
     (case session_insert (cw_order w) (cw_now w) (cw_wall w) (cw_fresh_id w) idn auth (lo_sessions l) of (oi, ss) \<Rightarrow>
       (case oi of
          None \<Rightarrow> Inl (text_answer INTERNAL_SERVER_ERROR ''Signed in, but the session could not be created. [session-id]'')
        | Some i \<Rightarrow> Inr (At_replace f i), l\<lparr>lo_sessions := ss\<rparr>))"
| "resume H P w h (At_replace f i) l =
     (Inr (At_cookie f i),
      case cookie_read H h (session_name (lo_names l)) of
        Some old \<Rightarrow> l\<lparr>lo_sessions := session_remove old (lo_sessions l)\<rparr> | None \<Rightarrow> l)"
| "resume H P w h (At_cookie f i) l =
     (case append_cookie H (names_set (lo_names l) (session_name (lo_names l)) i (as_secs (ttl (lo_sessions l))))
             (redirect H (return_to f)) of
        (False, _) \<Rightarrow> (Inl (text_answer INTERNAL_SERVER_ERROR ''Signed in, but the session could not be set. [session-cookie]''),
                       l\<lparr>lo_sessions := session_remove i (lo_sessions l)\<rparr>)
      | (True, a) \<Rightarrow> (Inl (snd (append_cookie H (names_clear (lo_names l) (retry_name (lo_names l))) a)), l))"

section \<open>The steps end\<close>

fun stage :: "('c, 'idt) pending \<Rightarrow> nat" where
  "stage (At_client _ _) = 7"
| "stage (At_exchange _ _ _) = 6"
| "stage (At_refresh _ _) = 5"
| "stage (At_client_again _ _) = 4"
| "stage (At_insert _ _ _) = 3"
| "stage (At_replace _ _) = 2"
| "stage (At_cookie _ _) = 1"

lemma resume_advances: "resume H P w h p l = (Inr p', l') \<Longrightarrow> stage p' < stage p"
  by (cases p) (auto split: option.splits prod.splits if_splits bool.splits)

text \<open>All the steps of a callback, nobody interfering.\<close>

function drive ::
  "http_lib \<Rightarrow> ('c, 'm, 'r, 'tok, 'idt) oidc_lib \<Rightarrow> 'm callback_world \<Rightarrow> headers \<Rightarrow> ('c, 'idt) pending
     \<Rightarrow> 'c login \<Rightarrow> answer \<times> 'c login" where
  "drive H P w h p l = (case resume H P w h p l of (Inl a, l') \<Rightarrow> (a, l') | (Inr p', l') \<Rightarrow> drive H P w h p' l')"
  by pat_completeness auto
termination
  by (relation "measure (\<lambda>(H, P, w, h, p, l). stage p)") (auto dest: resume_advances[OF sym])

declare drive.simps [simp del]

section \<open>Back to back they are the handler\<close>

lemma drive_insert:
  "drive H P w h (At_insert f idn auth) l = complete_sign_in H w h f idn auth l"
proof -
  obtain oi ss where i: "session_insert (cw_order w) (cw_now w) (cw_wall w) (cw_fresh_id w) idn auth (lo_sessions l) = (oi, ss)"
    by fastforce
  show ?thesis
  proof (cases oi)
    case None
    with i show ?thesis by (subst drive.simps) (simp add: complete_sign_in_def)
  next
    case (Some k)
    show ?thesis
      by (subst drive.simps, simp add: i Some, subst drive.simps, simp, subst drive.simps)
        (cases "cookie_read H h (session_name (lo_names l))";
         simp add: complete_sign_in_def i Some Let_def split: prod.split bool.split)
  qed
qed

lemma drive_client: "drive H P w h (At_client code f) l = exchange_and_verify H P w h code f l"
proof -
  obtain oc l1 where ask: "ask_client P (cw_discovery w) l = (oc, l1)" by fastforce
  have n: "lo_names l1 = lo_names l" using ask_client_keeps(2)[of P "cw_discovery w" l] by (simp add: ask)
  have verified: "drive H P w h (At_exchange c code f) l1 =
      (case verify_id_token P (cw_refresh w) (cw_again w) c tok (nonce f) l1 of
         (None, l2) \<Rightarrow> (restart_or_refuse H (form_serialize P) (lo_names l) h ''id-token-verify'' (Some f), l2)
       | (Some (idn, auth), l2) \<Rightarrow> complete_sign_in H w h f idn auth l2)"
    if t: "request_token P c \<lparr>tr_code = code, tr_verifier = pkce_verifier f\<rparr> = Some tokens" "id_token P tokens = Some tok" for c tokens tok
  proof (cases "verify_claims P c tok (nonce f)")
    case (Some claims)
    then show ?thesis
      by (subst drive.simps) (simp add: t verify_id_token_def drive_insert split: prod.split)
  next
    case None
    obtain oc2 l2 where ask2: "ask_client P (cw_again w) (ask_rediscover P (cw_refresh w) l1) = (oc2, l2)" by fastforce
    have n2: "lo_names (ask_rediscover P (cw_refresh w) l1) = lo_names l"
      by (simp add: ask_rediscover_def n)
    have "drive H P w h (At_exchange c code f) l1 = drive H P w h (At_client_again tok f) (ask_rediscover P (cw_refresh w) l1)"
      by (subst drive.simps, simp add: t None) (subst drive.simps, simp)
    then show ?thesis
      by (simp add: drive.simps[of H P w h "At_client_again tok f"] ask2 n2 verify_id_token_def None Let_def drive_insert
          split: option.split prod.split)
  qed
  have exchange: "drive H P w h (At_exchange c code f) l1 = (case request_token P c \<lparr>tr_code = code, tr_verifier = pkce_verifier f\<rparr> of
      None \<Rightarrow> (restart_or_refuse H (form_serialize P) (lo_names l) h ''token-exchange'' (Some f), l1)
    | Some tokens \<Rightarrow> (case id_token P tokens of
        None \<Rightarrow> (text_answer BAD_GATEWAY ''The identity provider returned no identity token. [no-id-token]'', l1)
      | Some tok \<Rightarrow> (case verify_id_token P (cw_refresh w) (cw_again w) c tok (nonce f) l1 of
          (None, l2) \<Rightarrow> (restart_or_refuse H (form_serialize P) (lo_names l) h ''id-token-verify'' (Some f), l2)
        | (Some (idn, auth), l2) \<Rightarrow> complete_sign_in H w h f idn auth l2)))" for c
  proof (cases "Option.bind (request_token P c \<lparr>tr_code = code, tr_verifier = pkce_verifier f\<rparr>) (id_token P)")
    case None
    then show ?thesis
      by (subst drive.simps) (auto simp: n split: option.split)
  next
    case (Some tok)
    then obtain tokens where "request_token P c \<lparr>tr_code = code, tr_verifier = pkce_verifier f\<rparr> = Some tokens" "id_token P tokens = Some tok"
      by (auto simp: bind_eq_Some_conv)
    with verified show ?thesis by simp
  qed
  show ?thesis
    by (subst drive.simps) (simp add: ask exchange exchange_and_verify_def Let_def split: option.split)
qed

text \<open>
  Run back to back the steps end, and give the answer of the handler and leave the sign-in as it does, for every
  request, every state and everything the world may do meanwhile: the two translations of the callback agree.
\<close>

lemma callback_is_its_steps:
  "callback_handler H L P w q h l =
     (case begin_callback H L P (cw_unix w) q h l of
        Inl a \<Rightarrow> (a, l)
      | Inr (state, p) \<Rightarrow> (case drive H P w h p l of (a, l') \<Rightarrow> (finish_callback H (lo_names l) state a, l')))"
proof (cases "lo_provider l = None \<or> q_error q \<noteq> None \<or> q_code q = None \<or> q_state q = None")
  case True
  then show ?thesis
    by (auto simp: callback_handler_def begin_callback_def split: option.split)
next
  case False
  then obtain p code state where q: "lo_provider l = Some p" "q_error q = None" "q_code q = Some code" "q_state q = Some state"
    by auto
  show ?thesis
  proof (cases "opened_flow H L (cw_unix w) l h state")
    case None
    with q show ?thesis by (simp add: callback_handler_def begin_callback_def Let_def)
  next
    case (Some f)
    then have "valid_state state" by (auto simp: opened_flow_def split: if_splits)
    with q Some show ?thesis
      by (simp add: callback_handler_def begin_callback_def Let_def drive_client finish_callback_def)
  qed
qed

end
