(* ===== verification/Bff.thy ===== *)
theory Bff
  imports Claims Text
begin

text \<open>
  \<open>src/src/bff.rs\<close>: the assertion an upstream signs for a user, and its verification. What the
  \<open>jsonwebtoken\<close> library does is an argument, its documented checks the predicate \<open>passes\<close>, which
  only hypotheses use.
\<close>

section \<open>The token library\<close>

text \<open>The registered claims of a token as they travel; an absent claim is \<open>None\<close>.\<close>

record payload =
  pl_iss :: "string option"
  pl_sub :: "string option"
  pl_email :: "string option"
  pl_aud :: "audience option"
  pl_exp :: "usize option"
  pl_iat :: "usize option"
  pl_auth_time :: "usize option"

text \<open>The settings of a \<open>Validation\<close>; the audience and issuer sets and the required claims.\<close>

record validation =
  v_issuer :: "string list option"
  v_audience :: "string list option"
  v_required :: "string list"

record jwt_header =
  jh_kid :: "string option"

text \<open>All tokens are RS256: \<open>validation_rs256\<close> is \<open>Validation::new(RS256)\<close>, \<open>header_rs256\<close> its header.\<close>

record ('key, 'enc, 'jwks, 'jwk) jwt_lib =
  validation_rs256 :: validation
  header_rs256 :: jwt_header
  decode_header :: "string \<Rightarrow> jwt_header option"
  decode_token :: "string \<Rightarrow> 'key \<Rightarrow> validation \<Rightarrow> payload option"
  encode_token :: "jwt_header \<Rightarrow> payload \<Rightarrow> 'enc \<Rightarrow> string option"
  key_from_pem :: "string \<Rightarrow> 'key option"
  key_from_jwk :: "'jwk \<Rightarrow> 'key option"
  jwks_find :: "'jwks \<Rightarrow> string \<Rightarrow> 'jwk option"
  jwks_empty :: "'jwks"

text \<open>Deserialising \<open>Claims\<close>: \<open>sub\<close> and \<open>exp\<close> must be there, the others may be absent.\<close>

definition claims_of_payload :: "payload \<Rightarrow> claims option" where
  "claims_of_payload p =
     (case (pl_sub p, pl_exp p) of
        (Some s, Some e) \<Rightarrow> Some \<lparr>cl_sub = s, cl_email = pl_email p, cl_exp = e, cl_auth_time = pl_auth_time p\<rparr>
      | _ \<Rightarrow> None)"

text \<open>
  The checks the library documents: each required claim present, \<open>iss\<close> and \<open>aud\<close> among the ones set
  where present, and not expired, \<open>unexpired\<close> being the library's judgement with its leeway.
\<close>

definition has_claim :: "payload \<Rightarrow> string \<Rightarrow> bool" where
  "has_claim p c \<longleftrightarrow>
     (if c = ''iss'' then pl_iss p \<noteq> None else if c = ''sub'' then pl_sub p \<noteq> None
      else if c = ''aud'' then pl_aud p \<noteq> None else if c = ''exp'' then pl_exp p \<noteq> None else True)"

definition passes :: "(usize \<Rightarrow> bool) \<Rightarrow> validation \<Rightarrow> payload \<Rightarrow> bool" where
  "passes unexpired v p \<longleftrightarrow>
     list_all (has_claim p) (v_required v)
   \<and> (\<forall>e. pl_exp p = Some e \<longrightarrow> unexpired e)
   \<and> (\<forall>i is. pl_iss p = Some i \<longrightarrow> v_issuer v = Some is \<longrightarrow> i \<in> set is)
   \<and> (\<forall>a as. pl_aud p = Some a \<longrightarrow> v_audience v = Some as \<longrightarrow> set (into_vec a) \<inter> set as \<noteq> {})"

text \<open>What a successful decode documents: the key signed exactly this payload, and it passes.\<close>

definition decode_checks ::
  "('key, 'enc, 'jwks, 'jwk) jwt_lib \<Rightarrow> (string \<Rightarrow> 'key \<Rightarrow> payload \<Rightarrow> bool) \<Rightarrow> (usize \<Rightarrow> bool) \<Rightarrow> bool" where
  "decode_checks J signs unexpired \<longleftrightarrow>
     (\<forall>t k v p. decode_token J t k v = Some p \<longleftrightarrow> signs t k p \<and> passes unexpired v p)
   \<and> (\<forall>t k k' p p'. signs t k p \<longrightarrow> signs t k' p' \<longrightarrow> p = p')"

section \<open>Assertions\<close>

definition assertion_header :: string where
  "assertion_header = ''X-Bff-Assertion''"

definition now_secs :: "int \<Rightarrow> usize" where
  "now_secs wall = unix_now wall"

definition assertion_claims :: "claims \<Rightarrow> string \<Rightarrow> string \<Rightarrow> usize \<Rightarrow> duration \<Rightarrow> payload" where
  "assertion_claims c aud iss iat ttl =
     \<lparr>pl_iss = Some iss, pl_sub = Some (cl_sub c), pl_email = cl_email c, pl_aud = Some (One aud),
      pl_exp = Some (iat + as_secs ttl), pl_iat = Some iat, pl_auth_time = cl_auth_time c\<rparr>"

definition mint :: "('key, 'enc, 'jwks, 'jwk) jwt_lib \<Rightarrow> int \<Rightarrow> claims \<Rightarrow> string \<Rightarrow> string \<Rightarrow> duration \<Rightarrow> 'enc \<Rightarrow> string \<Rightarrow> string option" where
  "mint J wall c aud iss ttl key kid =
     encode_token J ((header_rs256 J)\<lparr>jh_kid := Some kid\<rparr>) (assertion_claims c aud iss (now_secs wall) ttl) key"

record 'key bff_trust =
  bff_issuer :: string
  bff_audience :: string
  bff_key :: 'key

definition bff_trust_new :: "('key, 'enc, 'jwks, 'jwk) jwt_lib \<Rightarrow> string \<Rightarrow> string \<Rightarrow> string \<Rightarrow> 'key bff_trust option" where
  "bff_trust_new J iss aud pem = map_option (\<lambda>k. \<lparr>bff_issuer = iss, bff_audience = aud, bff_key = k\<rparr>) (key_from_pem J pem)"

definition bff_validation :: "('key, 'enc, 'jwks, 'jwk) jwt_lib \<Rightarrow> 'key bff_trust \<Rightarrow> validation" where
  "bff_validation J b = (validation_rs256 J)\<lparr>v_issuer := Some [bff_issuer b], v_audience := Some [bff_audience b]\<rparr>"

definition bff_verify :: "('key, 'enc, 'jwks, 'jwk) jwt_lib \<Rightarrow> 'key bff_trust \<Rightarrow> string \<Rightarrow> status_code + claims" where
  "bff_verify J b token =
     (case Option.bind (decode_token J token (bff_key b) (bff_validation J b)) claims_of_payload of
        Some c \<Rightarrow> Inr c | None \<Rightarrow> Inl UNAUTHORIZED)"

section \<open>Properties\<close>

lemma bff_verify_Inr:
  assumes "decode_checks J signs unexpired" and "bff_verify J b token = Inr c"
  obtains p where "signs token (bff_key b) p" "passes unexpired (bff_validation J b) p" "claims_of_payload p = Some c"
  using assms unfolding decode_checks_def bff_verify_def by (auto simp: bind_eq_Some_conv split: option.splits)

text \<open>C29
  Minting and verifying an assertion round-trips: what the upstream signs for a user, this service's
  verifier turns into that user's claims, with the expiry of the assertion itself and the
  authentication time carried through, while it is unexpired; the same assertion presented to a service
  with another audience, or to one expecting another issuer, is refused with 401, as is one signed
  under another key.\<close>

theorem assertion_round_trip:
  assumes "decode_checks J signs unexpired" and "v_required (validation_rs256 J) = [''exp'']"
    and "mint J wall c aud iss dur enc kid = Some token"
    and "\<forall>h p t. encode_token J h p enc = Some t \<longrightarrow> signs t key p"
  shows "bff_verify J \<lparr>bff_issuer = iss, bff_audience = aud, bff_key = key\<rparr> token =
      (if unexpired (unix_now wall + as_secs dur)
       then Inr (c\<lparr>cl_exp := unix_now wall + as_secs dur\<rparr>) else Inl UNAUTHORIZED)
    \<and> (\<forall>b. bff_issuer b \<noteq> iss \<or> bff_audience b \<noteq> aud \<or> (\<nexists>p. signs token (bff_key b) p) \<longrightarrow>
         bff_verify J b token = Inl UNAUTHORIZED)"
proof -
  let ?p = "assertion_claims c aud iss (now_secs wall) dur"
  have s: "signs token key ?p"
    using assms(3,4) by (simp add: mint_def)
  have only: "p = ?p" if "signs token k p" for k p
    using assms(1) s that unfolding decode_checks_def by blast
  have dec: "decode_token J token k v = Some p \<longleftrightarrow> signs token k p \<and> passes unexpired v p" for k v p
    using assms(1) by (simp add: decode_checks_def)
  have cl: "claims_of_payload ?p = Some (c\<lparr>cl_exp := unix_now wall + as_secs dur\<rparr>)"
    by (simp add: claims_of_payload_def assertion_claims_def now_secs_def)
  let ?b = "\<lparr>bff_issuer = iss, bff_audience = aud, bff_key = key\<rparr>"
  have pass: "passes unexpired (bff_validation J ?b) ?p \<longleftrightarrow> unexpired (unix_now wall + as_secs dur)"
    by (auto simp: passes_def bff_validation_def assertion_claims_def assms(2) has_claim_def into_vec_def now_secs_def)
  have "decode_token J token key (bff_validation J ?b) = (if unexpired (unix_now wall + as_secs dur) then Some ?p else None)"
  proof (cases "decode_token J token key (bff_validation J ?b)")
    case None
    with s pass dec[of key "bff_validation J ?b" ?p] show ?thesis by simp
  next
    case (Some p)
    then have "signs token key p" "passes unexpired (bff_validation J ?b) p"
      by (simp_all only: dec)
    with only[of key p] pass Some show ?thesis by simp
  qed
  then have "bff_verify J ?b token =
      (if unexpired (unix_now wall + as_secs dur) then Inr (c\<lparr>cl_exp := unix_now wall + as_secs dur\<rparr>) else Inl UNAUTHORIZED)"
    by (simp add: bff_verify_def cl)
  moreover have "bff_verify J b token = Inl UNAUTHORIZED"
    if w: "bff_issuer b \<noteq> iss \<or> bff_audience b \<noteq> aud \<or> (\<nexists>p. signs token (bff_key b) p)" for b
  proof (cases "bff_verify J b token")
    case (Inr d)
    then obtain p where "signs token (bff_key b) p" "passes unexpired (bff_validation J b) p"
      by (rule bff_verify_Inr[OF assms(1)])
    with only w have "passes unexpired (bff_validation J b) ?p" "bff_issuer b \<noteq> iss \<or> bff_audience b \<noteq> aud"
      by auto
    then show ?thesis
      by (auto simp: passes_def bff_validation_def assertion_claims_def into_vec_def)
  next
    case (Inl st)
    then show ?thesis
      by (auto simp: bff_verify_def split: option.splits)
  qed
  ultimately show ?thesis by blast
qed

text \<open>A library in which a token is its payload in the clear, marked with its key.\<close>

definition toy_jwt :: "(string, string, (string \<times> string) list, string) jwt_lib" where
  "toy_jwt = \<lparr>validation_rs256 = \<lparr>v_issuer = None, v_audience = None, v_required = [''exp'']\<rparr>,
     header_rs256 = \<lparr>jh_kid = None\<rparr>, decode_header = \<lambda>_. Some \<lparr>jh_kid = Some ''kid''\<rparr>,
     decode_token = \<lambda>t k v.
       if t = ''bff'' \<and> k = ''upstream'' \<and> passes (\<lambda>e. e > 50) v
           \<lparr>pl_iss = Some ''bff'', pl_sub = Some ''ada'', pl_email = None, pl_aud = Some (One ''svc''),
            pl_exp = Some 100, pl_iat = Some 40, pl_auth_time = Some 7\<rparr>
       then Some \<lparr>pl_iss = Some ''bff'', pl_sub = Some ''ada'', pl_email = None, pl_aud = Some (One ''svc''),
            pl_exp = Some 100, pl_iat = Some 40, pl_auth_time = Some 7\<rparr> else None,
     encode_token = \<lambda>_ p k.
       if p = \<lparr>pl_iss = Some ''bff'', pl_sub = Some ''ada'', pl_email = None, pl_aud = Some (One ''svc''),
            pl_exp = Some 100, pl_iat = Some 40, pl_auth_time = Some 7\<rparr> \<and> k = ''upstream'' then Some ''bff'' else None,
     key_from_pem = Some, key_from_jwk = Some, jwks_find = map_of, jwks_empty = []\<rparr>"

definition toy_signed :: "string \<Rightarrow> string \<Rightarrow> payload \<Rightarrow> bool" where
  "toy_signed t k p \<longleftrightarrow> t = ''bff'' \<and> k = ''upstream'' \<and>
     p = \<lparr>pl_iss = Some ''bff'', pl_sub = Some ''ada'', pl_email = None, pl_aud = Some (One ''svc''),
            pl_exp = Some 100, pl_iat = Some 40, pl_auth_time = Some 7\<rparr>"

lemma toy_jwt_checks: "decode_checks toy_jwt toy_signed (\<lambda>e. e > 50)"
  by (auto simp: decode_checks_def toy_jwt_def toy_signed_def)

theorem assertion_round_trip_witness:
  "\<exists>token. mint toy_jwt 40000000000 \<lparr>cl_sub = ''ada'', cl_email = None, cl_exp = 900, cl_auth_time = Some 7\<rparr>
       ''svc'' ''bff'' (from_secs 60) ''upstream'' ''k1'' = Some token
     \<and> bff_verify toy_jwt \<lparr>bff_issuer = ''bff'', bff_audience = ''svc'', bff_key = ''upstream''\<rparr> token =
         Inr \<lparr>cl_sub = ''ada'', cl_email = None, cl_exp = 100, cl_auth_time = Some 7\<rparr>
     \<and> bff_verify toy_jwt \<lparr>bff_issuer = ''bff'', bff_audience = ''other'', bff_key = ''upstream''\<rparr> token = Inl UNAUTHORIZED"
proof -
  let ?c = "\<lparr>cl_sub = ''ada'', cl_email = None, cl_exp = 900, cl_auth_time = Some 7\<rparr>"
  have now: "unix_now 40000000000 = 40" "as_secs (from_secs 60) = 60"
    by (simp_all add: unix_now_def as_secs_def from_secs_def nanos_per_sec_def)
  have r: "v_required (validation_rs256 toy_jwt) = [''exp'']"
    by (simp add: toy_jwt_def)
  have m: "mint toy_jwt 40000000000 ?c ''svc'' ''bff'' (from_secs 60) ''upstream'' ''k1'' = Some ''bff''"
    by (simp add: mint_def assertion_claims_def now_secs_def now) (simp add: toy_jwt_def)
  have e: "\<forall>h p t. encode_token toy_jwt h p ''upstream'' = Some t \<longrightarrow> toy_signed t ''upstream'' p"
    by (simp add: toy_jwt_def toy_signed_def)
  from assertion_round_trip[OF toy_jwt_checks r m e] m show ?thesis
    by (simp add: now)
qed

text \<open>
  The verifier sets the issuer and audience to insist on but not that the claims be there, so with the
  library's checks an assertion of the upstream's that names no audience and no issuer passes at every
  service that trusts the upstream's key.
\<close>

lemma assertion_without_audience_passes:
  assumes "decode_checks J signs unexpired" and "v_required (validation_rs256 J) = [''exp'']"
    and "signs token (bff_key b) p" and "pl_aud p = None" and "pl_iss p = None"
    and "pl_sub p = Some s" and "pl_exp p = Some e" and "unexpired e"
  shows "\<exists>c. bff_verify J b token = Inr c \<and> cl_sub c = s"
proof -
  have "passes unexpired (bff_validation J b) p"
    using assms(2,4-8) by (simp add: passes_def bff_validation_def has_claim_def)
  then have "decode_token J token (bff_key b) (bff_validation J b) = Some p"
    using assms(1,3) by (simp add: decode_checks_def)
  then show ?thesis
    by (simp add: bff_verify_def claims_of_payload_def assms(6,7))
qed

end
