(* ===== verification/Auth.thy ===== *)
theory Auth
  imports Bff LoginCore
begin

text \<open>
  \<open>src/src/peer.rs\<close> and \<open>src/src/auth.rs\<close>: peers and their tokens, the key store with its gated
  refresh, bearer and peer-token validation, and the extractor that decides who a request is. One
  validation is a step here, with the instants at which it takes the refresh lock and is done;
  theory \<open>JwksGate\<close> interleaves them. The HTTP fetches and the token library are arguments.
\<close>

section \<open>Peers\<close>

record peer =
  peer_name :: string
  peer_header :: string
  peer_audience :: string

definition peer_new :: "string \<Rightarrow> string \<Rightarrow> string \<Rightarrow> peer" where
  "peer_new n h a = \<lparr>peer_name = n, peer_header = h, peer_audience = a\<rparr>"

record peer_token =
  pt_token :: string
  pt_claims :: claims

definition peer_bearer :: "peer_token \<Rightarrow> string" where
  "peer_bearer t = pt_token t"

definition peer_claims :: "peer_token \<Rightarrow> claims" where
  "peer_claims t = pt_claims t"

text \<open>\<open>Debug\<close> shows the claims, printed by \<open>show_claims\<close>, and nothing else.\<close>

definition peer_token_debug :: "(claims \<Rightarrow> string) \<Rightarrow> peer_token \<Rightarrow> string" where
  "peer_token_debug show_claims t = ''PeerToken { claims: '' @ show_claims (pt_claims t) @ '', .. }''"

section \<open>The key store\<close>

definition refresh_cooldown :: duration where
  "refresh_cooldown = from_secs 60"

record ('key, 'c) auth_options =
  opt_bff :: "'key bff_trust option"
  opt_login :: "'c login option"
  opt_peers :: "peer list"

record ('jwks, 'key, 'c) jwks_store =
  keys :: 'jwks
  st_issuer :: string
  st_audience :: string
  last_refresh :: "instant option"
  st_dev :: bool
  st_bff :: "'key bff_trust option"
  st_login :: "'c login option"
  st_peers :: "peer list"

text \<open>What the identity provider serves: documents by URL, and reading a string member of one.\<close>

record ('json, 'jwks) web =
  get_json :: "string \<Rightarrow> 'json option"
  json_str :: "'json \<Rightarrow> string \<Rightarrow> string option"
  get_jwks :: "string \<Rightarrow> 'jwks option"

definition fetch_jwks :: "('json, 'jwks) web \<Rightarrow> string \<Rightarrow> 'jwks option" where
  "fetch_jwks W iss =
     (case get_json W (trim_end_matches CHR ''/'' iss @ ''/.well-known/openid-configuration'') of None \<Rightarrow> None
      | Some d \<Rightarrow> (case json_str W d ''jwks_uri'' of None \<Rightarrow> None | Some uri \<Rightarrow> get_jwks W uri))"

datatype auth_error =
  Dev_mismatch | Issuer_mismatch | Peer_audience string | Peer_repeated string | Peer_credential_header string | Http_not_built

definition credential_headers :: "string list" where
  "credential_headers = [''authorization'', ''cookie'', to_ascii_lowercase assertion_header]"

fun check_peers :: "string \<Rightarrow> peer list \<Rightarrow> peer list \<Rightarrow> auth_error option" where
  "check_peers own seen [] = None"
| "check_peers own seen (p # ps) =
     (if peer_audience p = [] \<or> peer_audience p = own then Some (Peer_audience (peer_name p))
      else if list_ex (\<lambda>q. peer_name q = peer_name p \<or> peer_header q = peer_header p) seen then Some (Peer_repeated (peer_name p))
      else if peer_header p \<in> set credential_headers then Some (Peer_credential_header (peer_name p))
      else check_peers own (seen @ [p]) ps)"

definition with_options ::
  "('key, 'enc, 'jwks, 'jwk) jwt_lib \<Rightarrow> ('json, 'jwks) web \<Rightarrow> bool \<Rightarrow> string \<Rightarrow> string \<Rightarrow> bool \<Rightarrow> ('key, 'c) auth_options
     \<Rightarrow> auth_error + ('jwks, 'key, 'c) jwks_store" where
  "with_options J W http_ok iss aud dev opts =
     (if (case opt_login opts of Some l \<Rightarrow> login_is_disabled l \<noteq> dev | None \<Rightarrow> False) then Inl Dev_mismatch
      else if opt_peers opts \<noteq> []
        \<and> (case Option.bind (opt_login opts) login_issuer of
             Some li \<Rightarrow> trim_end_matches CHR ''/'' li \<noteq> trim_end_matches CHR ''/'' iss | None \<Rightarrow> False) then Inl Issuer_mismatch
      else (case check_peers aud [] (opt_peers opts) of Some e \<Rightarrow> Inl e | None \<Rightarrow>
        if \<not> http_ok then Inl Http_not_built
        else Inr \<lparr>keys = (if dev \<or> iss = [] then jwks_empty J
                          else case fetch_jwks W iss of Some k \<Rightarrow> k | None \<Rightarrow> jwks_empty J),
                  st_issuer = iss, st_audience = aud, last_refresh = None, st_dev = dev,
                  st_bff = opt_bff opts, st_login = opt_login opts, st_peers = opt_peers opts\<rparr>))"

definition no_options :: "('key, 'c) auth_options" where
  "no_options = \<lparr>opt_bff = None, opt_login = None, opt_peers = []\<rparr>"

definition jwks_new where
  "jwks_new J W http_ok iss aud dev = with_options J W http_ok iss aud dev no_options"

definition with_bff_trust where
  "with_bff_trust J W http_ok iss aud dev b = with_options J W http_ok iss aud dev (no_options\<lparr>opt_bff := Some b\<rparr>)"

section \<open>Validating a token\<close>

datatype gate_decision = Present | Cooling | Must_fetch

definition refresh_decision :: "('key, 'enc, 'jwks, 'jwk) jwt_lib \<Rightarrow> string \<Rightarrow> instant \<Rightarrow> ('jwks, 'key, 'c) jwks_store \<Rightarrow> gate_decision" where
  "refresh_decision J kid now s =
     (if jwks_find J (keys s) kid \<noteq> None then Present
      else (case last_refresh s of
              Some t \<Rightarrow> if elapsed now t < refresh_cooldown then Cooling else Must_fetch
            | None \<Rightarrow> Must_fetch))"

definition refresh_done :: "'jwks option \<Rightarrow> instant \<Rightarrow> ('jwks, 'key, 'c) jwks_store \<Rightarrow> bool \<times> ('jwks, 'key, 'c) jwks_store" where
  "refresh_done fetched now s =
     (let s1 = s\<lparr>last_refresh := Some now\<rparr>
      in case fetched of Some fresh \<Rightarrow> (True, s1\<lparr>keys := fresh\<rparr>) | None \<Rightarrow> (False, s1))"

record ('json, 'jwks) refresh_call =
  ref_locked :: instant
  ref_done :: instant
  ref_web :: "('json, 'jwks) web"

definition ensure_key ::
  "('key, 'enc, 'jwks, 'jwk) jwt_lib \<Rightarrow> ('json, 'jwks) refresh_call \<Rightarrow> string \<Rightarrow> ('jwks, 'key, 'c) jwks_store
     \<Rightarrow> bool \<times> ('jwks, 'key, 'c) jwks_store" where
  "ensure_key J r kid s =
     (if jwks_find J (keys s) kid \<noteq> None then (True, s)
      else (case refresh_decision J kid (ref_locked r) s of
              Present \<Rightarrow> (True, s)
            | Cooling \<Rightarrow> (False, s)
            | Must_fetch \<Rightarrow> refresh_done (fetch_jwks (ref_web r) (st_issuer s)) (ref_done r) s))"

definition bearer_validation :: "('key, 'enc, 'jwks, 'jwk) jwt_lib \<Rightarrow> string \<Rightarrow> string \<Rightarrow> validation" where
  "bearer_validation J iss aud = (validation_rs256 J)\<lparr>v_issuer := Some [iss], v_audience := Some [aud],
     v_required := [''exp'', ''iss'', ''aud'', ''sub'']\<rparr>"

text \<open>\<open>Validated\<close>: the claims with the audience, which must be there to deserialise.\<close>

definition validated_of_payload :: "payload \<Rightarrow> (claims \<times> string list) option" where
  "validated_of_payload p =
     (case (claims_of_payload p, pl_aud p) of (Some c, Some a) \<Rightarrow> Some (c, into_vec a) | _ \<Rightarrow> None)"

definition verify_with_keys ::
  "('key, 'enc, 'jwks, 'jwk) jwt_lib \<Rightarrow> 'jwks \<Rightarrow> string \<Rightarrow> string \<Rightarrow> string \<Rightarrow> string \<Rightarrow> (claims \<times> string list) option" where
  "verify_with_keys J ks kid iss aud token =
     (case jwks_find J ks kid of None \<Rightarrow> None | Some jwk \<Rightarrow>
      (case key_from_jwk J jwk of None \<Rightarrow> None | Some key \<Rightarrow>
        Option.bind (decode_token J token key (bearer_validation J iss aud)) validated_of_payload))"

definition validate_for ::
  "('key, 'enc, 'jwks, 'jwk) jwt_lib \<Rightarrow> ('json, 'jwks) refresh_call \<Rightarrow> string \<Rightarrow> string \<Rightarrow> ('jwks, 'key, 'c) jwks_store
     \<Rightarrow> (status_code + claims \<times> string list) \<times> ('jwks, 'key, 'c) jwks_store" where
  "validate_for J r token aud s =
     (case Option.bind (decode_header J token) jh_kid of
        None \<Rightarrow> (Inl UNAUTHORIZED, s)
      | Some kid \<Rightarrow>
          (case ensure_key J r kid s of
             (False, s') \<Rightarrow> (Inl UNAUTHORIZED, s')
           | (True, s') \<Rightarrow>
               (case verify_with_keys J (keys s') kid (st_issuer s') aud token of
                  None \<Rightarrow> Inl UNAUTHORIZED | Some x \<Rightarrow> Inr x, s')))"

definition validate ::
  "('key, 'enc, 'jwks, 'jwk) jwt_lib \<Rightarrow> ('json, 'jwks) refresh_call \<Rightarrow> string \<Rightarrow> ('jwks, 'key, 'c) jwks_store
     \<Rightarrow> (status_code + claims) \<times> ('jwks, 'key, 'c) jwks_store" where
  "validate J r token s =
     (case validate_for J r token (st_audience s) s of
        (Inl e, s') \<Rightarrow> (Inl e, s')
      | (Inr (c, audiences), s') \<Rightarrow>
          (if list_ex (\<lambda>p. peer_audience p \<in> set audiences) (st_peers s') then Inl UNAUTHORIZED else Inr c, s'))"

definition peer_token_of ::
  "http_lib \<Rightarrow> ('key, 'enc, 'jwks, 'jwk) jwt_lib \<Rightarrow> ('json, 'jwks) refresh_call \<Rightarrow> headers \<Rightarrow> claims \<Rightarrow> string \<Rightarrow> ('jwks, 'key, 'c) jwks_store
     \<Rightarrow> (status_code + peer_token option) \<times> ('jwks, 'key, 'c) jwks_store" where
  "peer_token_of H J r h user name s =
     (case find (\<lambda>p. peer_name p = name) (st_peers s) of None \<Rightarrow> (Inl INTERNAL_SERVER_ERROR, s) | Some p \<Rightarrow>
      (case header_get h (peer_header p) of None \<Rightarrow> (Inr None, s) | Some v \<Rightarrow>
       (case to_str H v of None \<Rightarrow> (Inl UNAUTHORIZED, s) | Some token \<Rightarrow>
         if st_dev s then (Inr (Some \<lparr>pt_token = token, pt_claims = user\<rparr>), s)
         else (case validate_for J r token (peer_audience p) s of
             (Inl e, s') \<Rightarrow> (Inl e, s')
           | (Inr (c, _), s') \<Rightarrow>
               (if cl_sub c \<noteq> cl_sub user then Inl UNAUTHORIZED else Inr (Some \<lparr>pt_token = token, pt_claims = c\<rparr>), s')))))"

section \<open>Who a request is\<close>

record ('json, 'jwks) request_world =
  rw_wall :: int
  rw_now :: instant
  rw_refresh :: "('json, 'jwks) refresh_call"

definition dev_claims :: "int \<Rightarrow> claims" where
  "dev_claims wall = \<lparr>cl_sub = ''dev'', cl_email = Some ''dev@local'', cl_exp = - 1, cl_auth_time = Some (unix_now wall)\<rparr>"

definition bearer_text :: "http_lib \<Rightarrow> headers \<Rightarrow> string option" where
  "bearer_text H h = Option.bind (header_text H h ''authorization'') (strip_prefix ''Bearer '')"

definition bearer_identity ::
  "http_lib \<Rightarrow> ('key, 'enc, 'jwks, 'jwk) jwt_lib \<Rightarrow> ('json, 'jwks) request_world \<Rightarrow> headers \<Rightarrow> ('jwks, 'key, 'c) jwks_store
     \<Rightarrow> (status_code + claims) \<times> ('jwks, 'key, 'c) jwks_store" where
  "bearer_identity H J w h s =
     (case bearer_text H h of None \<Rightarrow> (Inl UNAUTHORIZED, s) | Some token \<Rightarrow> validate J (rw_refresh w) token s)"

definition from_request_parts ::
  "http_lib \<Rightarrow> ('key, 'enc, 'jwks, 'jwk) jwt_lib \<Rightarrow> ('json, 'jwks) request_world \<Rightarrow> parts \<Rightarrow> ('jwks, 'key, 'c) jwks_store
     \<Rightarrow> (status_code + claims) \<times> ('jwks, 'key, 'c) jwks_store" where
  "from_request_parts H J w r s =
     (if st_dev s then (Inr (dev_claims (rw_wall w)), s)
      else (case (st_bff s, header_text H (p_headers r) (to_ascii_lowercase assertion_header)) of
        (Some b, Some assertion) \<Rightarrow> (bff_verify J b assertion, s)
      | _ \<Rightarrow>
        (case (header_get (p_headers r) ''authorization'', st_login s) of
          (None, Some l) \<Rightarrow>
            (case authenticate H (rw_now w) r l of
               (Some x, l') \<Rightarrow> (x, s\<lparr>st_login := Some l'\<rparr>)
             | (None, l') \<Rightarrow> bearer_identity H J w (p_headers r) (s\<lparr>st_login := Some l'\<rparr>))
        | _ \<Rightarrow> bearer_identity H J w (p_headers r) s)))"

section \<open>Lemmas\<close>

lemma refresh_keeps [simp]:
  "st_issuer (snd (ensure_key J r kid s)) = st_issuer s" "st_peers (snd (ensure_key J r kid s)) = st_peers s"
  "st_audience (snd (ensure_key J r kid s)) = st_audience s"
  by (auto simp: ensure_key_def refresh_done_def Let_def split: gate_decision.splits option.splits)

lemma validate_for_Inr:
  assumes "decode_checks J signs unexpired" and "validate_for J r token aud s = (Inr (c, auds), s')"
  obtains kid jwk key p where "jwks_find J (keys s') kid = Some jwk" "key_from_jwk J jwk = Some key"
    "signs token key p" "pl_iss p = Some (st_issuer s)" "pl_sub p = Some (cl_sub c)" "pl_exp p = Some (cl_exp c)" "unexpired (cl_exp c)"
    "claims_of_payload p = Some c" "\<exists>a. pl_aud p = Some a \<and> auds = into_vec a" "aud \<in> set auds" "st_peers s' = st_peers s"
proof -
  obtain kid where kid: "Option.bind (decode_header J token) jh_kid = Some kid"
    using assms(2) by (auto simp: validate_for_def split: option.splits)
  obtain ok s1 where e: "ensure_key J r kid s = (ok, s1)" by fastforce
  have keeps: "st_issuer s1 = st_issuer s" "st_peers s1 = st_peers s"
    using refresh_keeps(1,2)[of J r kid s] by (simp_all add: e)
  have v: "verify_with_keys J (keys s1) kid (st_issuer s1) aud token = Some (c, auds)" and s': "s' = s1"
    using assms(2) kid e by (auto simp: validate_for_def split: bool.splits option.splits)
  then obtain jwk key p where k: "jwks_find J (keys s1) kid = Some jwk" "key_from_jwk J jwk = Some key"
      "decode_token J token key (bearer_validation J (st_issuer s) aud) = Some p" "validated_of_payload p = Some (c, auds)"
    by (auto simp: verify_with_keys_def keeps bind_eq_Some_conv split: option.splits)
  have p: "signs token key p" "passes unexpired (bearer_validation J (st_issuer s) aud) p"
    using k(3) assms(1) by (simp_all add: decode_checks_def)
  obtain a where c: "claims_of_payload p = Some c" and a: "pl_aud p = Some a" "auds = into_vec a"
    using k(4) by (auto simp: validated_of_payload_def split: option.splits)
  from c have ce: "pl_sub p = Some (cl_sub c)" "pl_exp p = Some (cl_exp c)"
    by (auto simp: claims_of_payload_def split: option.splits)
  from p(2) have "has_claim p ''iss''" "unexpired (cl_exp c)" "\<forall>i. pl_iss p = Some i \<longrightarrow> i = st_issuer s" "aud \<in> set auds"
    by (auto simp: passes_def bearer_validation_def ce a)
  then have "pl_iss p = Some (st_issuer s)" by (auto simp: has_claim_def)
  with k p c a ce keeps s' show thesis
    using \<open>unexpired (cl_exp c)\<close> \<open>aud \<in> set auds\<close> by (intro that[of kid jwk key p]) auto
qed

text \<open>
  Where the keys of a store come from. A service identifies requests and asks for peer tokens in any order, each with
  the issuer as it answers then; \<open>published\<close> are the key sets it served when the store was built and at the
  requests.
\<close>

datatype ('json, 'jwks) auth_op =
    Identify "('json, 'jwks) request_world" parts
  | Ask_peer "('json, 'jwks) refresh_call" headers claims string

fun refresh_of :: "('json, 'jwks) auth_op \<Rightarrow> ('json, 'jwks) refresh_call" where
  "refresh_of (Identify w r) = rw_refresh w"
| "refresh_of (Ask_peer r h user name) = r"

fun auth_apply ::
  "http_lib \<Rightarrow> ('key, 'enc, 'jwks, 'jwk) jwt_lib \<Rightarrow> ('json, 'jwks) auth_op \<Rightarrow> ('jwks, 'key, 'c) jwks_store \<Rightarrow> ('jwks, 'key, 'c) jwks_store" where
  "auth_apply H J (Identify w r) s = snd (from_request_parts H J w r s)"
| "auth_apply H J (Ask_peer r h user name) s = snd (peer_token_of H J r h user name s)"

definition published :: "string \<Rightarrow> ('json, 'jwks) web \<Rightarrow> ('json, 'jwks) refresh_call list \<Rightarrow> 'jwks set" where
  "published iss W rs = {ks. \<exists>V \<in> insert W (ref_web ` set rs). fetch_jwks V iss = Some ks}"

lemma ensure_key_keys:
  "keys (snd (ensure_key J r kid s)) = keys s \<or> fetch_jwks (ref_web r) (st_issuer s) = Some (keys (snd (ensure_key J r kid s)))"
  by (auto simp: ensure_key_def refresh_done_def Let_def split: gate_decision.splits option.splits)

lemma validate_for_state: "\<exists>kid. snd (validate_for J r token aud s) \<in> {s, snd (ensure_key J r kid s)}"
proof (cases "Option.bind (decode_header J token) jh_kid")
  case (Some kid)
  obtain ok s1 where "ensure_key J r kid s = (ok, s1)" by fastforce
  with Some show ?thesis by (cases ok) (auto simp: validate_for_def intro: exI[of _ kid])
qed (simp add: validate_for_def)

text \<open>What an operation leaves alone, and what it makes of the keys.\<close>

definition same_service :: "('json, 'jwks) refresh_call \<Rightarrow> ('jwks, 'key, 'c) jwks_store \<Rightarrow> ('jwks, 'key, 'c) jwks_store \<Rightarrow> bool" where
  "same_service r s s' \<longleftrightarrow> st_issuer s' = st_issuer s \<and> st_audience s' = st_audience s \<and> st_peers s' = st_peers s
     \<and> (keys s' = keys s \<or> fetch_jwks (ref_web r) (st_issuer s) = Some (keys s'))"

lemma same_service_refl [simp]: "same_service r s s" "same_service r (s\<lparr>st_login := l\<rparr>) s' = same_service r s s'"
    "same_service r s (s\<lparr>st_login := l\<rparr>)"
  by (simp_all add: same_service_def)

lemma validate_for_service: "same_service r s (snd (validate_for J r token aud s))"
proof -
  obtain kid where "snd (validate_for J r token aud s) \<in> {s, snd (ensure_key J r kid s)}"
    using validate_for_state[of J r token aud s] by blast
  with ensure_key_keys[of J r kid s] show ?thesis by (auto simp: same_service_def)
qed

lemma validate_service: "same_service r s (snd (validate J r token s))"
  using validate_for_service[of r s J token "st_audience s"]
  by (cases "validate_for J r token (st_audience s) s") (auto simp: validate_def split: sum.splits)

lemma bearer_service: "same_service (rw_refresh w) s (snd (bearer_identity H J w h s))"
  by (auto simp: bearer_identity_def validate_service split: option.split)

lemma auth_apply_service: "same_service (refresh_of x) s (auth_apply H J x s)"
proof (cases x)
  case (Identify w r)
  have "same_service (rw_refresh w) s (snd (bearer_identity H J w (p_headers r) (s\<lparr>st_login := l\<rparr>)))" for l
    using bearer_service[of w "s\<lparr>st_login := l\<rparr>" H J "p_headers r"] by simp
  with bearer_service[of w s H J "p_headers r"] Identify show ?thesis
    by (auto simp: from_request_parts_def split: option.split prod.split)
next
  case (Ask_peer r h user name)
  have "same_service r s s1" if "validate_for J r token aud s = (res, s1)" for token aud res s1
    using validate_for_service[of r s J token aud] that by simp
  with Ask_peer show ?thesis
    by (auto simp: peer_token_of_def split: option.split prod.split sum.split)
qed

lemma run_service:
  "st_issuer (run_ops (auth_apply H J) ops s) = st_issuer s \<and> st_audience (run_ops (auth_apply H J) ops s) = st_audience s
    \<and> st_peers (run_ops (auth_apply H J) ops s) = st_peers s
    \<and> (keys (run_ops (auth_apply H J) ops s) = keys s
       \<or> (\<exists>x \<in> set ops. fetch_jwks (ref_web (refresh_of x)) (st_issuer s) = Some (keys (run_ops (auth_apply H J) ops s))))"
proof (induction ops arbitrary: s)
  case (Cons x ops)
  from auth_apply_service[of x s H J] Cons.IH[of "auth_apply H J x s"] show ?case
    by (auto simp: same_service_def)
qed simp

lemma built_service:
  assumes "with_options J W http_ok iss aud dev opts = Inr s"
  shows "st_issuer s = iss" "st_audience s = aud" "st_peers s = opt_peers opts" "keys s = jwks_empty J \<or> fetch_jwks W iss = Some (keys s)"
  using assms by (auto simp: with_options_def split: if_splits option.splits)

text \<open>Every key set a store ever holds is the empty one or one the issuer published.\<close>

lemma keys_were_published:
  assumes "with_options J W http_ok iss aud dev opts = Inr s0" and "s = run_ops (auth_apply H J) ops s0"
    and "validate J r token s = (res, s')"
  shows "st_issuer s = iss" "st_audience s = aud" "st_peers s = opt_peers opts"
    and "keys s' = jwks_empty J \<or> keys s' \<in> published iss W (map refresh_of ops @ [r])"
  using built_service[OF assms(1)] run_service[of H J ops s0] validate_service[of r s J token] assms(2,3)
  by (auto simp: same_service_def published_def)

lemma validate_for_error: "fst (validate_for J r token aud s) = Inl e \<Longrightarrow> e = UNAUTHORIZED"
  by (auto simp: validate_for_def split: option.splits prod.splits bool.splits)

lemma validate_error: "fst (validate J r token s) = Inl e \<Longrightarrow> e = UNAUTHORIZED"
  using validate_for_error[of J r token "st_audience s" s]
  by (auto simp: validate_def split: prod.splits sum.splits if_splits)

lemma find_in: "find P xs = Some x \<Longrightarrow> x \<in> set xs \<and> P x"
  by (induction xs) (auto split: if_splits)

lemma peer_token_Inr:
  assumes "peer_token_of H J r h user name s = (Inr (Some t), s')" and "\<not> st_dev s"
  obtains p v auds where "p \<in> set (st_peers s)" "peer_name p = name" "header_get h (peer_header p) = Some v"
    "to_str H v = Some (pt_token t)" "validate_for J r (pt_token t) (peer_audience p) s = (Inr (pt_claims t, auds), s')"
    "cl_sub (pt_claims t) = cl_sub user"
  using assms
  by (auto simp: peer_token_of_def dest!: find_in split: option.splits prod.splits sum.splits if_splits)

text \<open>Peers as construction insists on them.\<close>

definition peers_sound :: "string \<Rightarrow> peer list \<Rightarrow> bool" where
  "peers_sound own ps \<longleftrightarrow> distinct (map peer_name ps) \<and> distinct (map peer_header ps)
     \<and> (\<forall>p \<in> set ps. peer_audience p \<noteq> [] \<and> peer_audience p \<noteq> own \<and> peer_header p \<notin> {''authorization'', ''cookie'', ''x-bff-assertion''})"

lemma assertion_header_lower: "to_ascii_lowercase assertion_header = ''x-bff-assertion''"
  by code_simp

lemma check_peers_None:
  "check_peers own seen ps = None \<longleftrightarrow>
     distinct (map peer_name ps) \<and> distinct (map peer_header ps)
   \<and> (\<forall>p \<in> set ps. peer_audience p \<noteq> [] \<and> peer_audience p \<noteq> own \<and> peer_header p \<notin> set credential_headers
        \<and> peer_name p \<notin> peer_name ` set seen \<and> peer_header p \<notin> peer_header ` set seen)"
proof (induction ps arbitrary: seen)
  case (Cons p ps)
  have "\<not> list_ex (\<lambda>q. peer_name q = peer_name p \<or> peer_header q = peer_header p) seen \<longleftrightarrow>
      peer_name p \<notin> peer_name ` set seen \<and> peer_header p \<notin> peer_header ` set seen"
    by (auto simp: list_ex_iff image_iff)
  with Cons.IH[of "seen @ [p]"] show ?case
    by (auto simp: image_iff)
qed simp

lemma check_peers_sound: "check_peers own [] ps = None \<longleftrightarrow> peers_sound own ps"
  by (auto simp: check_peers_None peers_sound_def credential_headers_def assertion_header_lower)

section \<open>A concrete provider and service\<close>

text \<open>Two tokens, one for this service, one for a peer and this service; both of one user.\<close>

definition a_payload :: "string \<Rightarrow> payload option" where
  "a_payload t = (if t = ''own'' \<or> t = ''peer'' then
     Some \<lparr>pl_iss = Some ''https://idp'', pl_sub = Some ''ada'', pl_email = None,
       pl_aud = Some (if t = ''own'' then One ''svc'' else Many [''chat'', ''svc'']),
       pl_exp = Some 100, pl_iat = None, pl_auth_time = None\<rparr> else None)"

definition fresh_until :: "usize \<Rightarrow> bool" where
  "fresh_until e \<longleftrightarrow> e > 50"

definition clear_jwt :: "(string, string, (string \<times> string) list, string) jwt_lib" where
  "clear_jwt = \<lparr>validation_rs256 = \<lparr>v_issuer = None, v_audience = None, v_required = [''exp'']\<rparr>,
     header_rs256 = \<lparr>jh_kid = None\<rparr>, decode_header = \<lambda>_. Some \<lparr>jh_kid = Some ''kid''\<rparr>,
     decode_token = \<lambda>t k v. if k = ''key'' then (case a_payload t of Some p \<Rightarrow> if passes fresh_until v p then Some p else None | None \<Rightarrow> None) else None,
     encode_token = \<lambda>_ _ _. None, key_from_pem = Some, key_from_jwk = Some, jwks_find = map_of, jwks_empty = []\<rparr>"

definition clear_signs :: "string \<Rightarrow> string \<Rightarrow> payload \<Rightarrow> bool" where
  "clear_signs t k p \<longleftrightarrow> k = ''key'' \<and> a_payload t = Some p"

lemma clear_jwt_checks: "decode_checks clear_jwt clear_signs fresh_until"
  by (auto simp: decode_checks_def clear_jwt_def clear_signs_def split: option.splits if_splits)

definition an_idp :: "(unit, (string \<times> string) list) web" where
  "an_idp = \<lparr>get_json = \<lambda>u. if u = ''https://idp/.well-known/openid-configuration'' then Some () else None,
     json_str = \<lambda>_ _. Some ''https://idp/keys'', get_jwks = \<lambda>u. if u = ''https://idp/keys'' then Some [(''kid'', ''key'')] else None\<rparr>"

definition a_store :: "((string \<times> string) list, string, unit) jwks_store" where
  "a_store = \<lparr>keys = [], st_issuer = ''https://idp'', st_audience = ''svc'', last_refresh = None, st_dev = False,
     st_bff = None, st_login = None, st_peers = [peer_new ''chat'' ''x-chat-token'' ''chat'']\<rparr>"

definition a_refresh :: "(unit, (string \<times> string) list) refresh_call" where
  "a_refresh = \<lparr>ref_locked = from_secs 100, ref_done = from_secs 101, ref_web = an_idp\<rparr>"

lemma an_idp_keys: "fetch_jwks an_idp ''https://idp'' = Some [(''kid'', ''key'')]"
  by (simp add: fetch_jwks_def an_idp_def trim_end_matches_def)

lemma a_validation:
  assumes "a_payload t = Some p" and "aud \<in> set (into_vec (the (pl_aud p)))"
  shows "validate_for clear_jwt a_refresh t aud a_store =
    (Inr (\<lparr>cl_sub = ''ada'', cl_email = None, cl_exp = 100, cl_auth_time = None\<rparr>, into_vec (the (pl_aud p))),
     a_store\<lparr>last_refresh := Some (from_secs 101), keys := [(''kid'', ''key'')]\<rparr>)"
proof -
  have p: "claims_of_payload p = Some \<lparr>cl_sub = ''ada'', cl_email = None, cl_exp = 100, cl_auth_time = None\<rparr>" "pl_aud p \<noteq> None"
    and pass: "passes fresh_until (bearer_validation clear_jwt ''https://idp'' aud) p"
    using assms
    by (auto simp: a_payload_def claims_of_payload_def passes_def bearer_validation_def has_claim_def fresh_until_def into_vec_def split: if_splits)
  have "ensure_key clear_jwt a_refresh ''kid'' a_store = (True, a_store\<lparr>last_refresh := Some (from_secs 101), keys := [(''kid'', ''key'')]\<rparr>)"
    using an_idp_keys by (simp add: ensure_key_def refresh_decision_def refresh_done_def a_refresh_def a_store_def clear_jwt_def)
  moreover have "verify_with_keys clear_jwt [(''kid'', ''key'')] ''kid'' ''https://idp'' aud t
      = Some (\<lparr>cl_sub = ''ada'', cl_email = None, cl_exp = 100, cl_auth_time = None\<rparr>, into_vec (the (pl_aud p)))"
    using assms(1) p pass by (auto simp: verify_with_keys_def clear_jwt_def validated_of_payload_def bearer_validation_def)
  moreover have "Option.bind (decode_header clear_jwt t) jh_kid = Some ''kid''"
    by (simp add: clear_jwt_def)
  ultimately show ?thesis
    by (simp add: validate_for_def) (simp add: a_store_def)
qed

lemma own_validates: "validate clear_jwt a_refresh ''own'' a_store =
    (Inr \<lparr>cl_sub = ''ada'', cl_email = None, cl_exp = 100, cl_auth_time = None\<rparr>,
     a_store\<lparr>last_refresh := Some (from_secs 101), keys := [(''kid'', ''key'')]\<rparr>)"
proof -
  obtain p where p: "a_payload ''own'' = Some p" "into_vec (the (pl_aud p)) = [''svc'']"
    by (simp add: a_payload_def into_vec_def)
  have "validate_for clear_jwt a_refresh ''own'' ''svc'' a_store =
    (Inr (\<lparr>cl_sub = ''ada'', cl_email = None, cl_exp = 100, cl_auth_time = None\<rparr>, [''svc'']),
     a_store\<lparr>last_refresh := Some (from_secs 101), keys := [(''kid'', ''key'')]\<rparr>)"
    using a_validation[OF p(1), of "''svc''"] p(2) by simp
  moreover have "st_audience a_store = ''svc''" by (simp add: a_store_def)
  ultimately show ?thesis
    by (simp add: validate_def) (simp add: a_store_def peer_new_def)
qed

section \<open>Properties\<close>

text \<open>C4
  A bearer token is accepted only if it is this service's own. In a store built by \<open>with_options\<close> and used
  for any identifications and peer tokens, an accepted bearer was signed under a key of a key set that
  the issuer itself published, when the store was built or at one of the requests up to this one, so under none that
  came from elsewhere; it names exactly this issuer, is unexpired, has a subject, names this service's audience, and
  names no peer's audience; the claims are those it carries. Any failure is 401.\<close>

theorem bearer_is_for_this_service_only:
  fixes W :: "('json, 'jwks) web" and opts :: "('key, 'c) auth_options"
  assumes "decode_checks J signs unexpired" and "\<forall>kid. jwks_find J (jwks_empty J) kid = None"
    and "with_options J W http_ok iss aud dev opts = Inr s0" and "s = run_ops (auth_apply H J) ops s0"
  shows "(\<forall>c s'. validate J r token s = (Inr c, s') \<longrightarrow>
      (\<exists>ks kid jwk key p auds. ks \<in> published iss W (map refresh_of ops @ [r])
        \<and> jwks_find J ks kid = Some jwk \<and> key_from_jwk J jwk = Some key \<and> signs token key p
        \<and> pl_iss p = Some iss \<and> pl_sub p = Some (cl_sub c) \<and> claims_of_payload p = Some c \<and> unexpired (cl_exp c)
        \<and> map_option into_vec (pl_aud p) = Some auds \<and> aud \<in> set auds
        \<and> (\<forall>q \<in> set (opt_peers opts). peer_audience q \<notin> set auds)))
    \<and> (\<forall>e. fst (validate J r token s) = Inl e \<longrightarrow> e = UNAUTHORIZED)"
proof (intro conjI allI impI)
  fix c s' assume val: "validate J r token s = (Inr c, s')"
  note store = keys_were_published[OF assms(3,4) val]
  from val obtain auds where v: "validate_for J r token (st_audience s) s = (Inr (c, auds), s')"
      and none: "\<not> list_ex (\<lambda>p. peer_audience p \<in> set auds) (st_peers s')"
    by (auto simp: validate_def split: prod.splits sum.splits if_splits)
  from assms(1) v obtain kid jwk key p where k: "jwks_find J (keys s') kid = Some jwk" "key_from_jwk J jwk = Some key"
    "signs token key p" "pl_iss p = Some (st_issuer s)" "pl_sub p = Some (cl_sub c)" "pl_exp p = Some (cl_exp c)" "unexpired (cl_exp c)"
    "claims_of_payload p = Some c" "\<exists>a. pl_aud p = Some a \<and> auds = into_vec a" "st_audience s \<in> set auds" "st_peers s' = st_peers s"
    by (rule validate_for_Inr)
  then have "map_option into_vec (pl_aud p) = Some auds" by auto
  moreover have "\<forall>q \<in> set (opt_peers opts). peer_audience q \<notin> set auds"
    using none k(11) store(3) by (auto simp: list_ex_iff)
  moreover have "keys s' \<in> published iss W (map refresh_of ops @ [r])"
    using store(4) k(1) assms(2) by auto
  ultimately show "\<exists>ks kid jwk key p auds. ks \<in> published iss W (map refresh_of ops @ [r])
        \<and> jwks_find J ks kid = Some jwk \<and> key_from_jwk J jwk = Some key \<and> signs token key p
        \<and> pl_iss p = Some iss \<and> pl_sub p = Some (cl_sub c) \<and> claims_of_payload p = Some c \<and> unexpired (cl_exp c)
        \<and> map_option into_vec (pl_aud p) = Some auds \<and> aud \<in> set auds
        \<and> (\<forall>q \<in> set (opt_peers opts). peer_audience q \<notin> set auds)"
    using k(1-5,7,8,10) unfolding store(1,2) by blast
qed (rule validate_error)

lemma a_store_built:
  "with_options clear_jwt (an_idp\<lparr>get_jwks := \<lambda>_. None\<rparr>) True ''https://idp'' ''svc'' False
     \<lparr>opt_bff = None, opt_login = None, opt_peers = [peer_new ''chat'' ''x-chat-token'' ''chat'']\<rparr> = Inr a_store"
proof -
  have "check_peers ''svc'' [] [peer_new ''chat'' ''x-chat-token'' ''chat''] = None"
    by (simp add: peer_new_def credential_headers_def assertion_header_lower)
  moreover have "fetch_jwks (an_idp\<lparr>get_jwks := \<lambda>_. None\<rparr>) ''https://idp'' = None"
    by (simp add: fetch_jwks_def split: option.split)
  ultimately show ?thesis
    by (simp add: with_options_def a_store_def del: check_peers.simps) (simp add: clear_jwt_def)
qed

theorem bearer_is_for_this_service_only_witness:
  "\<exists>c s' ks p. validate clear_jwt a_refresh ''own'' a_store = (Inr c, s') \<and> cl_sub c = ''ada'' \<and> clear_signs ''own'' ''key'' p
     \<and> ks \<in> published ''https://idp'' (an_idp\<lparr>get_jwks := \<lambda>_. None\<rparr>) [a_refresh] \<and> (\<exists>kid jwk. jwks_find clear_jwt ks kid = Some jwk)"
proof -
  let ?c = "\<lparr>cl_sub = ''ada'', cl_email = None, cl_exp = 100, cl_auth_time = None\<rparr>"
  let ?s = "a_store\<lparr>last_refresh := Some (from_secs 101), keys := [(''kid'', ''key'')]\<rparr>"
  have e: "\<forall>kid. jwks_find clear_jwt (jwks_empty clear_jwt) kid = None" by (simp add: clear_jwt_def)
  have run: "a_store = run_ops (auth_apply plain_http clear_jwt) [] a_store" by simp
  from bearer_is_for_this_service_only[OF clear_jwt_checks e a_store_built run, of a_refresh "''own''"] own_validates
  obtain ks kid jwk key p where "ks \<in> published ''https://idp'' (an_idp\<lparr>get_jwks := \<lambda>_. None\<rparr>) [a_refresh]"
      "jwks_find clear_jwt ks kid = Some jwk" "clear_signs ''own'' key p"
    by auto
  moreover from this(3) have "key = ''key''" by (simp add: clear_signs_def)
  ultimately show ?thesis
    using own_validates by (intro exI[of _ ?c] exI[of _ ?s] exI[of _ ks] exI[of _ p]) auto
qed

text \<open>C6
  A peer token is only ever used for the user it belongs to, and is never a credential: outside
  \<open>dev_no_auth\<close>, a token handed to the caller was forwarded in that peer's own header, is signed under a
  key the store then holds by the issuer for the peer's audience, unexpired, and has the request user's subject;
  and the very same token presented as a bearer to this store, now or after any key change, is
  refused with 401.\<close>

theorem peer_token_is_bound_and_no_credential:
  fixes r :: "('json, 'jwks) refresh_call" and s :: "('jwks, 'key, 'c) jwks_store"
  assumes "decode_checks J signs unexpired" and "\<not> st_dev s"
    and "peer_token_of H J r h user name s = (Inr (Some t), s')"
  shows "cl_sub (peer_claims t) = cl_sub user
    \<and> (\<exists>p v kid jwk key pl auds. p \<in> set (st_peers s) \<and> peer_name p = name
        \<and> header_get h (peer_header p) = Some v \<and> to_str H v = Some (peer_bearer t)
        \<and> jwks_find J (keys s') kid = Some jwk \<and> key_from_jwk J jwk = Some key \<and> signs (peer_bearer t) key pl
        \<and> pl_iss pl = Some (st_issuer s) \<and> claims_of_payload pl = Some (peer_claims t) \<and> unexpired (cl_exp (peer_claims t))
        \<and> map_option into_vec (pl_aud pl) = Some auds \<and> peer_audience p \<in> set auds)
    \<and> (\<forall>(r2 :: ('json, 'jwks) refresh_call) (s2 :: ('jwks, 'key, 'c) jwks_store). st_peers s2 = st_peers s \<longrightarrow> fst (validate J r2 (peer_bearer t) s2) = Inl UNAUTHORIZED)"
proof -
  obtain p v auds where p: "p \<in> set (st_peers s)" "peer_name p = name" "header_get h (peer_header p) = Some v"
    "to_str H v = Some (pt_token t)" "validate_for J r (pt_token t) (peer_audience p) s = (Inr (pt_claims t, auds), s')"
    "cl_sub (pt_claims t) = cl_sub user"
    by (rule peer_token_Inr[OF assms(3,2)])
  from assms(1) p(5) obtain kid jwk key pl where k: "jwks_find J (keys s') kid = Some jwk" "key_from_jwk J jwk = Some key"
    "signs (pt_token t) key pl" "pl_iss pl = Some (st_issuer s)" "pl_sub pl = Some (cl_sub (pt_claims t))"
    "pl_exp pl = Some (cl_exp (pt_claims t))" "unexpired (cl_exp (pt_claims t))"
    "claims_of_payload pl = Some (pt_claims t)" "\<exists>a. pl_aud pl = Some a \<and> auds = into_vec a" "peer_audience p \<in> set auds"
    "st_peers s' = st_peers s"
    by (rule validate_for_Inr)
  have refused: "fst (validate J r2 (pt_token t) s2) = Inl UNAUTHORIZED" if same: "st_peers s2 = st_peers s"
    for r2 :: "('json, 'jwks) refresh_call" and s2 :: "('jwks, 'key, 'c) jwks_store"
  proof -
    obtain res s3 where v: "validate_for J r2 (pt_token t) (st_audience s2) s2 = (res, s3)" by fastforce
    show ?thesis
    proof (cases res)
      case (Inl e)
      with v validate_for_error[of J r2 "pt_token t" "st_audience s2" s2] show ?thesis
        by (simp add: validate_def)
    next
      case (Inr ca)
      obtain c2 auds2 where ca: "ca = (c2, auds2)" by fastforce
      from v Inr ca have v': "validate_for J r2 (pt_token t) (st_audience s2) s2 = (Inr (c2, auds2), s3)" by simp
      from assms(1) v' obtain key2 pl2 where k2: "signs (pt_token t) key2 pl2"
          "\<exists>a. pl_aud pl2 = Some a \<and> auds2 = into_vec a" "st_peers s3 = st_peers s2"
        by (rule validate_for_Inr)
      have "pl2 = pl"
        using assms(1) k(3) k2(1) unfolding decode_checks_def by blast
      then have "auds2 = auds" using k(9) k2(2) by auto
      then have "list_ex (\<lambda>q. peer_audience q \<in> set auds2) (st_peers s3)"
        using p(1) k(10) k2(3) same by (auto simp: list_ex_iff)
      with v' show ?thesis by (simp add: validate_def)
    qed
  qed
  have "map_option into_vec (pl_aud pl) = Some auds" using k(9) by auto
  with p k refused show ?thesis
    unfolding peer_bearer_def peer_claims_def by blast
qed

theorem peer_token_is_bound_and_no_credential_witness:
  "\<exists>t s'. peer_token_of plain_http clear_jwt a_refresh [(''x-chat-token'', ''peer'')]
       \<lparr>cl_sub = ''ada'', cl_email = None, cl_exp = 9, cl_auth_time = None\<rparr> ''chat'' a_store = (Inr (Some t), s')
     \<and> cl_sub (peer_claims t) = ''ada'' \<and> fst (validate clear_jwt a_refresh (peer_bearer t) a_store) = Inl UNAUTHORIZED"
proof -
  obtain p where p: "a_payload ''peer'' = Some p" "into_vec (the (pl_aud p)) = [''chat'', ''svc'']"
    by (simp add: a_payload_def into_vec_def)
  let ?u = "\<lparr>cl_sub = ''ada'', cl_email = None, cl_exp = 9, cl_auth_time = None\<rparr>"
  have v: "validate_for clear_jwt a_refresh ''peer'' ''chat'' a_store =
    (Inr (\<lparr>cl_sub = ''ada'', cl_email = None, cl_exp = 100, cl_auth_time = None\<rparr>, [''chat'', ''svc'']),
     a_store\<lparr>last_refresh := Some (from_secs 101), keys := [(''kid'', ''key'')]\<rparr>)"
    using a_validation[OF p(1), of "''chat''"] p(2) by simp
  have d: "\<not> st_dev a_store" "st_peers a_store = [peer_new ''chat'' ''x-chat-token'' ''chat'']"
    by (simp_all add: a_store_def)
  then obtain t s' where t: "peer_token_of plain_http clear_jwt a_refresh [(''x-chat-token'', ''peer'')] ?u ''chat'' a_store = (Inr (Some t), s')"
    using v by (simp add: peer_token_of_def peer_new_def header_get_def)
  from peer_token_is_bound_and_no_credential[OF clear_jwt_checks d(1) t] t show ?thesis
    by (intro exI[of _ t] exI[of _ s']) simp
qed

lemma built_is_sound:
  fixes W :: "('json, 'jwks) web"
  assumes "with_options J W http_ok iss aud dev opts = Inr s"
  shows "(\<forall>l. st_login s = Some l \<longrightarrow> (login_is_disabled l \<longleftrightarrow> st_dev s))
    \<and> (st_peers s \<noteq> [] \<longrightarrow> (\<forall>l li. st_login s = Some l \<longrightarrow> login_issuer l = Some li \<longrightarrow>
          trim_end_matches CHR ''/'' li = trim_end_matches CHR ''/'' (st_issuer s)))
    \<and> peers_sound (st_audience s) (st_peers s) \<and> last_refresh s = None
    \<and> (\<forall>W' :: ('json, 'jwks) web. \<exists>s'. with_options J W' http_ok iss aud dev opts = Inr s' \<and> s' = s\<lparr>keys := keys s'\<rparr>)"
proof -
  define ks where "ks = (\<lambda>W :: ('json, 'jwks) web. if dev \<or> iss = [] then jwks_empty J else case fetch_jwks W iss of Some k \<Rightarrow> k | None \<Rightarrow> jwks_empty J)"
  let ?s = "\<lambda>W. \<lparr>keys = ks W, st_issuer = iss, st_audience = aud, last_refresh = None, st_dev = dev,
                  st_bff = opt_bff opts, st_login = opt_login opts, st_peers = opt_peers opts\<rparr>"
  define bad_dev where "bad_dev = (case opt_login opts of Some l \<Rightarrow> login_is_disabled l \<noteq> dev | None \<Rightarrow> False)"
  define bad_iss where "bad_iss = (opt_peers opts \<noteq> [] \<and> (case Option.bind (opt_login opts) login_issuer of
             Some li \<Rightarrow> trim_end_matches CHR ''/'' li \<noteq> trim_end_matches CHR ''/'' iss | None \<Rightarrow> False))"
  have eq: "with_options J W http_ok iss aud dev opts = (if bad_dev then Inl Dev_mismatch else if bad_iss then Inl Issuer_mismatch
      else case check_peers aud [] (opt_peers opts) of Some e \<Rightarrow> Inl e | None \<Rightarrow> if \<not> http_ok then Inl Http_not_built else Inr (?s W))" for W
    unfolding with_options_def bad_dev_def bad_iss_def ks_def by (rule refl)
  have g: "\<not> bad_dev" "\<not> bad_iss" "check_peers aud [] (opt_peers opts) = None" "http_ok" and s: "s = ?s W"
    using assms unfolding eq by (simp_all split: if_splits option.splits)
  have "with_options J W' http_ok iss aud dev opts = Inr (?s W')" for W' :: "('json, 'jwks) web"
    unfolding eq by (simp only: g if_False option.case not_True_eq_False)
  then have "\<exists>s'. with_options J W' http_ok iss aud dev opts = Inr s' \<and> s' = s\<lparr>keys := keys s'\<rparr>" for W' :: "('json, 'jwks) web"
    by (intro exI[of _ "?s W'"]) (simp add: s)
  moreover have "\<forall>l. opt_login opts = Some l \<longrightarrow> login_is_disabled l = dev"
    using g(1) by (auto simp: bad_dev_def)
  moreover have "opt_peers opts \<noteq> [] \<longrightarrow> (\<forall>l li. opt_login opts = Some l \<longrightarrow> login_issuer l = Some li \<longrightarrow>
          trim_end_matches CHR ''/'' li = trim_end_matches CHR ''/'' iss)"
    using g(2) by (auto simp: bad_iss_def)
  moreover have "peers_sound aud (opt_peers opts)"
    using g(3) by (simp add: check_peers_sound)
  ultimately show ?thesis
    by (simp add: s)
qed

text \<open>An empty issuer, which the warning calls disabled, leaves authentication on and without a key.\<close>

lemma empty_issuer_is_not_disabled:
  "with_options J W http_ok [] aud dev opts = Inr s \<Longrightarrow> keys s = jwks_empty J \<and> st_dev s = dev"
  by (auto simp: with_options_def split: if_splits option.splits)

lemma built_iff:
  "(\<exists>s. with_options J W http_ok iss aud dev opts = Inr s) \<longleftrightarrow>
     (\<forall>l. opt_login opts = Some l \<longrightarrow> (login_is_disabled l \<longleftrightarrow> dev))
   \<and> (opt_peers opts \<noteq> [] \<longrightarrow> (\<forall>l li. opt_login opts = Some l \<longrightarrow> login_issuer l = Some li \<longrightarrow>
        trim_end_matches CHR ''/'' li = trim_end_matches CHR ''/'' iss))
   \<and> peers_sound aud (opt_peers opts) \<and> http_ok"
  by (cases "opt_login opts"; cases "check_peers aud [] (opt_peers opts)")
    (auto simp: with_options_def check_peers_sound[symmetric] split: option.splits)



text \<open>C3
  The extractor is closed: whoever it lets in was vouched for by exactly one source, in this order of
  precedence. Outside \<open>dev_no_auth\<close> an upstream assertion is judged alone where trusted and present;
  otherwise an \<open>Authorization\<close> header is judged alone, whatever cookies came with it, and must be a
  bearer token that validates; only without one does the session cookie count, by its own rules. A
  refusal is 401, or 403 from the cookie path only.\<close>

theorem identity_has_exactly_one_source:
  "(\<forall>c. fst (from_request_parts H J w r s) = Inr c \<longrightarrow>
      (if st_dev s then cl_sub c = ''dev''
       else if st_bff s \<noteq> None \<and> header_text H (p_headers r) ''x-bff-assertion'' \<noteq> None
         then bff_verify J (the (st_bff s)) (the (header_text H (p_headers r) ''x-bff-assertion'')) = Inr c
       else if header_get (p_headers r) ''authorization'' \<noteq> None
         then (\<exists>v token. header_get (p_headers r) ''authorization'' = Some v \<and> to_str H v = Some (''Bearer '' @ token)
                \<and> fst (validate J (rw_refresh w) token s) = Inr c)
       else (\<exists>l. st_login s = Some l \<and> fst (authenticate H (rw_now w) r l) = Some (Inr c))))
   \<and> (\<forall>e. fst (from_request_parts H J w r s) = Inl e \<longrightarrow> \<not> st_dev s \<and> (e = UNAUTHORIZED
        \<or> e = FORBIDDEN \<and> header_get (p_headers r) ''authorization'' = None
            \<and> (\<exists>l. st_login s = Some l \<and> session_behind H (rw_now w) (p_headers r) l \<noteq> None)))"
proof -
  let ?h = "p_headers r"
  have bearer_ok: "fst (bearer_identity H J w ?h s1) = Inr c \<Longrightarrow>
      \<exists>v token. header_get ?h ''authorization'' = Some v \<and> to_str H v = Some (''Bearer '' @ token)
        \<and> fst (validate J (rw_refresh w) token s1) = Inr c" for c s1
    by (auto simp: bearer_identity_def bearer_text_def header_text_def strip_prefix_eq_Some bind_eq_Some_conv split: option.splits)
  have unauth: "fst (bearer_identity H J w ?h s1) = Inl e \<Longrightarrow> e = UNAUTHORIZED" for e s1
    using validate_error by (auto simp: bearer_identity_def split: option.splits)
  have bff: "bff_verify J b a = Inl e \<Longrightarrow> e = UNAUTHORIZED" for b a e
    by (auto simp: bff_verify_def split: option.splits)
  consider (dev) "st_dev s" | (assertion) b a where "\<not> st_dev s" "st_bff s = Some b" "header_text H ?h ''x-bff-assertion'' = Some a"
    | (bearer) "\<not> st_dev s" "st_bff s = None \<or> header_text H ?h ''x-bff-assertion'' = None"
        "header_get ?h ''authorization'' \<noteq> None \<or> st_login s = None"
    | (cookie) l where "\<not> st_dev s" "st_bff s = None \<or> header_text H ?h ''x-bff-assertion'' = None"
        "header_get ?h ''authorization'' = None" "st_login s = Some l"
    by (cases "st_bff s"; cases "header_text H ?h ''x-bff-assertion''"; cases "st_login s") auto
  then show ?thesis
  proof cases
    case dev
    then show ?thesis by (simp add: from_request_parts_def dev_claims_def)
  next
    case (assertion b a)
    then show ?thesis
      by (auto simp: from_request_parts_def assertion_header_lower dest: bff)
  next
    case bearer
    then have "from_request_parts H J w r s = bearer_identity H J w ?h s"
      by (auto simp: from_request_parts_def assertion_header_lower split: option.splits)
    with bearer show ?thesis
      using bearer_ok[of s] unauth[of s]
      by (auto simp: bearer_identity_def bearer_text_def header_text_def)
  next
    case (cookie l)
    obtain x l' where au: "authenticate H (rw_now w) r l = (x, l')" by fastforce
    have res: "x = (case session_behind H (rw_now w) ?h l of None \<Rightarrow> None
        | Some y \<Rightarrow> Some (if cookie_counts r (lo_origin l) then Inr (claims_of_session y) else Inl FORBIDDEN))"
      using authenticate_result[of H "rw_now w" r l] by (simp add: au)
    show ?thesis
    proof (cases x)
      case None
      with cookie au have "fst (from_request_parts H J w r s) = Inl UNAUTHORIZED"
        by (auto simp: from_request_parts_def assertion_header_lower bearer_identity_def bearer_text_def header_text_def split: option.splits)
      with cookie show ?thesis by simp
    next
      case (Some y)
      with cookie au have f: "fst (from_request_parts H J w r s) = y"
        by (auto simp: from_request_parts_def assertion_header_lower split: option.splits)
      have "y = Inl e \<Longrightarrow> e = FORBIDDEN \<and> session_behind H (rw_now w) ?h l \<noteq> None" for e
        using res Some by (auto split: option.splits if_splits)
      with cookie f au Some show ?thesis by auto
    qed
  qed
qed

theorem identity_has_exactly_one_source_witness:
  "\<exists>c. fst (from_request_parts plain_http clear_jwt \<lparr>rw_wall = 0, rw_now = 0, rw_refresh = a_refresh\<rparr>
        \<lparr>p_method = GET, p_headers = [(''authorization'', ''Bearer own'')]\<rparr> a_store) = Inr c
     \<and> (\<exists>v token. v = ''Bearer '' @ token \<and> fst (validate clear_jwt a_refresh token a_store) = Inr c)"
proof -
  let ?w = "\<lparr>rw_wall = 0, rw_now = 0, rw_refresh = a_refresh\<rparr>" and ?r = "\<lparr>p_method = GET, p_headers = [(''authorization'', ''Bearer own'')]\<rparr>"
  let ?c = "\<lparr>cl_sub = ''ada'', cl_email = None, cl_exp = 100, cl_auth_time = None\<rparr>"
  have d: "\<not> st_dev a_store" "st_bff a_store = None" "st_login a_store = None"
    by (simp_all add: a_store_def)
  have f: "fst (from_request_parts plain_http clear_jwt ?w ?r a_store) = Inr ?c"
    using own_validates d
    by (simp add: from_request_parts_def bearer_identity_def bearer_text_def header_text_def header_get_def)
  from identity_has_exactly_one_source[of plain_http clear_jwt ?w ?r a_store] f d
  have "\<exists>token. fst (validate clear_jwt a_refresh token a_store) = Inr ?c"
    by (simp add: header_get_def) blast
  with f show ?thesis by blast
qed

end
