(* ===== verification/Service.thy ===== *)
theory Service
  imports Auth Handlers
begin

text \<open>
  A service built on the crate: its store with the sign-in, its four \<open>/auth/*\<close> routes and every route
  that takes an authenticated user, over a whole run of requests. Each request is one step: the session
  operations of a handler come at its end, after everything it awaits, and what it reads before them
  (names, keys, origin, lifetime) never changes. The run ties every admitted request to the
  sign-in it rests on. Theory \<open>Server\<close> does the same with handlers that interleave.
\<close>

section \<open>Requests\<close>

datatype ('m, 'r, 'json, 'jwks) request =
    Start "('m, 'r) login_world" login_query headers
  | Finish "'m callback_world" callback_query headers
  | Sign_out headers
  | Who instant headers
  | Api "('json, 'jwks) request_world" parts

definition on_login :: "('c login \<Rightarrow> 'c login) \<Rightarrow> ('jwks, 'key, 'c) jwks_store \<Rightarrow> ('jwks, 'key, 'c) jwks_store" where
  "on_login f s = s\<lparr>st_login := map_option f (st_login s)\<rparr>"

fun serve ::
  "http_lib \<Rightarrow> flow_lib \<Rightarrow> ('c, 'm, 'r, 'tok, 'idt) oidc_lib \<Rightarrow> ('key, 'enc, 'jwks, 'jwk) jwt_lib
     \<Rightarrow> ('m, 'r, 'json, 'jwks) request \<Rightarrow> ('jwks, 'key, 'c) jwks_store \<Rightarrow> ('jwks, 'key, 'c) jwks_store" where
  "serve H L P J (Start w q h) s = on_login (\<lambda>l. snd (login_handler H L P w q h l)) s"
| "serve H L P J (Finish w q h) s = on_login (\<lambda>l. snd (callback_handler H L P w q h l)) s"
| "serve H L P J (Sign_out h) s = on_login (\<lambda>l. snd (logout_handler H h l)) s"
| "serve H L P J (Who now h) s = on_login (\<lambda>l. snd (me_handler H now h l)) s"
| "serve H L P J (Api w r) s = snd (from_request_parts H J w r s)"

text \<open>The flows the sign-ins started in a run seal: state, flow and time.\<close>

definition started_flows ::
  "('c, 'm, 'r, 'tok, 'idt) oidc_lib \<Rightarrow> ('m, 'r, 'json, 'jwks) request list \<Rightarrow> (string \<times> flow \<times> u64) list" where
  "started_flows P rs = concat (map (\<lambda>x. case x of
     Start w q h \<Rightarrow> [(new_csrf P (lw_random w), started_flow P (lw_random w) q, lw_unix w)] | _ \<Rightarrow> []) rs)"

section \<open>What a request leaves alone\<close>

definition same_setup :: "'c login \<Rightarrow> 'c login \<Rightarrow> bool" where
  "same_setup l l' \<longleftrightarrow> lo_names l' = lo_names l \<and> lo_flows l' = lo_flows l \<and> lo_origin l' = lo_origin l
     \<and> ttl (lo_sessions l') = ttl (lo_sessions l) \<and> (lo_provider l' = None \<longleftrightarrow> lo_provider l = None)"

lemma same_setup_refl [simp]: "same_setup l l"
  by (simp add: same_setup_def)

lemma same_setup_trans: "same_setup l l' \<Longrightarrow> same_setup l' l'' \<Longrightarrow> same_setup l l''"
  by (simp add: same_setup_def)

lemma same_setup_sessions: "ttl ss = ttl (lo_sessions l) \<Longrightarrow> same_setup l (l\<lparr>lo_sessions := ss\<rparr>)"
  by (simp add: same_setup_def)

lemma ask_client_setup: "same_setup l (snd (ask_client P d l))"
  by (simp add: ask_client_def same_setup_def split: option.splits prod.splits)

lemma ask_rediscover_setup: "same_setup l (ask_rediscover P d l)"
  by (simp add: ask_rediscover_def same_setup_def)

lemma verify_setup: "same_setup l (snd (verify_id_token P d d' c tok n l))"
proof -
  obtain c2 l2 where e: "ask_client P d' (ask_rediscover P d l) = (c2, l2)" by fastforce
  have "same_setup l l2"
    using same_setup_trans[OF ask_rediscover_setup ask_client_setup, of l P d' P d] by (simp add: e)
  then show ?thesis by (simp add: verify_id_token_def e split: option.splits)
qed

lemma remove_ttl [simp]: "ttl (session_remove i ss) = ttl ss"
  by (simp add: session_remove_def)

lemma complete_setup: "same_setup l (snd (complete_sign_in H w h f idn auth l))"
proof -
  obtain a l' where e: "complete_sign_in H w h f idn auth l = (a, l')" by fastforce
  then show ?thesis
    unfolding e snd_conv
  proof (cases "cw_fresh_id w")
    case None
    with e have "l' = l\<lparr>lo_sessions := lo_sessions l\<rparr>"
      by (auto simp: complete_sign_in_def session_insert_def)
    then show "same_setup l l'" by simp
  next
    case (Some i)
    define ss where "ss = snd (session_insert (cw_order w) (cw_now w) (cw_wall w) (Some i) idn auth (lo_sessions l))"
    have ss: "session_insert (cw_order w) (cw_now w) (cw_wall w) (Some i) idn auth (lo_sessions l) = (Some i, ss)"
      using insert_id[of "cw_order w" "cw_now w" "cw_wall w" "Some i" idn auth "lo_sessions l"] unfolding ss_def by (metis prod.collapse)
    have "ttl ss = ttl (lo_sessions l)" unfolding ss_def by (rule insert_ttl)
    with e show "same_setup l l'"
      by (auto simp: complete_sign_in_def Some ss Let_def same_setup_def split: option.splits prod.splits bool.splits)
  qed
qed

lemma exchange_setup: "same_setup l (snd (exchange_and_verify H P w h code f l))"
proof -
  obtain oc l1 where ask: "ask_client P (cw_discovery w) l = (oc, l1)" by fastforce
  have l1: "same_setup l l1" using ask_client_setup[of l P "cw_discovery w"] by (simp add: ask)
  have v: "same_setup l (snd (verify_id_token P d d' c tok n l1))" for d d' c tok n
    by (rule same_setup_trans[OF l1 verify_setup])
  have k: "same_setup l (snd (complete_sign_in H w h f idn auth l2))" if "verify_id_token P d d' c tok n l1 = (r, l2)"
    for d d' c tok n r l2 idn auth
    using v[of d d' c tok n] that same_setup_trans[OF _ complete_setup] by simp
  show ?thesis
    using l1 v k by (auto simp: exchange_and_verify_def ask Let_def split: option.splits prod.splits) (metis snd_conv)+
qed

lemma login_setup: "same_setup l (snd (login_handler H L P w q h l))"
  using ask_client_setup[of l P "lw_discovery w"]
  by (auto simp: login_handler_def Let_def split: option.splits prod.splits bool.splits)

lemma callback_setup: "same_setup l (snd (callback_handler H L P w q h l))"
  using exchange_setup[of l H P w h]
  by (auto simp: callback_handler_def Let_def split: option.splits prod.splits) (metis snd_conv)+

lemma logout_setup: "same_setup l (snd (logout_handler H h l))"
  by (auto simp: logout_handler_def intro!: same_setup_sessions split: option.splits)

lemma get_ttl: "ttl (snd (session_get i now ss)) = ttl ss"
  using session_ttl_apply[of "Get i now" ss] by simp

lemma me_setup: "same_setup l (snd (me_handler H now h l))"
  using get_ttl by (auto simp: me_handler_def Let_def intro!: same_setup_sessions split: option.splits prod.splits) (metis snd_conv)+

lemma authenticate_setup: "same_setup l (snd (authenticate H now r l))"
  using get_ttl by (auto simp: authenticate_def Let_def intro!: same_setup_sessions split: option.splits prod.splits) (metis snd_conv)+

section \<open>What a request does to the sessions\<close>

definition session_at :: "'c login \<Rightarrow> string \<Rightarrow> session option" where
  "session_at l i = hm_get (session_map (lo_sessions l)) i"

text \<open>No request but a callback can add a session or change one.\<close>

lemma get_old:
  assumes "session_wf ss" and "hm_get (session_map (snd (session_get k now ss))) i = Some x"
  shows "hm_get (session_map ss) i = Some x"
  using assms by (auto simp: session_get_def session_wf_def hm.get_del split: option.splits if_splits)

lemma get_wf: "session_wf ss \<Longrightarrow> session_wf (snd (session_get k now ss))"
  using session_wf_apply[of ss "Get k now"] by simp

text \<open>Reading is one lookup at most.\<close>

lemma me_reads: "\<exists>k. snd (me_handler H now h l) = l \<or> snd (me_handler H now h l) = l\<lparr>lo_sessions := snd (session_get k now (lo_sessions l))\<rparr>"
proof (cases "cookie_read H h (session_name (lo_names l))")
  case (Some k)
  obtain x ss where g: "session_get k now (lo_sessions l) = (x, ss)" by fastforce
  show ?thesis
    by (rule exI[of _ k], cases x) (simp_all add: me_handler_def Some g Let_def)
qed (simp add: me_handler_def Let_def)

lemma authenticate_reads: "\<exists>k. snd (authenticate H now r l) = l \<or> snd (authenticate H now r l) = l\<lparr>lo_sessions := snd (session_get k now (lo_sessions l))\<rparr>"
proof (cases "cookie_read H (p_headers r) (session_name (lo_names l))")
  case (Some k)
  obtain x ss where g: "session_get k now (lo_sessions l) = (x, ss)" by fastforce
  show ?thesis
    by (rule exI[of _ k], cases x) (simp_all add: authenticate_def Some g Let_def)
qed (simp add: authenticate_def)

lemma read_keeps:
  assumes "l' = l \<or> l' = l\<lparr>lo_sessions := snd (session_get k now (lo_sessions l))\<rparr>" and "session_wf (lo_sessions l)"
  shows "session_wf (lo_sessions l')" and "session_at l' i = Some x \<Longrightarrow> session_at l i = Some x"
  using assms get_wf[of "lo_sessions l" k now] get_old[of "lo_sessions l" k now i x] by (auto simp: session_at_def)

lemma login_leaves:
  "lo_provider l \<noteq> None \<Longrightarrow> snd (login_handler H L P w q h l) = snd (ask_client P (lw_discovery w) l)"
  "lo_provider l = None \<Longrightarrow> snd (login_handler H L P w q h l) = l"
proof -
  obtain oc l1 where ask: "ask_client P (lw_discovery w) l = (oc, l1)" by fastforce
  show "lo_provider l \<noteq> None \<Longrightarrow> snd (login_handler H L P w q h l) = snd (ask_client P (lw_discovery w) l)"
    by (auto simp: login_handler_def ask Let_def split: option.splits prod.splits bool.splits)
qed (simp add: login_handler_def)

lemma login_sessions: "lo_sessions (snd (login_handler H L P w q h l)) = lo_sessions l"
  by (cases "lo_provider l = None") (simp_all add: login_leaves)

lemma logout_sessions:
  assumes "session_wf (lo_sessions l)"
  shows "session_wf (lo_sessions (snd (logout_handler H h l)))"
    and "session_at (snd (logout_handler H h l)) i = Some x \<Longrightarrow> session_at l i = Some x"
    and "own_page (lo_origin l) h \<Longrightarrow> cookie_read H h (session_name (lo_names l)) = Some i \<Longrightarrow> session_at (snd (logout_handler H h l)) i = None"
  using assms remove_lookup[OF assms] remove_wf
  by (auto simp: logout_handler_def session_at_def same_origin_own_page split: option.splits if_splits)

lemma complete_wf: "session_wf (lo_sessions l) \<Longrightarrow> session_wf (lo_sessions (snd (complete_sign_in H w h f idn auth l)))"
proof -
  assume wf: "session_wf (lo_sessions l)"
  obtain a l' where e: "complete_sign_in H w h f idn auth l = (a, l')" by fastforce
  show ?thesis
    unfolding e snd_conv using e
    by (cases rule: complete_cases) (simp_all add: wf replace_old_view session_wf_insert remove_wf)
qed

lemma callback_sessions:
  assumes "session_wf (lo_sessions l)" and "lo_provider l \<noteq> None" and "callback_handler H L P w q h l = (a, l')"
  shows "session_wf (lo_sessions l')"
    and "session_at l' i = Some x \<Longrightarrow> session_at l i = Some x \<or>
      (cw_fresh_id w = Some i \<and> created x = cw_now w \<and> (\<exists>f. verified_sign_in H L P (cw_unix w) q h l f (identity x) (auth_time x)))"
proof -
  consider (kept) "lo_sessions l' = lo_sessions l"
    | (made) f idn auth l2 b where "verified_sign_in H L P (cw_unix w) q h l f idn auth" "lo_sessions l2 = lo_sessions l"
        "complete_sign_in H w h f idn auth l2 = (b, l')"
    using callback_outcome[OF assms(3,2)] by blast
  note c = this
  show "session_wf (lo_sessions l')"
    using c
  proof cases
    case kept
    with assms(1) show ?thesis by simp
  next
    case (made f idn auth l2 b)
    with complete_wf[of l2 H w h f idn auth] assms(1) show ?thesis by simp
  qed
  assume x: "session_at l' i = Some x"
  show "session_at l i = Some x \<or>
      (cw_fresh_id w = Some i \<and> created x = cw_now w \<and> (\<exists>f. verified_sign_in H L P (cw_unix w) q h l f (identity x) (auth_time x)))"
    using c
  proof cases
    case kept
    with x show ?thesis by (simp add: session_at_def)
  next
    case (made f idn auth l2 b)
    show ?thesis
    proof (cases "session_at l i = Some x")
      case False
      have "cw_fresh_id w = Some i \<and> identity x = idn \<and> auth_time x = auth \<and> created x = cw_now w"
        using complete_adds_one[OF made(3), of i x] x made(2) assms(1) False by (simp add: session_at_def)
      with made(1) show ?thesis by auto
    qed simp
  qed
qed

section \<open>The store under a request\<close>

lemma refresh_login: "st_login (snd (ensure_key J r kid s)) = st_login s" "st_dev (snd (ensure_key J r kid s)) = st_dev s"
    "st_bff (snd (ensure_key J r kid s)) = st_bff s"
  by (auto simp: ensure_key_def refresh_done_def Let_def split: gate_decision.splits option.splits)

lemma validate_login: "st_login (snd (validate J r token s)) = st_login s" "st_dev (snd (validate J r token s)) = st_dev s"
    "st_bff (snd (validate J r token s)) = st_bff s"
proof -
  have "snd (validate J r token s) \<in> insert s {snd (ensure_key J r kid s) | kid. True}"
    by (auto simp: validate_def validate_for_def split: option.splits prod.splits bool.splits sum.splits) (metis snd_conv)+
  then show "st_login (snd (validate J r token s)) = st_login s" "st_dev (snd (validate J r token s)) = st_dev s"
    "st_bff (snd (validate J r token s)) = st_bff s"
    by (auto simp: refresh_login)
qed

lemma bearer_login: "st_login (snd (bearer_identity H J w h s)) = st_login s" "st_dev (snd (bearer_identity H J w h s)) = st_dev s"
    "st_bff (snd (bearer_identity H J w h s)) = st_bff s"
  by (simp_all add: bearer_identity_def validate_login split: option.splits)

text \<open>An authenticated route touches the sign-in at most by one authentication.\<close>

lemma api_login:
  "st_login (snd (from_request_parts H J w r s)) = st_login s
   \<or> st_login (snd (from_request_parts H J w r s)) = map_option (\<lambda>l. snd (authenticate H (rw_now w) r l)) (st_login s)"
  "st_dev (snd (from_request_parts H J w r s)) = st_dev s" "st_bff (snd (from_request_parts H J w r s)) = st_bff s"
  by (auto simp: from_request_parts_def bearer_login split: option.splits prod.splits)

section \<open>Runs\<close>

text \<open>
  The sign-in behind a session after a run: the callback that made it, with its evidence, in the
  service as it was then, and no sign-out of it since.
\<close>

definition signed_in_by ::
  "http_lib \<Rightarrow> flow_lib \<Rightarrow> ('c, 'm, 'r, 'tok, 'idt) oidc_lib \<Rightarrow> ('key, 'enc, 'jwks, 'jwk) jwt_lib \<Rightarrow> ('jwks, 'key, 'c) jwks_store
     \<Rightarrow> ('m, 'r, 'json, 'jwks) request list \<Rightarrow> 'c login \<Rightarrow> string \<Rightarrow> session \<Rightarrow> bool" where
  "signed_in_by H L P J s0 rs l0 i x \<longleftrightarrow>
     (\<exists>pre w q h post l f. rs = pre @ Finish w q h # post \<and> st_login (run_ops (serve H L P J) pre s0) = Some l \<and> same_setup l0 l
      \<and> verified_sign_in H L P (cw_unix w) q h l f (identity x) (auth_time x)
      \<and> cw_fresh_id w = Some i \<and> created x = cw_now w
      \<and> (\<forall>h'. Sign_out h' \<in> set post \<and> own_page (lo_origin l0) h' \<longrightarrow> cookie_read H h' (session_name (lo_names l0)) \<noteq> Some i))"

lemma signed_in_by_later:
  assumes "signed_in_by H L P J s0 rs l0 i x"
    and "\<forall>h'. req = Sign_out h' \<and> own_page (lo_origin l0) h' \<longrightarrow> cookie_read H h' (session_name (lo_names l0)) \<noteq> Some i"
  shows "signed_in_by H L P J s0 (rs @ [req]) l0 i x"
proof -
  obtain pre w q h post l f where e: "rs = pre @ Finish w q h # post" "st_login (run_ops (serve H L P J) pre s0) = Some l \<and> same_setup l0 l"
      "verified_sign_in H L P (cw_unix w) q h l f (identity x) (auth_time x)" "cw_fresh_id w = Some i" "created x = cw_now w"
      "\<forall>h'. Sign_out h' \<in> set post \<and> own_page (lo_origin l0) h' \<longrightarrow> cookie_read H h' (session_name (lo_names l0)) \<noteq> Some i"
    using assms(1) unfolding signed_in_by_def by blast
  have "rs @ [req] = pre @ Finish w q h # (post @ [req])" by (simp add: e(1))
  moreover have "\<forall>h'. Sign_out h' \<in> set (post @ [req]) \<and> own_page (lo_origin l0) h' \<longrightarrow> cookie_read H h' (session_name (lo_names l0)) \<noteq> Some i"
    using e(6) assms(2) by auto
  ultimately show ?thesis unfolding signed_in_by_def using e(2-5) by blast
qed

text \<open>What holds of the sign-in after every run from a store without sessions.\<close>

definition accounted ::
  "http_lib \<Rightarrow> flow_lib \<Rightarrow> ('c, 'm, 'r, 'tok, 'idt) oidc_lib \<Rightarrow> ('key, 'enc, 'jwks, 'jwk) jwt_lib \<Rightarrow> ('jwks, 'key, 'c) jwks_store
     \<Rightarrow> ('m, 'r, 'json, 'jwks) request list \<Rightarrow> 'c login \<Rightarrow> 'c login \<Rightarrow> bool" where
  "accounted H L P J s0 rs l0 l \<longleftrightarrow> same_setup l0 l \<and> session_wf (lo_sessions l)
     \<and> (\<forall>i x. session_at l i = Some x \<longrightarrow> signed_in_by H L P J s0 rs l0 i x)"

lemma accounted_fewer:
  assumes "accounted H L P J s0 rs l0 l" and "same_setup l l'" and "session_wf (lo_sessions l')"
    and "\<And>i x. session_at l' i = Some x \<Longrightarrow> session_at l i = Some x"
    and "\<And>h' i. req = Sign_out h' \<Longrightarrow> own_page (lo_origin l0) h' \<Longrightarrow> cookie_read H h' (session_name (lo_names l0)) = Some i \<Longrightarrow> session_at l' i = None"
  shows "accounted H L P J s0 (rs @ [req]) l0 l'"
  unfolding accounted_def
proof (intro conjI allI impI)
  show "same_setup l0 l'" using assms(1,2) same_setup_trans unfolding accounted_def by blast
  show "session_wf (lo_sessions l')" by (rule assms(3))
  fix i x assume x: "session_at l' i = Some x"
  then have "signed_in_by H L P J s0 rs l0 i x" using assms(1,4) unfolding accounted_def by blast
  then show "signed_in_by H L P J s0 (rs @ [req]) l0 i x"
    by (rule signed_in_by_later) (use assms(5)[of _ i] x in auto)
qed

lemma accounted_finish:
  assumes acc: "accounted H L P J s0 rs l0 l" and l: "st_login s = Some l" and s: "s = run_ops (serve H L P J) rs s0"
    and en: "lo_provider l \<noteq> None" and cb: "callback_handler H L P w q h l = (a, l')"
  shows "accounted H L P J s0 (rs @ [Finish w q h]) l0 l'"
proof -
  have wf: "session_wf (lo_sessions l)" and same: "same_setup l0 l"
    using acc by (simp_all add: accounted_def)
  have "signed_in_by H L P J s0 (rs @ [Finish w q h]) l0 i x" if x: "session_at l' i = Some x" for i x
    using callback_sessions(2)[OF wf en cb x]
  proof (elim disjE conjE exE)
    assume "session_at l i = Some x"
    then have "signed_in_by H L P J s0 rs l0 i x" using acc unfolding accounted_def by blast
    then show ?thesis by (rule signed_in_by_later) simp
  next
    fix f assume f: "cw_fresh_id w = Some i" "created x = cw_now w" "verified_sign_in H L P (cw_unix w) q h l f (identity x) (auth_time x)"
    show ?thesis
      unfolding signed_in_by_def
      by (intro exI[of _ rs] exI[of _ w] exI[of _ q] exI[of _ h] exI[of _ "[]"] exI[of _ l] exI[of _ f]) (use l s in \<open>simp add: f same\<close>)
  qed
  moreover have "same_setup l0 l'"
    using same_setup_trans[OF same callback_setup[of l H L P w q h]] by (simp add: cb)
  ultimately show ?thesis
    using callback_sessions(1)[OF wf en cb] unfolding accounted_def by blast
qed

lemma accounted_step:
  assumes acc: "accounted H L P J s0 rs l0 l" and l: "st_login s = Some l" and s: "s = run_ops (serve H L P J) rs s0" and enabled: "lo_provider l0 \<noteq> None"
  shows "\<exists>l'. st_login (serve H L P J req s) = Some l' \<and> accounted H L P J s0 (rs @ [req]) l0 l'"
proof -
  have wf: "session_wf (lo_sessions l)" and same: "same_setup l0 l"
    using acc by (simp_all add: accounted_def)
  have en: "lo_provider l \<noteq> None" using same enabled by (simp add: same_setup_def)
  show ?thesis
  proof (cases req)
    case (Start w q h)
    have "accounted H L P J s0 (rs @ [req]) l0 (snd (login_handler H L P w q h l))"
      by (rule accounted_fewer[OF acc login_setup]) (simp_all add: login_sessions session_at_def Start wf)
    then show ?thesis by (simp add: Start l on_login_def)
  next
    case (Finish w q h)
    obtain a l' where cb: "callback_handler H L P w q h l = (a, l')" by fastforce
    from accounted_finish[OF acc l s en cb] show ?thesis by (simp add: Finish l on_login_def cb)
  next
    case (Sign_out h)
    have "accounted H L P J s0 (rs @ [req]) l0 (snd (logout_handler H h l))"
      using acc logout_setup logout_sessions(1)[OF wf]
    proof (rule accounted_fewer)
      show "session_at (snd (logout_handler H h l)) i = Some x \<Longrightarrow> session_at l i = Some x" for i x
        by (rule logout_sessions(2)[OF wf])
      show "session_at (snd (logout_handler H h l)) i = None"
        if "req = Sign_out h'" "own_page (lo_origin l0) h'" "cookie_read H h' (session_name (lo_names l0)) = Some i" for h' i
        using logout_sessions(3)[OF wf, of h H i] that Sign_out same by (simp add: same_setup_def)
    qed
    then show ?thesis by (simp add: Sign_out l on_login_def)
  next
    case (Who now h)
    obtain k where k: "snd (me_handler H now h l) = l \<or> snd (me_handler H now h l) = l\<lparr>lo_sessions := snd (session_get k now (lo_sessions l))\<rparr>"
      using me_reads by blast
    have "accounted H L P J s0 (rs @ [req]) l0 (snd (me_handler H now h l))"
      using acc me_setup read_keeps(1)[OF k wf] by (rule accounted_fewer) (use read_keeps(2)[OF k wf] in \<open>auto simp: Who\<close>)
    then show ?thesis by (simp add: Who l on_login_def)
  next
    case (Api w r)
    obtain k where k: "snd (authenticate H (rw_now w) r l) = l
        \<or> snd (authenticate H (rw_now w) r l) = l\<lparr>lo_sessions := snd (session_get k (rw_now w) (lo_sessions l))\<rparr>"
      using authenticate_reads by blast
    have "accounted H L P J s0 (rs @ [req]) l0 (snd (authenticate H (rw_now w) r l))"
      using acc authenticate_setup read_keeps(1)[OF k wf] by (rule accounted_fewer) (use read_keeps(2)[OF k wf] in \<open>auto simp: Api\<close>)
    moreover have "accounted H L P J s0 (rs @ [req]) l0 l"
      using acc same_setup_refl wf by (rule accounted_fewer) (simp_all add: Api)
    ultimately show ?thesis
      using api_login(1)[of H J w r s] l by (auto simp: Api)
  qed
qed

lemma run_ops_snoc: "run_ops f (xs @ [x]) s = f x (run_ops f xs s)"
  by (induction xs arbitrary: s) auto

lemma accounted_run:
  assumes "st_login s0 = Some l0" and "lo_provider l0 \<noteq> None" and "session_map (lo_sessions l0) = hm_new"
  shows "\<exists>l. st_login (run_ops (serve H L P J) rs s0) = Some l \<and> accounted H L P J s0 rs l0 l"
proof (induction rs rule: rev_induct)
  case Nil
  show ?case
    using assms by (simp add: accounted_def session_wf_def hm.wf_new session_at_def hm.get_new)
next
  case (snoc req rs)
  then obtain l where "st_login (run_ops (serve H L P J) rs s0) = Some l" "accounted H L P J s0 rs l0 l" by blast
  from accounted_step[OF this(2,1) refl assms(2)] show ?case by (simp add: run_ops_snoc)
qed

lemma run_keeps_mode:
  "st_dev (run_ops (serve H L P J) rs s) = st_dev s" "st_bff (run_ops (serve H L P J) rs s) = st_bff s"
proof -
  have keep: "st_dev (serve H L P J x s) = st_dev s" "st_bff (serve H L P J x s) = st_bff s" for x s
    by (cases x; simp add: on_login_def api_login(2,3))+
  show "st_dev (run_ops (serve H L P J) rs s) = st_dev s" "st_bff (run_ops (serve H L P J) rs s) = st_bff s"
    by (induction rs arbitrary: s) (simp_all add: keep)
qed

lemma new_login:
  assumes "login_new U http_ok rng now c = Inr l"
  shows "lo_sessions l = session_store_new (session_ttl c) now" and "lo_provider l = None \<longleftrightarrow> cfg_dev_no_auth c"
  using assms
  by (auto simp: login_new_def login_provider_def split: option.splits if_splits sum.splits)

text \<open>Without a credential of another kind, who gets in gets in by the cookie.\<close>

lemma admitted_by_cookie:
  assumes "from_request_parts H J w r s = (Inr c, s')" and "\<not> st_dev s" and "header_get (p_headers r) ''authorization'' = None"
    and "st_bff s = None \<or> header_text H (p_headers r) ''x-bff-assertion'' = None" and "st_login s = Some l"
  shows "fst (authenticate H (rw_now w) r l) = Some (Inr c)"
proof -
  obtain a l' where a: "authenticate H (rw_now w) r l = (a, l')" by fastforce
  have nb: "bearer_identity H J w (p_headers r) s1 = (Inl UNAUTHORIZED, s1)" for s1
    by (simp add: bearer_identity_def bearer_text_def header_text_def assms(3))
  have "from_request_parts H J w r s = (case a of Some x \<Rightarrow> (x, s\<lparr>st_login := Some l'\<rparr>)
      | None \<Rightarrow> bearer_identity H J w (p_headers r) (s\<lparr>st_login := Some l'\<rparr>))"
    using assms(2-5) a by (auto simp: from_request_parts_def assertion_header_lower split: option.splits)
  with assms(1) a show ?thesis by (cases a) (auto simp: nb)
qed

section \<open>Properties\<close>

text \<open>
  Over any run of a service that began without sessions, a request is admitted by its cookie only as
  someone who signed in during the run: there is an earlier callback that, in the service as the requests
  before it left it, made the very session the cookie names, on a flow its browser carried, which a
  \<open>/auth/login\<close> of the run sealed and which is less than 30 minutes old by the callback's clock, and whose code
  and PKCE verifier got an ID token verified against the flow's nonce;
  the identity and authentication time are that token's; the session's lifetime has not passed; and no
  sign-out from this site has named the session since.\<close>

theorem admitted_only_after_sign_in:
  assumes "login_new U http_ok rng t0 cfg = Inr l0" and "\<not> cfg_dev_no_auth cfg" and "st_login s0 = Some l0" and "\<not> st_dev s0"
    and "from_request_parts H J w r (run_ops (serve H L P J) rs s0) = (Inr c, s')"
    and "header_get (p_headers r) ''authorization'' = None"
    and "st_bff s0 = None \<or> header_text H (p_headers r) ''x-bff-assertion'' = None"
    and "only_sealings_decrypt L (cipher_key (lo_flows l0)) (started_flows P rs)"
    and "\<forall>(st, f, t) \<in> set (started_flows P rs). \<forall>j. sealed_to_json L (sealed_of f t) = Some j \<longrightarrow> sealed_from_json L j = Some (sealed_of f t)"
  shows "\<exists>pre cw q h post l f state t i (x :: session).
      rs = pre @ Finish cw q h # post
    \<and> cookie_read H (p_headers r) (session_name (lo_names l0)) = Some i \<and> cw_fresh_id cw = Some i
    \<and> st_login (run_ops (serve H L P J) pre s0) = Some l \<and> verified_sign_in H L P (cw_unix cw) q h l f (identity x) (auth_time x)
    \<and> q_state q = Some state \<and> (state, f, t) \<in> set (started_flows P rs) \<and> unat (cw_unix cw) - unat t < 1800
    \<and> cl_sub c = id_sub (identity x) \<and> cl_email c = id_email (identity x) \<and> cl_auth_time c = auth_time x
    \<and> rw_now w - cw_now cw < session_ttl cfg
    \<and> (\<forall>h'. Sign_out h' \<in> set post \<and> own_page (lo_origin l0) h' \<longrightarrow> cookie_read H h' (session_name (lo_names l0)) \<noteq> Some i)"
proof -
  let ?s = "run_ops (serve H L P J) rs s0"
  have fresh: "lo_provider l0 \<noteq> None" "session_map (lo_sessions l0) = hm_new" "ttl (lo_sessions l0) = session_ttl cfg"
    using new_login[OF assms(1)] assms(2) by (simp_all add: session_store_new_def)
  obtain l where l: "st_login ?s = Some l" "accounted H L P J s0 rs l0 l"
    using accounted_run[OF assms(3) fresh(1,2)] by blast
  have "fst (authenticate H (rw_now w) r l) = Some (Inr c)"
    using admitted_by_cookie[OF assms(5)] assms(4,6,7) l(1) by (simp add: run_keeps_mode)
  then obtain x where x: "session_behind H (rw_now w) (p_headers r) l = Some x" "c = claims_of_session x"
    by (auto simp: authenticate_result split: option.splits if_splits)
  then obtain i where i: "cookie_read H (p_headers r) (session_name (lo_names l)) = Some i" "session_at l i = Some x"
      "live (ttl (lo_sessions l)) (rw_now w) x"
    by (auto simp: session_behind_def session_at_def bind_eq_Some_conv split: option.splits if_splits)
  have same: "lo_names l = lo_names l0" "ttl (lo_sessions l) = session_ttl cfg"
    using l(2) fresh(3) by (simp_all add: accounted_def same_setup_def)
  have "signed_in_by H L P J s0 rs l0 i x" using l(2) i(2) unfolding accounted_def by blast
  then obtain pre cw q h post l1 f where e: "rs = pre @ Finish cw q h # post" "st_login (run_ops (serve H L P J) pre s0) = Some l1" "same_setup l0 l1"
      "verified_sign_in H L P (cw_unix cw) q h l1 f (identity x) (auth_time x)" "cw_fresh_id cw = Some i" "created x = cw_now cw"
      "\<forall>h'. Sign_out h' \<in> set post \<and> own_page (lo_origin l0) h' \<longrightarrow> cookie_read H h' (session_name (lo_names l0)) \<noteq> Some i"
    unfolding signed_in_by_def by blast
  from e(4) obtain state val where st: "q_state q = Some state" "flow_open L (lo_flows l1) (cw_unix cw) state val = Some f"
    unfolding verified_sign_in_def by blast
  have "lo_flows l1 = lo_flows l0" using e(3) by (simp add: same_setup_def)
  with opened_was_sealed[of L "lo_flows l1", OF _ assms(9) st(2)] assms(8)
  obtain t where t: "(state, f, t) \<in> set (started_flows P rs)" "unat (cw_unix cw) - unat t < 1800" by auto
  have "rw_now w - cw_now cw < session_ttl cfg"
    using i(3) e(6) same(2) by (simp add: live_def elapsed_def)
  note facts = this e st(1) t i(1) x(2) same(1)
  show ?thesis
    by (rule exI[of _ pre], rule exI[of _ cw], rule exI[of _ q], rule exI[of _ h], rule exI[of _ post], rule exI[of _ l1],
        rule exI[of _ f], rule exI[of _ state], rule exI[of _ t], rule exI[of _ i], rule exI[of _ x])
      (use facts in \<open>simp add: claims_of_session_def\<close>)
qed

section \<open>A concrete run\<close>

definition plain_urls :: url_lib where
  "plain_urls = \<lparr>url_parse = (\<lambda>s. Some \<lparr>url_scheme = ''https'', url_host_str = Some ''x'', url_path = ''/'', url_query = None,
     url_fragment = None, url_username = [], url_password = None, url_origin = s\<rparr>), issuer_url = Some, redirect_url = Some\<rparr>"

definition a_cfg :: login_config where
  "a_cfg = login_config_new ''iss'' ''cid'' ''https://x''"

definition fresh_login :: "unit login" where
  "fresh_login = \<lparr>lo_origin = ''https://x'', lo_names = names_new True,
     lo_provider = Some (provider_new ''iss'' ''cid'' ''https://x/auth/callback'' (cfg_scopes a_cfg)),
     lo_flows = \<lparr>cipher_key = ''k''\<rparr>, lo_sessions = session_store_new (session_ttl a_cfg) 0\<rparr>"

lemma fresh_login_new: "login_new plain_urls True (Some ''k'') 0 a_cfg = Inr fresh_login" "\<not> cfg_dev_no_auth a_cfg"
  by (simp_all add: login_new_def login_provider_def plain_urls_def a_cfg_def login_config_new_def fresh_login_def flow_sealer_new_def
      min_session_ttl_def max_session_ttl_def default_session_ttl_def from_secs_def)

definition found :: "unit discovery" where
  "found = \<lparr>is_refresh = False, locked_at = 0, done_at = 0, answer = Some ()\<rparr>"

definition ready_login :: "unit login" where
  "ready_login = fresh_login\<lparr>lo_provider := map_option (\<lambda>p. p\<lparr>client := Some ()\<rparr>) (lo_provider fresh_login)\<rparr>"

lemma first_ask: "ask_client an_oidc found fresh_login = (Some (), ready_login)"
  by (simp add: ask_client_def provider_client_def discover_def found_def fresh_login_def ready_login_def provider_new_def
      recent_def an_oidc_def Let_def)

definition the_cookies :: "(string \<times> string) list" where
  "the_cookies = [(''__Host-login-flow-abcdefghijklmnop'', a_flow_value)]"

lemma the_cookies_read: "cookie_read plain_http (browser the_cookies) name = map_of the_cookies name"
  by (rule browser_cookies(2)) (simp_all add: the_cookies_def a_flow_value_def safe_defs)

definition a_run :: "(unit, unit, unit, (string \<times> string) list) request list" where
  "a_run = [Start (a_login_world\<lparr>lw_discovery := found\<rparr>) a_login_query [], Finish a_world a_query (browser the_cookies)]"

definition a_service :: "((string \<times> string) list, string, unit) jwks_store" where
  "a_service = a_store\<lparr>st_login := Some fresh_login\<rparr>"

lemma started: "snd (login_handler plain_http a_flow_lib an_oidc (a_login_world\<lparr>lw_discovery := found\<rparr>) a_login_query [] fresh_login) = ready_login"
  by (subst login_leaves(1)) (simp_all add: a_login_world_def first_ask, simp add: fresh_login_def)

definition ada_login :: "unit login" where
  "ada_login = ready_login\<lparr>lo_sessions := signed_in_store plain_http a_world (browser the_cookies) ready_login the_claims ''new''\<rparr>"

lemma ready_simps: "lo_names ready_login = names_new True" "lo_origin ready_login = ''https://x''"
    "lo_sessions ready_login = session_store_new (session_ttl a_cfg) 0" "lo_flows ready_login = \<lparr>cipher_key = ''k''\<rparr>"
    "session_wf (lo_sessions ready_login)"
  using hm.wf_new by (simp_all add: ready_login_def fresh_login_def session_wf_def session_store_new_def)

lemma finished: "snd (callback_handler plain_http a_flow_lib an_oidc a_world a_query (browser the_cookies) ready_login) = ada_login"
proof -
  have o: "opened_flow plain_http a_flow_lib 50 ready_login (browser the_cookies) ''abcdefghijklmnop'' = Some a_flow"
    by (simp add: opened_flow_def a_state_valid the_cookies_read ready_simps names_new_def names_flow_def) (simp add: the_cookies_def a_flow_opens)
  have "good_callback plain_http a_flow_lib an_oidc a_world a_query (browser the_cookies) ready_login ''abcdefghijklmnop'' a_flow the_claims ''new''"
    using o ready_simps(5)
    by (simp add: good_callback_def a_query_def a_world_def an_oidc_def a_flow_def the_claims_def) (simp add: ready_login_def fresh_login_def)
  from good_callback_answer(1)[OF this] show ?thesis
    unfolding ada_login_def by (metis prod.collapse)
qed

lemma a_run_login: "run_ops (serve plain_http a_flow_lib an_oidc clear_jwt) a_run a_service = a_service\<lparr>st_login := Some ada_login\<rparr>"
  by (simp add: a_run_def a_service_def on_login_def started finished)

definition ada_request :: parts where
  "ada_request = \<lparr>p_method = GET, p_headers = browser [(''__Host-session'', ''new'')]\<rparr>"

lemma ada_cookie: "cookie_read plain_http (p_headers ada_request) (session_name (names_new True)) = Some ''new''"
proof -
  have "cookie_read plain_http (browser [(''__Host-session'', ''new'')]) name = map_of [(''__Host-session'', ''new'')] name" for name
    by (rule browser_cookies(2)) (simp_all add: safe_defs)
  then show ?thesis by (simp add: ada_request_def names_new_def)
qed

definition ada_world :: "(unit, (string \<times> string) list) request_world" where
  "ada_world = \<lparr>rw_wall = 0, rw_now = 20, rw_refresh = a_refresh\<rparr>"

lemma ada_admitted:
  "\<exists>c s'. from_request_parts plain_http clear_jwt ada_world ada_request (a_service\<lparr>st_login := Some ada_login\<rparr>) = (Inr c, s') \<and> cl_sub c = ''ada''"
proof -
  have no_old: "cookie_read plain_http (browser the_cookies) (session_name (lo_names ready_login)) \<noteq> Some ''new''"
    by (simp add: the_cookies_read ready_simps names_new_def) (simp add: the_cookies_def)
  note st = signed_in_store_view[OF ready_simps(5) no_old, where w = a_world and claims = the_claims]
  have "session_behind plain_http 20 (p_headers ada_request) ada_login \<noteq> None"
    using ada_cookie by (simp add: session_behind_def ada_login_def ready_simps st)
      (simp add: live_def elapsed_def a_world_def session_store_new_def a_cfg_def login_config_new_def default_session_ttl_def from_secs_def nanos_per_sec_def)
  then obtain x where x: "session_behind plain_http 20 (p_headers ada_request) ada_login = Some x" by auto
  have sub: "id_sub (identity x) = ''ada''"
    using x ada_cookie by (simp add: session_behind_def ada_login_def ready_simps st split: if_splits)
      (auto simp: identity_from_claims_def the_claims_def)
  have counts: "cookie_counts ada_request (lo_origin ada_login)"
    by (simp add: cookie_counts_def ada_request_def foreign_embed_def browser_def header_get_def)
  obtain l' where a: "authenticate plain_http 20 ada_request ada_login = (Some (Inr (claims_of_session x)), l')"
    using authenticate_result[of plain_http 20 ada_request ada_login] x counts by (cases "authenticate plain_http 20 ada_request ada_login") auto
  have h: "header_get (p_headers ada_request) ''authorization'' = None"
    by (simp add: ada_request_def browser_def header_get_def)
  show ?thesis
    by (simp add: from_request_parts_def a_service_def a_store_def h ada_world_def a) (simp add: claims_of_session_def sub)
qed

lemma a_started_flow: "started_flow an_oidc r a_login_query = a_flow"
proof -
  have path: "safe_return_to (Some ''/app'') = ''/app''"
    by (simp add: safe_return_to_def max_return_to_def starts_with_def chars_def utf8_width_def byte_def code_point_def
        utf8_lead_def is_control_def is_whitespace_def)
  show ?thesis
    by (simp add: started_flow_def an_oidc_def a_login_query_def a_flow_def path)
qed

theorem admitted_only_after_sign_in_witness:
  "\<exists>pre cw q h post c s'. a_run = pre @ Finish cw q h # post \<and> cw_fresh_id cw = Some ''new''
     \<and> from_request_parts plain_http clear_jwt ada_world ada_request (run_ops (serve plain_http a_flow_lib an_oidc clear_jwt) a_run a_service) = (Inr c, s')
     \<and> 20 - cw_now cw < session_ttl a_cfg"
proof -
  obtain c s' where adm: "from_request_parts plain_http clear_jwt ada_world ada_request
      (run_ops (serve plain_http a_flow_lib an_oidc clear_jwt) a_run a_service) = (Inr c, s')"
    using ada_admitted unfolding a_run_login by blast
  have pre: "st_login a_service = Some fresh_login" "\<not> st_dev a_service"
      "header_get (p_headers ada_request) ''authorization'' = None"
      "st_bff a_service = None \<or> header_text plain_http (p_headers ada_request) ''x-bff-assertion'' = None"
    by (simp_all add: a_service_def a_store_def ada_request_def browser_def header_get_def)
  have sealed: "only_sealings_decrypt a_flow_lib (cipher_key (lo_flows fresh_login)) (started_flows an_oidc a_run)"
    by (simp add: only_sealings_decrypt_def started_flows_def a_run_def an_oidc_def a_flow_lib_def)
  have json: "\<forall>(st, f, t) \<in> set (started_flows an_oidc a_run). \<forall>j. sealed_to_json a_flow_lib (sealed_of f t) = Some j
      \<longrightarrow> sealed_from_json a_flow_lib j = Some (sealed_of f t)"
    by (simp add: started_flows_def a_run_def a_flow_lib_def a_login_world_def a_started_flow)
  from admitted_only_after_sign_in[OF fresh_login_new pre(1,2) adm pre(3,4) sealed json] obtain pre cw q h post and i :: string where
    "a_run = pre @ Finish cw q h # post" "cookie_read plain_http (p_headers ada_request) (session_name (lo_names fresh_login)) = Some i"
    "cw_fresh_id cw = Some i" "rw_now ada_world - cw_now cw < session_ttl a_cfg" by blast
  moreover from this ada_cookie have "cw_fresh_id cw = Some ''new''" "20 - cw_now cw < session_ttl a_cfg"
    by (simp_all add: fresh_login_def ada_world_def)
  ultimately show ?thesis using adm by blast
qed

end
