(* ===== verification/Server.thy ===== *)
theory Server
  imports Stages Service
begin

text \<open>
  A running service: any number of callbacks, each between two of its own steps (theory \<open>Stages\<close>), share one
  \<open>Login\<close> with the sign-ins that start, sign-outs, lookups and authenticated requests, in any order. A request
  may be dropped at any await, as a server does when its client leaves. A log, which nothing reads, records what
  was sealed, who was signed in and which sessions were ended.
\<close>

section \<open>State and steps\<close>

datatype log_entry =
    Sealed string flow u64
  | Signed_in string identity "u64 option" instant flow u64 callback_query headers
  | Ended string

text \<open>A callback under way: its request, the clock when its flow was opened, and where it stands.\<close>

record ('c, 'idt) callback_task =
  tk_query :: callback_query
  tk_headers :: headers
  tk_unix :: u64
  tk_pending :: "('c, 'idt) pending"

record ('c, 'idt) server =
  sv_login :: "'c login"
  sv_tasks :: "nat \<Rightarrow> ('c, 'idt) callback_task option"
  sv_log :: "log_entry list"

definition sealings :: "log_entry list \<Rightarrow> (string \<times> flow \<times> u64) list" where
  "sealings es = List.map_filter (\<lambda>e. case e of Sealed st f t \<Rightarrow> Some (st, f, t) | _ \<Rightarrow> None) es"

lemma sealings_iff: "(st, f, t) \<in> set (sealings es) \<longleftrightarrow> Sealed st f t \<in> set es"
  by (induction es) (auto simp: sealings_def map_filter_simps split: log_entry.splits option.splits)

text \<open>What a step puts into the log.\<close>

definition login_log :: "flow_lib \<Rightarrow> ('c, 'm, 'r, 'tok, 'idt) oidc_lib \<Rightarrow> ('m, 'r) login_world \<Rightarrow> login_query \<Rightarrow> 'c login \<Rightarrow> log_entry list" where
  "login_log L P w q l =
     (if fst (ask_client P (lw_discovery w) l) \<noteq> None
         \<and> seal L (lo_flows l) (lw_unix w) (lw_seal_nonce w) (new_csrf P (lw_random w)) (started_flow P (lw_random w) q) \<noteq> None
      then [Sealed (new_csrf P (lw_random w)) (started_flow P (lw_random w) q) (lw_unix w)] else [])"

definition ended :: "string option \<Rightarrow> log_entry list" where
  "ended i = (case i of Some i \<Rightarrow> [Ended i] | None \<Rightarrow> [])"

fun resume_log :: "http_lib \<Rightarrow> 'm callback_world \<Rightarrow> ('c, 'idt) callback_task \<Rightarrow> ('c, 'idt) pending \<Rightarrow> 'c login \<Rightarrow> log_entry list" where
  "resume_log H w t (At_insert f idn auth) l =
     (case cw_fresh_id w of Some i \<Rightarrow> [Signed_in i idn auth (cw_now w) f (tk_unix t) (tk_query t) (tk_headers t)] | None \<Rightarrow> [])"
| "resume_log H w t (At_replace f i) l = ended (cookie_read H (tk_headers t) (session_name (lo_names l)))"
| "resume_log H w t (At_cookie f i) l =
     (if from_str H (names_set (lo_names l) (session_name (lo_names l)) i (as_secs (ttl (lo_sessions l)))) = None
      then [Ended i] else [])"
| "resume_log H w t _ l = []"

definition sign_out_log :: "http_lib \<Rightarrow> headers \<Rightarrow> 'c login \<Rightarrow> log_entry list" where
  "sign_out_log H h l =
     (if own_page (lo_origin l) h then ended (cookie_read H h (session_name (lo_names l))) else [])"

fun awaiting :: "('c, 'idt) pending \<Rightarrow> bool" where
  "awaiting (At_insert _ _ _) = False"
| "awaiting (At_replace _ _) = False"
| "awaiting (At_cookie _ _) = False"
| "awaiting _ = True"

text \<open>
  A callback comes with any cookies that existed then: those the cipher accepts were sealed before. One that is
  answered before its first await changes nothing and is no step.
\<close>

inductive server_step ::
  "http_lib \<Rightarrow> flow_lib \<Rightarrow> ('c, 'm, 'r, 'tok, 'idt) oidc_lib \<Rightarrow> ('c, 'idt) server \<Rightarrow> ('c, 'idt) server \<Rightarrow> bool"
  for H L P where
  start: "server_step H L P s
     (s\<lparr>sv_login := snd (login_handler H L P w q h (sv_login s)), sv_log := sv_log s @ login_log L P w q (sv_login s)\<rparr>)"
| arrive: "sv_tasks s n = None \<Longrightarrow> begin_callback H L P unix q h (sv_login s) = Inr (state, p) \<Longrightarrow>
     (\<And>name val. cookie_read H h name = Some val \<Longrightarrow> genuine L (cipher_key (lo_flows (sv_login s))) (sealings (sv_log s)) val) \<Longrightarrow>
     server_step H L P s
       (s\<lparr>sv_tasks := (sv_tasks s)(n \<mapsto> \<lparr>tk_query = q, tk_headers = h, tk_unix = unix, tk_pending = p\<rparr>)\<rparr>)"
| go_on: "sv_tasks s n = Some t \<Longrightarrow> iteration_order (cw_order w) \<Longrightarrow>
     resume H P w (tk_headers t) (tk_pending t) (sv_login s) = (r, l') \<Longrightarrow>
     server_step H L P s
       (s\<lparr>sv_login := l', sv_log := sv_log s @ resume_log H w t (tk_pending t) (sv_login s),
         sv_tasks := (sv_tasks s)(n := (case r of Inl a \<Rightarrow> None | Inr p \<Rightarrow> Some (t\<lparr>tk_pending := p\<rparr>)))\<rparr>)"
| drop_task: "sv_tasks s n = Some t \<Longrightarrow> awaiting (tk_pending t) \<Longrightarrow>
     server_step H L P s (s\<lparr>sv_tasks := (sv_tasks s)(n := None)\<rparr>)"
| drop_discovery: "server_step H L P s
     (s\<lparr>sv_login := (sv_login s)\<lparr>lo_provider := map_option (\<lambda>p. snd (discover_dropped (d :: 'm discovery) p)) (lo_provider (sv_login s))\<rparr>\<rparr>)"
| sign_out: "server_step H L P s
     (s\<lparr>sv_login := snd (logout_handler H h (sv_login s)), sv_log := sv_log s @ sign_out_log H h (sv_login s)\<rparr>)"
| who: "server_step H L P s (s\<lparr>sv_login := snd (me_handler H now h (sv_login s))\<rparr>)"
| api: "server_step H L P s (s\<lparr>sv_login := snd (authenticate H now r (sv_login s))\<rparr>)"

inductive_cases server_stepE: "server_step H L P s s'"

definition server_new :: "'c login \<Rightarrow> ('c, 'idt) server" where
  "server_new l = \<lparr>sv_login = l, sv_tasks = (\<lambda>_. None), sv_log = []\<rparr>"

section \<open>What the log accounts for\<close>

text \<open>A flow that was sealed in a log and is young.\<close>

definition sealed_in :: "log_entry list \<Rightarrow> u64 \<Rightarrow> callback_query \<Rightarrow> flow \<Rightarrow> bool" where
  "sealed_in es unix q f \<longleftrightarrow> (\<exists>state t. q_state q = Some state \<and> Sealed state f t \<in> set es \<and> unat unix - unat t < 1800)"

lemma sealed_in_later: "sealed_in es unix q f \<Longrightarrow> sealed_in (es @ es') unix q f"
  by (auto simp: sealed_in_def)

text \<open>
  A session stands when the log holds the sign-in that made it, with its evidence, on a flow sealed before, and
  nothing has ended it since.
\<close>

definition stands ::
  "http_lib \<Rightarrow> flow_lib \<Rightarrow> ('c, 'm, 'r, 'tok, 'idt) oidc_lib \<Rightarrow> 'c login \<Rightarrow> log_entry list \<Rightarrow> string \<Rightarrow> session \<Rightarrow> bool" where
  "stands H L P l0 es i x \<longleftrightarrow>
     (\<exists>pre post f unix q h. es = pre @ Signed_in i (identity x) (auth_time x) (created x) f unix q h # post
        \<and> verified_sign_in H L P unix q h l0 f (identity x) (auth_time x) \<and> sealed_in pre unix q f \<and> Ended i \<notin> set post)"

lemma stands_later: "stands H L P l0 es i x \<Longrightarrow> Ended i \<notin> set es' \<Longrightarrow> stands H L P l0 (es @ es') i x"
  unfolding stands_def by fastforce

lemma stands_now:
  "verified_sign_in H L P unix q h l0 f (identity x) (auth_time x) \<Longrightarrow> sealed_in es unix q f \<Longrightarrow>
     stands H L P l0 (es @ [Signed_in i (identity x) (auth_time x) (created x) f unix q h]) i x"
  unfolding stands_def by fastforce

text \<open>What a callback under way has gathered.\<close>

definition opened_by ::
  "http_lib \<Rightarrow> flow_lib \<Rightarrow> 'c login \<Rightarrow> log_entry list \<Rightarrow> ('c, 'idt) callback_task \<Rightarrow> string \<Rightarrow> flow \<Rightarrow> bool" where
  "opened_by H L l0 es t code f \<longleftrightarrow> q_error (tk_query t) = None \<and> q_code (tk_query t) = Some code
     \<and> sealed_in es (tk_unix t) (tk_query t) f
     \<and> (\<exists>state val. q_state (tk_query t) = Some state \<and> valid_state state
          \<and> cookie_read H (tk_headers t) (names_flow (lo_names l0) state) = Some val
          \<and> flow_open L (lo_flows l0) (tk_unix t) state val = Some f)"

definition got_token ::
  "http_lib \<Rightarrow> flow_lib \<Rightarrow> ('c, 'm, 'r, 'tok, 'idt) oidc_lib \<Rightarrow> 'c login \<Rightarrow> log_entry list \<Rightarrow> ('c, 'idt) callback_task
     \<Rightarrow> 'idt \<Rightarrow> flow \<Rightarrow> bool" where
  "got_token H L P l0 es t tok f \<longleftrightarrow>
     (\<exists>c code tokens. opened_by H L l0 es t code f \<and> id_token P tokens = Some tok
       \<and> request_token P c \<lparr>tr_code = code, tr_verifier = pkce_verifier f\<rparr> = Some tokens)"

fun gathered ::
  "http_lib \<Rightarrow> flow_lib \<Rightarrow> ('c, 'm, 'r, 'tok, 'idt) oidc_lib \<Rightarrow> 'c login \<Rightarrow> log_entry list \<Rightarrow> ('c, 'idt) callback_task
     \<Rightarrow> ('c, 'idt) pending \<Rightarrow> bool" where
  "gathered H L P l0 es t (At_client code f) = opened_by H L l0 es t code f"
| "gathered H L P l0 es t (At_exchange c code f) = opened_by H L l0 es t code f"
| "gathered H L P l0 es t (At_refresh tok f) = got_token H L P l0 es t tok f"
| "gathered H L P l0 es t (At_client_again tok f) = got_token H L P l0 es t tok f"
| "gathered H L P l0 es t (At_insert f idn auth) =
     (sealed_in es (tk_unix t) (tk_query t) f \<and> verified_sign_in H L P (tk_unix t) (tk_query t) (tk_headers t) l0 f idn auth)"
| "gathered H L P l0 es t (At_replace _ _) = True"
| "gathered H L P l0 es t (At_cookie _ _) = True"

lemma opened_by_later: "opened_by H L l0 es t code f \<Longrightarrow> opened_by H L l0 (es @ es') t code f"
  by (simp add: opened_by_def sealed_in_later)

lemma got_token_later: "got_token H L P l0 es t tok f \<Longrightarrow> got_token H L P l0 (es @ es') t tok f"
  unfolding got_token_def by (blast intro: opened_by_later)

lemma gathered_later: "gathered H L P l0 es t p \<Longrightarrow> gathered H L P l0 (es @ es') t p"
  by (cases p) (auto simp: opened_by_later got_token_later sealed_in_later)

lemma token_verifies:
  assumes "got_token H L P l0 es t tok f" and "verify_claims P c tok (nonce f) = Some claims"
    and "identity_from_claims claims = (idn, auth)"
  shows "gathered H L P l0 es t (At_insert f idn auth)"
  using assms unfolding got_token_def opened_by_def gathered.simps verified_sign_in_def by blast

section \<open>One step of a callback\<close>

lemma asked:
  assumes "ask_client P d l = (oc, l1)"
  shows "lo_sessions l1 = lo_sessions l" and "same_setup l l1"
  using ask_client_keeps(1)[of P d l] ask_client_setup[of l P d] by (simp_all add: assms)

lemma resume_sessions:
  "resume H P w h p l = (r, l') \<Longrightarrow>
     lo_sessions l' = lo_sessions l
   \<or> (\<exists>f idn auth. p = At_insert f idn auth \<and> lo_sessions l' = snd (session_insert (cw_order w) (cw_now w) (cw_wall w) (cw_fresh_id w) idn auth (lo_sessions l)))
   \<or> (\<exists>i. lo_sessions l' = session_remove i (lo_sessions l))"
  by (cases p) (auto simp: ask_rediscover_def asked(1) split: option.splits prod.splits bool.splits)

lemma resume_setup:
  assumes "resume H P w h p l = (r, l')" shows "same_setup l l'"
proof -
  have s: "lo_sessions l' = lo_sessions l \<or> ttl (lo_sessions l') = ttl (lo_sessions l)"
    using resume_sessions[OF assms] by (auto simp: insert_ttl)
  show ?thesis
  proof (cases p)
    case (At_refresh tok f)
    with assms ask_rediscover_setup[of l P "cw_refresh w"] show ?thesis by auto
  qed (use assms s in \<open>auto simp: same_setup_def asked(2)[unfolded same_setup_def] split: option.splits prod.splits bool.splits\<close>)
qed

lemma resume_bounded:
  assumes "resume H P w h p l = (r, l')" and "iteration_order (cw_order w)" and "bounded (lo_sessions l)"
  shows "bounded (lo_sessions l')"
  using resume_sessions[OF assms(1)] assms(2,3)
    bounded_apply[of "lo_sessions l" "Insert (cw_order w) (cw_now w) (cw_wall w) (cw_fresh_id w) idn auth" for idn auth]
    bounded_apply[of "lo_sessions l" "Remove i" for i]
  by (auto simp: iterates_def)

text \<open>The evidence only grows from step to step.\<close>

lemma resume_gathers:
  assumes "resume H P w h p l = (Inr p', l')" and "gathered H L P l0 es t p"
  shows "gathered H L P l0 es t p'"
proof (cases p)
  case (At_exchange c code f)
  show ?thesis
  proof (cases "Option.bind (request_token P c \<lparr>tr_code = code, tr_verifier = pkce_verifier f\<rparr>) (id_token P)")
    case None
    with assms At_exchange show ?thesis by (auto split: option.splits)
  next
    case (Some tok)
    then obtain tokens where tok: "request_token P c \<lparr>tr_code = code, tr_verifier = pkce_verifier f\<rparr> = Some tokens" "id_token P tokens = Some tok"
      by (auto simp: bind_eq_Some_conv)
    have g: "got_token H L P l0 es t tok f"
      using assms(2) tok unfolding At_exchange gathered.simps got_token_def by blast
    show ?thesis
    proof (cases "verify_claims P c tok (nonce f)")
      case None
      with assms(1) At_exchange tok g show ?thesis by auto
    next
      case (Some claims)
      obtain idn auth where i: "identity_from_claims claims = (idn, auth)" by fastforce
      have "p' = At_insert f idn auth" using assms(1) At_exchange tok Some i by simp
      with token_verifies[OF g Some i] show ?thesis by simp
    qed
  qed
next
  case (At_client_again tok f)
  obtain oc l1 where a: "ask_client P (cw_again w) l = (oc, l1)" by fastforce
  obtain c2 claims where c: "oc = Some c2" "verify_claims P c2 tok (nonce f) = Some claims"
    using assms(1) At_client_again a by (auto split: option.splits simp: bind_eq_None_conv bind_eq_Some_conv)
  obtain idn auth where i: "identity_from_claims claims = (idn, auth)" by fastforce
  have "p' = At_insert f idn auth" using assms(1) At_client_again a c i by simp
  with token_verifies[OF _ c(2) i] assms(2) show ?thesis by (simp add: At_client_again)
qed (use assms in \<open>auto split: option.splits prod.splits bool.splits if_splits\<close>)

text \<open>A session there after a step was there before and was not ended by it, or is the one it made.\<close>

lemma resume_stands:
  assumes r: "resume H P w (tk_headers t) (tk_pending t) l = (r, l')" and wf: "session_wf (lo_sessions l)"
    and g: "gathered H L P l0 es t (tk_pending t)" and x: "session_at l' i = Some x"
    and old: "session_at l i = Some x \<Longrightarrow> stands H L P l0 es i x"
  shows "stands H L P l0 (es @ resume_log H w t (tk_pending t) l) i x"
proof (cases "tk_pending t")
  case (At_insert f idn auth)
  show ?thesis
  proof (cases "cw_fresh_id w")
    case None
    then have "lo_sessions l' = lo_sessions l"
      using r At_insert by (auto simp: session_insert_def)
    with x old show ?thesis by (simp add: At_insert None session_at_def)
  next
    case (Some k)
    have l': "lo_sessions l' = snd (session_insert (cw_order w) (cw_now w) (cw_wall w) (Some k) idn auth (lo_sessions l))"
      using r At_insert Some by (auto split: prod.splits option.splits)
    show ?thesis
    proof (cases "k = i")
      case False
      have "session_at l i = Some x"
        unfolding session_at_def by (rule insert_lookup_old[OF wf]) (use x False in \<open>auto simp: session_at_def l'\<close>)
      with stands_later[OF old] show ?thesis by (simp add: At_insert Some)
    next
      case True
      have "identity x = idn" "auth_time x = auth" "created x = cw_now w"
        using x True by (auto simp: session_at_def l' insert_lookup_new)
      with g True stands_now[of H L P "tk_unix t" "tk_query t" "tk_headers t" l0 f x es i] show ?thesis
        by (simp add: At_insert Some)
    qed
  qed
next
  case (At_replace f k)
  then have l': "lo_sessions l' = replace_old (cookie_read H (tk_headers t) (session_name (lo_names l))) (lo_sessions l)"
    using r by (auto simp: replace_old_def split: option.splits)
  with x have "cookie_read H (tk_headers t) (session_name (lo_names l)) \<noteq> Some i" "session_at l i = Some x"
    by (auto simp: session_at_def replace_old_view(1)[OF wf] split: if_splits)
  then show ?thesis
    by (auto simp: At_replace ended_def intro!: stands_later old split: option.splits)
next
  case (At_cookie f k)
  let ?c = "names_set (lo_names l) (session_name (lo_names l)) k (as_secs (ttl (lo_sessions l)))"
  have "(from_str H ?c = None \<longrightarrow> lo_sessions l' = session_remove k (lo_sessions l)) \<and> (from_str H ?c \<noteq> None \<longrightarrow> l' = l)"
    using r by (auto simp: At_cookie append_cookie_cases split: prod.splits bool.splits)
  with x have "session_at l i = Some x \<and> (from_str H ?c = None \<longrightarrow> k \<noteq> i)"
    by (cases "from_str H ?c = None") (auto simp: session_at_def remove_lookup[OF wf] split: if_splits)
  then show ?thesis
    by (auto simp: At_cookie intro!: stands_later old)
qed (use r x old in \<open>auto simp: session_at_def asked(1) ask_rediscover_def split: option.splits prod.splits\<close>)

section \<open>The invariant\<close>

definition server_inv ::
  "http_lib \<Rightarrow> flow_lib \<Rightarrow> ('c, 'm, 'r, 'tok, 'idt) oidc_lib \<Rightarrow> 'c login \<Rightarrow> ('c, 'idt) server \<Rightarrow> bool" where
  "server_inv H L P l0 s \<longleftrightarrow> same_setup l0 (sv_login s) \<and> bounded (lo_sessions (sv_login s))
     \<and> (\<forall>n t. sv_tasks s n = Some t \<longrightarrow> gathered H L P l0 (sv_log s) t (tk_pending t))
     \<and> (\<forall>i x. session_at (sv_login s) i = Some x \<longrightarrow> stands H L P l0 (sv_log s) i x)"

lemma inv_wf: "server_inv H L P l0 s \<Longrightarrow> session_wf (lo_sessions (sv_login s))"
  by (simp add: server_inv_def bounded_def)

text \<open>A step that adds no session, and logs the end of those it removes on purpose.\<close>

lemma inv_fewer:
  assumes "server_inv H L P l0 s" and "same_setup (sv_login s) l'" and "bounded (lo_sessions l')"
    and "\<And>i x. session_at l' i = Some x \<Longrightarrow> session_at (sv_login s) i = Some x \<and> Ended i \<notin> set es"
  shows "server_inv H L P l0 (s\<lparr>sv_login := l', sv_log := sv_log s @ es\<rparr>)"
proof -
  have "same_setup l0 l'"
    using assms(1,2) same_setup_trans unfolding server_inv_def by blast
  moreover have "stands H L P l0 (sv_log s @ es) i x" if "session_at l' i = Some x" for i x
    using assms(1) assms(4)[OF that] unfolding server_inv_def by (blast intro: stands_later)
  moreover have "gathered H L P l0 (sv_log s @ es) t (tk_pending t)" if "sv_tasks s n = Some t" for n t
    using assms(1) that unfolding server_inv_def by (blast intro: gathered_later)
  ultimately show ?thesis
    using assms(3) by (simp add: server_inv_def)
qed

lemma inv_reads:
  assumes inv: "server_inv H L P l0 s" and "same_setup (sv_login s) l'"
    and read: "l' = sv_login s \<or> l' = (sv_login s)\<lparr>lo_sessions := snd (session_get k now (lo_sessions (sv_login s)))\<rparr>"
  shows "server_inv H L P l0 (s\<lparr>sv_login := l'\<rparr>)"
proof -
  have b: "bounded (lo_sessions (sv_login s))" using inv by (simp add: server_inv_def)
  have "bounded (lo_sessions l')"
    using read b bounded_apply[OF b, of "Get k now"] by (auto simp: iterates_def)
  from inv_fewer[OF inv assms(2) this, of "[]"] read_keeps(2)[OF read inv_wf[OF inv]] show ?thesis by simp
qed

definition json_round_trips :: "flow_lib \<Rightarrow> bool" where
  "json_round_trips L \<longleftrightarrow> (\<forall>f t j. sealed_to_json L (sealed_of f t) = Some j \<longrightarrow> sealed_from_json L j = Some (sealed_of f t))"

lemma begin_gathers:
  assumes json: "json_round_trips L" and same: "same_setup l0 l"
    and start: "begin_callback H L P unix q h l = Inr (state, p)"
    and cookies: "\<And>name val. cookie_read H h name = Some val \<Longrightarrow> genuine L (cipher_key (lo_flows l)) (sealings es) val"
  shows "gathered H L P l0 es \<lparr>tk_query = q, tk_headers = h, tk_unix = unix, tk_pending = p\<rparr> p"
proof -
  obtain code f where q: "q_error q = None" "q_code q = Some code" "q_state q = Some state" "p = At_client code f"
      and f: "opened_flow H L unix l h state = Some f"
    using start by (auto simp: begin_callback_def split: option.splits)
  then obtain val where val: "valid_state state" "cookie_read H h (names_flow (lo_names l) state) = Some val"
      "flow_open L (lo_flows l) unix state val = Some f"
    by (auto simp: opened_flow_def bind_eq_Some_conv split: if_splits)
  have "\<forall>(st, f, t) \<in> set (sealings es). \<forall>j. sealed_to_json L (sealed_of f t) = Some j \<longrightarrow> sealed_from_json L j = Some (sealed_of f t)"
    using json by (auto simp: json_round_trips_def)
  from genuine_was_sealed[OF cookies[OF val(2)] this val(3)] obtain t where
    "(state, f, t) \<in> set (sealings es)" "unat unix - unat t < 1800" by blast
  then have "sealed_in es unix q f" using q(3) by (auto simp: sealed_in_def sealings_iff)
  with q val same show ?thesis by (simp add: opened_by_def same_setup_def)
qed

lemma inv_go_on:
  assumes inv: "server_inv H L P l0 s" and t: "sv_tasks s n = Some t" and it: "iteration_order (cw_order w)"
    and r: "resume H P w (tk_headers t) (tk_pending t) (sv_login s) = (r, l')"
  shows "server_inv H L P l0 (s\<lparr>sv_login := l', sv_log := sv_log s @ resume_log H w t (tk_pending t) (sv_login s),
      sv_tasks := (sv_tasks s)(n := (case r of Inl a \<Rightarrow> None | Inr p \<Rightarrow> Some (t\<lparr>tk_pending := p\<rparr>)))\<rparr>)"
proof -
  let ?es = "sv_log s @ resume_log H w t (tk_pending t) (sv_login s)"
  have b: "bounded (lo_sessions (sv_login s))" and same: "same_setup l0 (sv_login s)"
    and olds: "session_at (sv_login s) i = Some x \<Longrightarrow> stands H L P l0 (sv_log s) i x" for i x
    using inv by (simp_all add: server_inv_def)
  have g: "gathered H L P l0 (sv_log s) t (tk_pending t)"
    using inv t unfolding server_inv_def by blast
  have "gathered H L P l0 ?es t' (tk_pending t')"
    if "((sv_tasks s)(n := (case r of Inl a \<Rightarrow> None | Inr p \<Rightarrow> Some (t\<lparr>tk_pending := p\<rparr>)))) m = Some t'" for m t'
  proof (cases "m = n")
    case False
    with that inv show ?thesis unfolding server_inv_def by (auto intro: gathered_later)
  next
    case True
    with that obtain p where p: "r = Inr p" "t' = t\<lparr>tk_pending := p\<rparr>" by (auto split: sum.splits)
    have "gathered H L P l0 ?es t p"
      by (rule gathered_later[OF resume_gathers]) (use r p g in auto)
    then show ?thesis unfolding p by (cases p) (auto simp: opened_by_def got_token_def)
  qed
  moreover have "stands H L P l0 ?es i x" if "session_at l' i = Some x" for i x
    by (rule resume_stands[OF r inv_wf[OF inv] g that olds])
  ultimately show ?thesis
    using same_setup_trans[OF same resume_setup[OF r]] resume_bounded[OF r it b] by (simp add: server_inv_def)
qed

lemma inv_sign_out:
  assumes inv: "server_inv H L P l0 s"
  shows "server_inv H L P l0 (s\<lparr>sv_login := snd (logout_handler H h (sv_login s)), sv_log := sv_log s @ sign_out_log H h (sv_login s)\<rparr>)"
proof -
  have b: "bounded (lo_sessions (sv_login s))" using inv by (simp add: server_inv_def)
  have "bounded (lo_sessions (snd (logout_handler H h (sv_login s))))"
    using b bounded_apply[OF b, of "Remove i" for i] by (auto simp: logout_handler_def iterates_def split: option.splits)
  then show ?thesis
    by (rule inv_fewer[OF inv logout_setup])
      (use logout_sessions(2,3)[OF inv_wf[OF inv]] in \<open>auto simp: sign_out_log_def ended_def split: option.splits if_splits\<close>)
qed

lemma server_inv_step:
  assumes step: "server_step H L P s s'" and inv: "server_inv H L P l0 s"
    and json: "json_round_trips L" and enabled: "lo_provider l0 \<noteq> None"
  shows "server_inv H L P l0 s'"
proof -
  let ?l = "sv_login s"
  have b: "bounded (lo_sessions ?l)" and same: "same_setup l0 ?l"
    using inv by (simp_all add: server_inv_def)
  have kept: "server_inv H L P l0 (s\<lparr>sv_login := l', sv_log := sv_log s @ es\<rparr>)"
    if "same_setup ?l l'" "lo_sessions l' = lo_sessions ?l" "\<forall>i. Ended i \<notin> set es" for l' es
    by (rule inv_fewer[OF inv that(1)]) (use that b in \<open>auto simp: session_at_def\<close>)
  show ?thesis
    using step
  proof (cases rule: server_step.cases)
    case (start w q h)
    show ?thesis
      unfolding start by (rule kept[OF login_setup]) (auto simp: login_sessions login_log_def)
  next
    case (arrive n unix q h state p)
    have "gathered H L P l0 (sv_log s) \<lparr>tk_query = q, tk_headers = h, tk_unix = unix, tk_pending = p\<rparr> p"
      by (rule begin_gathers[OF json same]) (use arrive in auto)
    with inv show ?thesis unfolding arrive(1) by (simp add: server_inv_def)
  next
    case (go_on n t w r l')
    show ?thesis unfolding go_on(1) by (rule inv_go_on[OF inv go_on(2-4)])
  next
    case (drop_task n t)
    with inv show ?thesis by (auto simp: server_inv_def)
  next
    case (drop_discovery d)
    from kept[of "?l\<lparr>lo_provider := map_option (\<lambda>p. snd (discover_dropped d p)) (lo_provider ?l)\<rparr>" "[]"] drop_discovery
    show ?thesis by (simp add: same_setup_def)
  next
    case (sign_out h)
    show ?thesis unfolding sign_out by (rule inv_sign_out[OF inv])
  next
    case (who now h)
    obtain k where "snd (me_handler H now h ?l) = ?l \<or> snd (me_handler H now h ?l) = ?l\<lparr>lo_sessions := snd (session_get k now (lo_sessions ?l))\<rparr>"
      using me_reads by blast
    from inv_reads[OF inv me_setup this] show ?thesis unfolding who .
  next
    case (api now r)
    obtain k where "snd (authenticate H now r ?l) = ?l \<or> snd (authenticate H now r ?l) = ?l\<lparr>lo_sessions := snd (session_get k now (lo_sessions ?l))\<rparr>"
      using authenticate_reads by blast
    from inv_reads[OF inv authenticate_setup this] show ?thesis unfolding api .
  qed
qed

lemma new_server_inv:
  "bounded (lo_sessions l0) \<Longrightarrow> session_map (lo_sessions l0) = hm_new \<Longrightarrow> server_inv H L P l0 (server_new l0)"
  by (simp add: server_inv_def server_new_def session_at_def hm.get_new)

interpretation server: step_invariant "\<lambda>s. json_round_trips L \<and> lo_provider l0 \<noteq> None \<and> bounded (lo_sessions l0)
      \<and> session_map (lo_sessions l0) = hm_new \<and> s = server_new l0" "server_step H L P"
    "\<lambda>s. json_round_trips L \<and> lo_provider l0 \<noteq> None \<and> server_inv H L P l0 s"
  by unfold_locales (auto simp: new_server_inv intro: server_inv_step)

lemma new_login_bounded:
  assumes "login_new U http_ok rng now c = Inr l"
  shows "bounded (lo_sessions l)" and "session_map (lo_sessions l) = hm_new"
  using new_login(1)[OF assms]
  by (simp_all add: new_bounded) (simp add: session_store_new_def)

lemma reached:
  assumes "login_new U http_ok rng t0 cfg = Inr l0" and "\<not> cfg_dev_no_auth cfg" and "json_round_trips L"
    and "reach (\<lambda>s. s = server_new l0) (server_step H L P) s"
  shows "server_inv H L P l0 s"
proof -
  have "lo_provider l0 \<noteq> None" using new_login(2)[OF assms(1)] assms(2) by simp
  then have "reach (\<lambda>s. json_round_trips L \<and> lo_provider l0 \<noteq> None \<and> bounded (lo_sessions l0)
      \<and> session_map (lo_sessions l0) = hm_new \<and> s = server_new l0) (server_step H L P) s"
    using assms(3) new_login_bounded[OF assms(1)] by (intro reach_init_mono[OF assms(4)]) simp
  from server.reach_inv[OF this] show ?thesis by simp
qed

text \<open>However the requests interleave, the bounds on the sessions hold at every moment.\<close>

lemma sessions_stay_bounded:
  assumes "login_new U http_ok rng t0 cfg = Inr l0" and "\<not> cfg_dev_no_auth cfg" and "json_round_trips L"
    and "reach (\<lambda>s. s = server_new l0) (server_step H L P) s"
  shows "sessions_held (sv_login s) \<le> 10000"
    and "hm_count (is_theirs sub) (session_map (lo_sessions (sv_login s))) \<le> 20"
  using reached[OF assms] by (simp_all add: server_inv_def bounded_def sessions_held_def max_sessions_def max_per_subject_def)

section \<open>Callbacks come to an end\<close>

text \<open>How many own steps a callback has left at most, and the state after its next one.\<close>

definition remaining :: "('c, 'idt) server \<Rightarrow> nat \<Rightarrow> nat" where
  "remaining s n = (case sv_tasks s n of None \<Rightarrow> 0 | Some t \<Rightarrow> stage (tk_pending t))"

definition advance ::
  "http_lib \<Rightarrow> ('c, 'm, 'r, 'tok, 'idt) oidc_lib \<Rightarrow> 'm callback_world \<Rightarrow> nat \<Rightarrow> ('c, 'idt) server \<Rightarrow> ('c, 'idt) server" where
  "advance H P w n s =
     (case sv_tasks s n of None \<Rightarrow> s
      | Some t \<Rightarrow> (case resume H P w (tk_headers t) (tk_pending t) (sv_login s) of (r, l') \<Rightarrow>
          s\<lparr>sv_login := l', sv_log := sv_log s @ resume_log H w t (tk_pending t) (sv_login s),
            sv_tasks := (sv_tasks s)(n := (case r of Inl a \<Rightarrow> None | Inr p \<Rightarrow> Some (t\<lparr>tk_pending := p\<rparr>)))\<rparr>))"

text \<open>A stretch of the service's run while a callback is under way, with the number of steps that were its own.\<close>

inductive under_way ::
  "http_lib \<Rightarrow> flow_lib \<Rightarrow> ('c, 'm, 'r, 'tok, 'idt) oidc_lib \<Rightarrow> nat \<Rightarrow> ('c, 'idt) server \<Rightarrow> nat \<Rightarrow> ('c, 'idt) server \<Rightarrow> bool"
  for H L P n s where
  begun: "under_way H L P n s 0 s"
| others: "under_way H L P n s k s1 \<Longrightarrow> sv_tasks s1 n \<noteq> None \<Longrightarrow> server_step H L P s1 s2 \<Longrightarrow> under_way H L P n s k s2"
| own: "under_way H L P n s k s1 \<Longrightarrow> sv_tasks s1 n \<noteq> None \<Longrightarrow> iteration_order (cw_order w) \<Longrightarrow>
     under_way H L P n s (Suc k) (advance H P w n s1)"

lemma stage_range: "0 < stage p" "stage p \<le> 7"
  by (cases p; simp)+

lemma remaining_zero: "remaining s n = 0 \<longleftrightarrow> sv_tasks s n = None"
  using stage_range(1) by (auto simp: remaining_def split: option.split)

lemma remaining_bound: "remaining s n \<le> 7"
  using stage_range(2) by (auto simp: remaining_def split: option.split)

lemma advance_is_a_step:
  assumes "sv_tasks s n \<noteq> None" and "iteration_order (cw_order w)"
  shows "server_step H L P s (advance H P w n s)"
proof -
  obtain t where t: "sv_tasks s n = Some t" using assms(1) by blast
  obtain r l' where r: "resume H P w (tk_headers t) (tk_pending t) (sv_login s) = (r, l')" by fastforce
  show ?thesis using go_on[OF t assms(2) r] by (simp add: advance_def t r)
qed

lemma own_step_advances: "sv_tasks s n \<noteq> None \<Longrightarrow> remaining (advance H P w n s) n < remaining s n"
  using stage_range(1)
  by (auto simp: remaining_def advance_def split: option.split prod.split sum.split dest: resume_advances)

lemma nobody_sets_back:
  assumes "server_step H L P s s'" and "sv_tasks s n \<noteq> None"
  shows "remaining s' n \<le> remaining s n"
  using assms
proof (cases rule: server_step.cases)
  case (go_on m t w r l')
  then show ?thesis
    by (auto simp: remaining_def split: option.split sum.split dest!: resume_advances)
qed (auto simp: remaining_def)

lemma own_steps_counted:
  assumes "under_way H L P n s k s'" shows "k + remaining s' n \<le> remaining s n"
  using assms
proof induction
  case (others k s1 s2)
  from nobody_sets_back[OF others(3,2)] others.IH show ?case by simp
next
  case (own k s1 w)
  from own_step_advances[OF own(2), of H P w] own.IH show ?case by simp
qed simp

text \<open>
  Whatever other requests do meanwhile, and however the world answers at each step, a callback ends after at most
  seven steps of its own: nobody sets it back, while it is under way it can always take its next step, and after
  the seventh it has been answered.\<close>

lemma callbacks_come_to_an_end:
  assumes "under_way H L P n s k s'"
  shows "k \<le> 7 \<and> (k = 7 \<longrightarrow> sv_tasks s' n = None)
    \<and> (sv_tasks s' n \<noteq> None \<longrightarrow> iteration_order (cw_order w) \<longrightarrow>
         server_step H L P s' (advance H P w n s') \<and> remaining (advance H P w n s') n < remaining s' n)"
proof (intro conjI impI)
  have left: "k + remaining s' n \<le> 7"
    using own_steps_counted[OF assms] remaining_bound[of s n] by simp
  then show "k \<le> 7" and "k = 7 \<Longrightarrow> sv_tasks s' n = None"
    by (simp_all add: remaining_zero[symmetric])
qed (simp_all add: advance_is_a_step own_step_advances)

section \<open>A whole handler is a run of steps\<close>

lemma drive_reach:
  assumes "reach init (server_step H L P) s" and "sv_tasks s n = Some t" and "iteration_order (cw_order w)"
    and "drive H P w (tk_headers t) (tk_pending t) (sv_login s) = (a, l')"
  shows "\<exists>s'. reach init (server_step H L P) s' \<and> sv_login s' = l' \<and> sv_tasks s' n = None"
  using assms
proof (induction "stage (tk_pending t)" arbitrary: s t rule: less_induct)
  case less
  obtain r l1 where r: "resume H P w (tk_headers t) (tk_pending t) (sv_login s) = (r, l1)" by fastforce
  let ?s1 = "advance H P w n s"
  have s1: "reach init (server_step H L P) ?s1"
    by (rule reach_step[OF less.prems(1)], rule advance_is_a_step) (simp_all add: less.prems(2,3))
  have a: "?s1 = s\<lparr>sv_login := l1, sv_log := sv_log s @ resume_log H w t (tk_pending t) (sv_login s),
         sv_tasks := (sv_tasks s)(n := (case r of Inl a \<Rightarrow> None | Inr p \<Rightarrow> Some (t\<lparr>tk_pending := p\<rparr>)))\<rparr>"
    by (simp add: advance_def less.prems(2) r)
  show ?case
  proof (cases r)
    case (Inl b)
    with less.prems(4) r have "l1 = l'" by (subst (asm) drive.simps) simp
    with s1 Inl show ?thesis by (intro exI[of _ ?s1]) (simp add: a)
  next
    case (Inr p)
    have "drive H P w (tk_headers t) p l1 = (a, l')"
      using less.prems(4) by (subst (asm) drive.simps) (simp add: r Inr)
    moreover have "stage p < stage (tk_pending t)" using resume_advances r Inr by blast
    ultimately show ?thesis
      using less.hyps[of "t\<lparr>tk_pending := p\<rparr>" ?s1] s1 less.prems(3) Inr by (simp add: a)
  qed
qed

lemma callback_reach:
  assumes "reach init (server_step H L P) s" and "sv_tasks s n = None" and "iteration_order (cw_order w)"
    and "begin_callback H L P (cw_unix w) q h (sv_login s) = Inr (state, p)"
    and "\<And>name val. cookie_read H h name = Some val \<Longrightarrow> genuine L (cipher_key (lo_flows (sv_login s))) (sealings (sv_log s)) val"
  shows "\<exists>s'. reach init (server_step H L P) s' \<and> sv_login s' = snd (callback_handler H L P w q h (sv_login s))"
proof -
  define s1 where "s1 = s\<lparr>sv_tasks := (sv_tasks s)(n \<mapsto> \<lparr>tk_query = q, tk_headers = h, tk_unix = cw_unix w, tk_pending = p\<rparr>)\<rparr>"
  have r: "reach init (server_step H L P) s1"
    unfolding s1_def by (rule reach_step[OF assms(1)], rule arrive[OF assms(2,4,5)])
  obtain a l' where d: "drive H P w h p (sv_login s) = (a, l')" by fastforce
  have "snd (callback_handler H L P w q h (sv_login s)) = l'"
    by (simp add: callback_is_its_steps assms(4) d)
  with drive_reach[OF r, of n "\<lparr>tk_query = q, tk_headers = h, tk_unix = cw_unix w, tk_pending = p\<rparr>" w a l'] assms(3) d
  show ?thesis by (auto simp: s1_def)
qed

section \<open>Properties\<close>

text \<open>C1
  However requests interleave, and whichever are dropped on the way: whoever a running service admits by the
  session cookie signed in earlier. The log holds the callback that stored the very session the cookie names, with
  its identity and authentication time from an ID token verified against the nonce of a flow that the
  callback's own cookies carried; that flow had been sealed for that state before the callback and was under 30
  minutes old; nothing ended the session since, no sign-out, no newer sign-in and no failed answer; and
  the lifetime has not passed.\<close>

theorem whoever_is_admitted_signed_in:
  assumes "login_new U http_ok rng t0 cfg = Inr l0" and "\<not> cfg_dev_no_auth cfg" and "json_round_trips L"
    and "reach (\<lambda>s. s = server_new l0) (server_step H L P) s"
    and "st_login st = Some (sv_login s)" and "\<not> st_dev st"
    and "from_request_parts H J w r st = (Inr c, st')"
    and "header_get (p_headers r) ''authorization'' = None"
    and "st_bff st = None \<or> header_text H (p_headers r) ''x-bff-assertion'' = None"
  shows "\<exists>pre post f unix q h state t i (x :: session).
      sv_log s = pre @ Signed_in i (identity x) (auth_time x) (created x) f unix q h # post
    \<and> cookie_read H (p_headers r) (session_name (lo_names l0)) = Some i \<and> Ended i \<notin> set post
    \<and> verified_sign_in H L P unix q h l0 f (identity x) (auth_time x)
    \<and> q_state q = Some state \<and> Sealed state f t \<in> set pre \<and> unat unix - unat t < 1800
    \<and> cl_sub c = id_sub (identity x) \<and> cl_email c = id_email (identity x) \<and> cl_auth_time c = auth_time x
    \<and> rw_now w - created x < session_ttl cfg"
proof -
  have inv: "server_inv H L P l0 s" by (rule reached[OF assms(1-4)])
  then have same: "lo_names (sv_login s) = lo_names l0" "ttl (lo_sessions (sv_login s)) = session_ttl cfg"
    using new_login(1)[OF assms(1)] by (simp_all add: server_inv_def same_setup_def session_store_new_def)
  have "fst (authenticate H (rw_now w) r (sv_login s)) = Some (Inr c)"
    by (rule admitted_by_cookie[OF assms(7,6,8,9,5)])
  then obtain i x where x: "cookie_read H (p_headers r) (session_name (lo_names l0)) = Some i"
      "session_at (sv_login s) i = Some x" "live (session_ttl cfg) (rw_now w) x" "c = claims_of_session x"
    by (auto simp: authenticate_result session_behind_def session_at_def same bind_eq_Some_conv split: option.splits if_splits)
  then have "stands H L P l0 (sv_log s) i x" using inv by (simp add: server_inv_def)
  then obtain pre post f unix q h where e: "sv_log s = pre @ Signed_in i (identity x) (auth_time x) (created x) f unix q h # post"
      "verified_sign_in H L P unix q h l0 f (identity x) (auth_time x)" "sealed_in pre unix q f" "Ended i \<notin> set post"
    unfolding stands_def by blast
  from e(3) obtain state t where t: "q_state q = Some state" "Sealed state f t \<in> set pre" "unat unix - unat t < 1800"
    by (auto simp: sealed_in_def)
  have "rw_now w - created x < session_ttl cfg" using x(3) by (simp add: live_def elapsed_def)
  with e t x(1,4) show ?thesis
    by (intro exI[of _ pre] exI[of _ post] exI[of _ f] exI[of _ unix] exI[of _ q] exI[of _ h])
      (rule exI[of _ state], rule exI[of _ t], rule exI[of _ i], rule exI[of _ x], simp add: claims_of_session_def)
qed

text \<open>A library that seals one flow, and the service after a sign-in on it.\<close>

definition one_flow_lib :: flow_lib where
  "one_flow_lib = a_flow_lib\<lparr>sealed_to_json := (\<lambda>d. if d = sealed_of a_flow 20 then Some ''json'' else None)\<rparr>"

lemma one_flow_round_trips: "json_round_trips one_flow_lib"
  by (simp add: json_round_trips_def one_flow_lib_def a_flow_lib_def)

lemma one_flow_opens: "flow_open one_flow_lib = flow_open a_flow_lib"
  by (intro ext) (simp add: flow_open_def open_raw_def one_flow_lib_def a_flow_lib_def)

definition started_server :: "(unit, unit) server" where
  "started_server = \<lparr>sv_login = ready_login, sv_tasks = (\<lambda>_. None), sv_log = [Sealed ''abcdefghijklmnop'' a_flow 20]\<rparr>"

lemma started_reach: "reach (\<lambda>s. s = server_new fresh_login) (server_step plain_http one_flow_lib an_oidc) started_server"
proof -
  let ?w = "a_login_world\<lparr>lw_discovery := found\<rparr>"
  have l: "snd (login_handler plain_http one_flow_lib an_oidc ?w a_login_query [] fresh_login) = ready_login"
    by (subst login_leaves(1)) (simp_all add: a_login_world_def first_ask, simp add: fresh_login_def)
  have "login_log one_flow_lib an_oidc ?w a_login_query fresh_login = [Sealed ''abcdefghijklmnop'' a_flow 20]"
    by (simp add: login_log_def first_ask a_started_flow)
      (simp add: seal_def one_flow_lib_def a_flow_lib_def a_login_world_def an_oidc_def)
  with l have "started_server = (server_new fresh_login)\<lparr>sv_login := snd (login_handler plain_http one_flow_lib an_oidc ?w a_login_query [] fresh_login),
      sv_log := sv_log (server_new fresh_login) @ login_log one_flow_lib an_oidc ?w a_login_query fresh_login\<rparr>"
    by (simp add: started_server_def server_new_def)
  then have "server_step plain_http one_flow_lib an_oidc (server_new fresh_login) started_server"
    using start[of plain_http one_flow_lib an_oidc "server_new fresh_login" ?w a_login_query "[]"] by (simp add: server_new_def)
  then show ?thesis
    by (rule reach_step[rotated]) (rule reach_init, rule refl)
qed

lemma signed_in_reach:
  "\<exists>s. reach (\<lambda>s. s = server_new fresh_login) (server_step plain_http one_flow_lib an_oidc) s \<and> sv_login s = ada_login"
proof -
  have o: "opened_flow plain_http one_flow_lib 50 ready_login (browser the_cookies) ''abcdefghijklmnop'' = Some a_flow"
    by (simp add: opened_flow_def a_state_valid the_cookies_read ready_simps names_new_def names_flow_def one_flow_opens)
      (simp add: the_cookies_def a_flow_opens)
  have b: "begin_callback plain_http one_flow_lib an_oidc (cw_unix a_world) a_query (browser the_cookies) (sv_login started_server)
      = Inr (''abcdefghijklmnop'', At_client ''code'' a_flow)"
    using o by (simp add: begin_callback_def started_server_def a_query_def a_world_def) (simp add: ready_login_def fresh_login_def)
  have g: "genuine one_flow_lib k (sealings (sv_log started_server)) val" for k val
    by (auto simp: genuine_def sealings_iff started_server_def one_flow_lib_def a_flow_lib_def sealings_def map_filter_simps)
  have same: "opened_flow plain_http one_flow_lib unix l = opened_flow plain_http a_flow_lib unix l" for unix and l :: "unit login"
    by (intro ext) (simp add: opened_flow_def one_flow_opens)
  have "callback_handler plain_http one_flow_lib an_oidc = callback_handler plain_http a_flow_lib an_oidc"
    by (intro ext) (simp only: callback_handler_def same)
  with finished have f: "snd (callback_handler plain_http one_flow_lib an_oidc a_world a_query (browser the_cookies) (sv_login started_server)) = ada_login"
    by (simp add: started_server_def)
  have w: "sv_tasks started_server 0 = None" "iteration_order (cw_order a_world)"
    by (simp_all add: started_server_def a_world_def iteration_order_def)
  from callback_reach[OF started_reach w b g] f show ?thesis by simp
qed

theorem whoever_is_admitted_signed_in_witness:
  "\<exists>s c st'. reach (\<lambda>s. s = server_new fresh_login) (server_step plain_http one_flow_lib an_oidc) s
     \<and> from_request_parts plain_http clear_jwt ada_world ada_request (a_service\<lparr>st_login := Some (sv_login s)\<rparr>) = (Inr c, st')
     \<and> (\<exists>(x :: session) f unix q h. cl_sub c = id_sub (identity x) \<and> Signed_in ''new'' (identity x) (auth_time x) (created x) f unix q h \<in> set (sv_log s))"
proof -
  obtain s where s: "reach (\<lambda>s. s = server_new fresh_login) (server_step plain_http one_flow_lib an_oidc) s" "sv_login s = ada_login"
    using signed_in_reach by blast
  let ?st = "a_service\<lparr>st_login := Some (sv_login s)\<rparr>"
  obtain c st' where adm: "from_request_parts plain_http clear_jwt ada_world ada_request ?st = (Inr c, st')"
    using ada_admitted s(2) by metis
  have pre: "st_login ?st = Some (sv_login s)" "\<not> st_dev ?st"
      "header_get (p_headers ada_request) ''authorization'' = None"
      "st_bff ?st = None \<or> header_text plain_http (p_headers ada_request) ''x-bff-assertion'' = None"
    by (simp_all add: a_service_def a_store_def ada_request_def browser_def header_get_def)
  from whoever_is_admitted_signed_in[OF fresh_login_new one_flow_round_trips s(1) pre(1,2) adm pre(3,4)]
  obtain pre post f unix q h and i :: string and x :: session where
    "sv_log s = pre @ Signed_in i (identity x) (auth_time x) (created x) f unix q h # post"
    "cookie_read plain_http (p_headers ada_request) (session_name (lo_names fresh_login)) = Some i" "cl_sub c = id_sub (identity x)"
    by blast
  moreover from this(2) ada_cookie have "i = ''new''" by (simp add: fresh_login_def)
  ultimately have "cl_sub c = id_sub (identity x) \<and> Signed_in ''new'' (identity x) (auth_time x) (created x) f unix q h \<in> set (sv_log s)"
    by simp
  with s(1) adm show ?thesis by blast
qed

end
