(* ===== verification/Rotation.thy ===== *)
theory Rotation
  imports Service
begin

text \<open>
  What happens when the identity provider rotates its signing keys, across \<open>src/src/login/provider.rs\<close>,
  \<open>handlers.rs\<close> and \<open>src/src/auth.rs\<close>: the keys a service holds no longer verify what the provider signs, and
  the next sign-in or bearer fetches the new ones.
\<close>

section \<open>The provider's client\<close>

text \<open>A refresh that is allowed and answered replaces the client, whatever it was.\<close>

lemma rediscover_replaces:
  assumes "\<forall>t. failure p = Some t \<longrightarrow> t + from_secs 30 \<le> locked_at d" and "\<forall>t. refreshed p = Some t \<longrightarrow> t + from_secs 30 \<le> locked_at d"
    and "answer d = Some md"
  shows "rediscover b d p = p\<lparr>refreshed := Some (locked_at d), client := Some (b md (client_id p) (redirect_uri p)), failure := None\<rparr>"
proof -
  have "\<not> recent (locked_at d) (failure p)" "\<not> recent (locked_at d) (refreshed p)"
    using assms(1,2) by (auto simp: recent_def elapsed_def cooldown_def split: option.split)
  with assms(3) show ?thesis by (simp add: rediscover_def discover_def Let_def)
qed

lemma verify_after_rotation:
  assumes p: "lo_provider l = Some p"
    and allowed: "\<forall>t. failure p = Some t \<longrightarrow> t + from_secs 30 \<le> locked_at d" "\<forall>t. refreshed p = Some t \<longrightarrow> t + from_secs 30 \<le> locked_at d"
    and md: "answer d = Some md"
    and old: "verify_claims P c tok n = None"
    and new: "verify_claims P (build P md (client_id p) (redirect_uri p)) tok n = Some claims"
  shows "verify_id_token P d d' c tok n l =
    (Some (identity_from_claims claims), l\<lparr>lo_provider := Some (rediscover (build P) d p)\<rparr>)"
  using p old new rediscover_replaces[OF allowed md, of "build P"]
  by (simp add: verify_id_token_def ask_rediscover_def ask_client_def provider_client_def Let_def)

text \<open>A bearer under a key not seen yet is accepted by the request that brings it, and by all later ones without a fetch.\<close>

lemma bearer_after_rotation:
  assumes "Option.bind (decode_header J token) jh_kid = Some kid" and "jwks_find J (keys s) kid = None"
    and "\<forall>t. last_refresh s = Some t \<longrightarrow> t + from_secs 60 \<le> ref_locked r"
    and "fetch_jwks (ref_web r) (st_issuer s) = Some fresh"
    and "verify_with_keys J fresh kid (st_issuer s) (st_audience s) token = Some (c, auds)"
    and "\<forall>p \<in> set (st_peers s). peer_audience p \<notin> set auds"
  shows "validate J r token s = (Inr c, s\<lparr>last_refresh := Some (ref_done r), keys := fresh\<rparr>)"
    and "validate J r' token (s\<lparr>last_refresh := Some (ref_done r), keys := fresh\<rparr>) = (Inr c, s\<lparr>last_refresh := Some (ref_done r), keys := fresh\<rparr>)"
proof -
  let ?s = "s\<lparr>last_refresh := Some (ref_done r), keys := fresh\<rparr>"
  have "refresh_decision J kid (ref_locked r) s = Must_fetch"
    using assms(2,3) by (auto simp: refresh_decision_def elapsed_def refresh_cooldown_def split: option.split)
  then have e: "ensure_key J r kid s = (True, ?s)"
    using assms(2,4) by (simp add: ensure_key_def refresh_done_def)
  have "jwks_find J fresh kid \<noteq> None"
    using assms(5) by (auto simp: verify_with_keys_def split: option.splits)
  then have e': "ensure_key J r' kid ?s = (True, ?s)"
    by (simp add: ensure_key_def)
  have none: "\<not> list_ex (\<lambda>p. peer_audience p \<in> set auds) (st_peers s)"
    using assms(6) by (auto simp: list_ex_iff)
  show "validate J r token s = (Inr c, ?s)" "validate J r' token ?s = (Inr c, ?s)"
    by (simp_all add: validate_def validate_for_def assms(1,5) e e' none)
qed

section \<open>Properties\<close>

text \<open>C7
  A sign-in across a key rotation succeeds: when the ID token does not verify under the keys held, and no
  attempt failed and no refresh began within 30 seconds, the callback fetches the provider's metadata again,
  verifies the token under the new keys and signs the user in: the answer redirects to the flow's
  destination, the new session is stored with the identity and authentication time of those claims, and the new
  client is kept for every later sign-in.\<close>

theorem sign_in_survives_key_rotation:
  assumes "lo_provider l = Some p" and "client p = Some c" and "session_wf (lo_sessions l)"
    and "q = \<lparr>q_code = Some code, q_state = Some state, q_error = None\<rparr>"
    and "opened_flow H L (cw_unix w) l h state = Some f" and "has_token_endpoint P c"
    and "request_token P c \<lparr>tr_code = code, tr_verifier = pkce_verifier f\<rparr> = Some tokens" and "id_token P tokens = Some tok"
    and "verify_claims P c tok (nonce f) = None"
    and "\<forall>t. failure p = Some t \<longrightarrow> t + from_secs 30 \<le> locked_at (cw_refresh w)"
    and "\<forall>t. refreshed p = Some t \<longrightarrow> t + from_secs 30 \<le> locked_at (cw_refresh w)"
    and "answer (cw_refresh w) = Some md"
    and "verify_claims P (build P md (client_id p) (redirect_uri p)) tok (nonce f) = Some claims"
    and "cw_fresh_id w = Some i" and "cookie_read H h (session_name (lo_names l)) \<noteq> Some i"
    and "from_str H (names_set (lo_names l) (session_name (lo_names l)) i (as_secs (ttl (lo_sessions l)))) = Some v"
    and "callback_handler H L P w q h l = (a, l')"
  shows "ans_status a = SEE_OTHER \<and> location_of a = from_str H (return_to f) \<and> v \<in> set (set_cookies a)
    \<and> (\<exists>x. hm_get (session_map (lo_sessions l')) i = Some x \<and> (identity x, auth_time x) = identity_from_claims claims \<and> created x = cw_now w)
    \<and> (\<exists>p'. lo_provider l' = Some p' \<and> client p' = Some (build P md (client_id p) (redirect_uri p)))"
proof -
  let ?l2 = "l\<lparr>lo_provider := Some (rediscover (build P) (cw_refresh w) p)\<rparr>"
  have ask: "ask_client P (cw_discovery w) l = (Some c, l)"
    using assms(1,2) by (simp add: ask_client_def provider_client_def)
  obtain idn auth where ids: "identity_from_claims claims = (idn, auth)" by fastforce
  have ver: "verify_id_token P (cw_refresh w) (cw_again w) c tok (nonce f) l = (Some (idn, auth), ?l2)"
    using verify_after_rotation[OF assms(1,10,11,12,9,13)] ids by simp
  obtain b where fin: "complete_sign_in H w h f idn auth ?l2 = (b, l')" "a = done_answer H (lo_names l)
      (if valid_state state then Some (names_flow (lo_names l) state) else None) b"
    using assms(17) by (auto simp: callback_handler_def exchange_and_verify_def assms(1,4,5,6,7,8) ask ver Let_def split: prod.splits)
  show ?thesis
    using fin(1)
  proof (cases rule: complete_cases)
    case (signed k ss v')
    have k: "k = i" "v' = v" using signed(1,2) assms(14,16) by simp_all
    have wf: "session_wf ss" unfolding signed(3) by (rule session_wf_insert) (simp add: assms(3))
    obtain x where x: "hm_get (session_map ss) i = Some x" "identity x = idn" "auth_time x = auth" "created x = cw_now w"
      unfolding signed(3) k(1) by (simp add: insert_lookup_new)
    have "hm_get (session_map (lo_sessions l')) i = Some x"
      using x(1) assms(15) by (simp add: signed(4) replace_old_view(1)[OF wf])
    moreover have "lo_provider l' = Some (rediscover (build P) (cw_refresh w) p)" by (simp add: signed(4))
    moreover have "client (rediscover (build P) (cw_refresh w) p) = Some (build P md (client_id p) (redirect_uri p))"
      by (simp add: rediscover_replaces[OF assms(10-12)])
    ultimately show ?thesis
      using signed(5-7) x(2-4) ids k by (simp add: fin(2) gate_simps)
  qed (use assms(14,16) in auto)
qed

text \<open>A provider whose clients are key generations: it signs under generation 1, the service holds generation 0.\<close>

definition rotated_oidc :: "(nat, nat, unit, unit, unit) oidc_lib" where
  "rotated_oidc = \<lparr>build = \<lambda>md _ _. md, new_pkce = \<lambda>_. (''challenge'', ''verifier''), new_csrf = \<lambda>_. ''abcdefghijklmnop'',
     new_nonce = \<lambda>_. ''nonce'', authorize_url = \<lambda>_ _. ''https://idp/auth'', has_token_endpoint = \<lambda>_. True,
     request_token = \<lambda>_ _. Some (), id_token = Some, verify_claims = \<lambda>c _ _. if c = 1 then Some the_claims else None,
     form_serialize = \<lambda>_. []\<rparr>"

definition stale_login :: "nat login" where
  "stale_login = \<lparr>lo_origin = ''https://x'', lo_names = names_new True,
     lo_provider = Some ((provider_new ''iss'' ''cid'' ''cb'' [''openid''])\<lparr>client := Some 0, failure := Some 0\<rparr>),
     lo_flows = \<lparr>cipher_key = ''k''\<rparr>, lo_sessions = session_store_new (from_secs 300) 0\<rparr>"

definition rotated_world :: "nat callback_world" where
  "rotated_world = \<lparr>cw_unix = 50, cw_discovery = a_discovery False 0 None, cw_refresh = a_discovery True 30 (Some 1),
     cw_again = a_discovery False 0 None, cw_order = \<lambda>m. m, cw_now = 9, cw_wall = 50000000000, cw_fresh_id = Some ''new''\<rparr>"

theorem sign_in_survives_key_rotation_witness:
  "\<exists>l'. l' = snd (callback_handler plain_http a_flow_lib rotated_oidc rotated_world a_query (browser the_cookies) stale_login)
     \<and> hm_get (session_map (lo_sessions l')) ''new'' \<noteq> None \<and> (\<exists>p'. lo_provider l' = Some p' \<and> client p' = Some 1)"
proof -
  let ?p = "(provider_new ''iss'' ''cid'' ''cb'' [''openid''])\<lparr>client := Some (0::nat), failure := Some 0\<rparr>"
  let ?v = "names_set (lo_names stale_login) (session_name (lo_names stale_login)) ''new'' (as_secs (ttl (lo_sessions stale_login)))"
  obtain a l' where e: "callback_handler plain_http a_flow_lib rotated_oidc rotated_world a_query (browser the_cookies) stale_login = (a, l')"
    by fastforce
  have l: "lo_provider stale_login = Some ?p" "client ?p = Some 0" "session_wf (lo_sessions stale_login)"
    by (simp_all add: stale_login_def session_wf_def session_store_new_def hm.wf_new)
  have q: "a_query = \<lparr>q_code = Some ''code'', q_state = Some ''abcdefghijklmnop'', q_error = None\<rparr>" by (simp add: a_query_def)
  have f: "opened_flow plain_http a_flow_lib (cw_unix rotated_world) stale_login (browser the_cookies) ''abcdefghijklmnop'' = Some a_flow"
    by (simp add: opened_flow_def a_state_valid the_cookies_read stale_login_def rotated_world_def names_new_def names_flow_def)
      (simp add: the_cookies_def a_flow_opens)
  have o: "has_token_endpoint rotated_oidc 0" "request_token rotated_oidc 0 \<lparr>tr_code = ''code'', tr_verifier = pkce_verifier a_flow\<rparr> = Some ()"
      "id_token rotated_oidc () = Some ()" "verify_claims rotated_oidc 0 () (nonce a_flow) = None"
    by (simp_all add: rotated_oidc_def)
  have t: "\<forall>t. failure ?p = Some t \<longrightarrow> t + from_secs 30 \<le> locked_at (cw_refresh rotated_world)"
      "\<forall>t. refreshed ?p = Some t \<longrightarrow> t + from_secs 30 \<le> locked_at (cw_refresh rotated_world)"
      "answer (cw_refresh rotated_world) = Some 1"
    by (simp_all add: rotated_world_def a_discovery_def provider_new_def)
  have n: "verify_claims rotated_oidc (build rotated_oidc 1 (client_id ?p) (redirect_uri ?p)) () (nonce a_flow) = Some the_claims"
    by (simp add: rotated_oidc_def)
  have i: "cw_fresh_id rotated_world = Some ''new''" "cookie_read plain_http (browser the_cookies) (session_name (lo_names stale_login)) \<noteq> Some ''new''"
      "from_str plain_http ?v = Some ?v"
    by (simp_all add: rotated_world_def the_cookies_read stale_login_def names_new_def) (simp add: the_cookies_def)
  from sign_in_survives_key_rotation[OF l q f o t n i e] have "hm_get (session_map (lo_sessions l')) ''new'' \<noteq> None"
      "\<exists>p'. lo_provider l' = Some p' \<and> client p' = Some (build rotated_oidc 1 (client_id ?p) (redirect_uri ?p))"
    by auto
  with e show ?thesis by (simp add: rotated_oidc_def)
qed

end
