(* ===== verification/JwksGate.thy ===== *)
theory JwksGate
  imports Auth
begin

text \<open>
  The key refresh of \<open>JwksStore::validate_for\<close> (\<open>src/src/auth.rs\<close>) under concurrency: any number of
  requests, each between its own awaits, share the key set and the refresh mutex, which one holds
  across its fetch and until the fresh keys are stored. A request may be dropped at any await, as a server
  does when its client leaves; that releases the mutex. The decisions are those of theory \<open>Auth\<close>:
  \<open>refresh_decision\<close> under the lock, and \<open>refresh_done\<close> when the fetch returns, in the two steps between which the
  code awaits the lock on the keys: \<open>armed\<close>, then the keys.
\<close>

datatype 'jwks phase = Idle | Wants string | Fetching string | Storing string 'jwks | Verifying string | Refused

fun holds :: "'jwks phase \<Rightarrow> bool" where
  "holds (Fetching kid) = True"
| "holds (Storing kid fresh) = True"
| "holds _ = False"

definition armed :: "instant \<Rightarrow> ('jwks, 'key, 'c) jwks_store \<Rightarrow> ('jwks, 'key, 'c) jwks_store" where
  "armed now st = st\<lparr>last_refresh := Some now\<rparr>"

lemma refresh_done_steps:
  "refresh_done None now st = (False, armed now st)"
  "refresh_done (Some fresh) now st = (True, (armed now st)\<lparr>keys := fresh\<rparr>)"
  by (simp_all add: refresh_done_def armed_def)

text \<open>A fetch of the key set: under way, returned, or abandoned with its request.\<close>

datatype fetch = Running instant | Completed instant instant | Abandoned instant instant

fun fetch_start :: "fetch \<Rightarrow> instant" where
  "fetch_start (Running t) = t"
| "fetch_start (Completed t e) = t"
| "fetch_start (Abandoned t e) = t"

fun fetch_end :: "fetch \<Rightarrow> instant option" where
  "fetch_end (Running t) = None"
| "fetch_end (Completed t e) = Some e"
| "fetch_end (Abandoned t e) = Some e"

record ('jwks, 'key, 'c) gate_state =
  gs_store :: "('jwks, 'key, 'c) jwks_store"
  gs_clock :: instant
  gs_holder :: "nat option"
  gs_phase :: "nat \<Rightarrow> 'jwks phase"
  gs_fetches :: "fetch list"

definition gate_init :: "('jwks, 'key, 'c) gate_state \<Rightarrow> bool" where
  "gate_init s \<longleftrightarrow> last_refresh (gs_store s) = None \<and> gs_holder s = None \<and> gs_phase s = (\<lambda>_. Idle) \<and> gs_fetches s = []"

definition end_fetch :: "(instant \<Rightarrow> fetch) \<Rightarrow> fetch list \<Rightarrow> fetch list" where
  "end_fetch f fs = (case fs of Running t # rest \<Rightarrow> f t # rest | _ \<Rightarrow> fs)"

inductive gate_step ::
  "('key, 'enc, 'jwks, 'jwk) jwt_lib \<Rightarrow> ('jwks, 'key, 'c) gate_state \<Rightarrow> ('jwks, 'key, 'c) gate_state \<Rightarrow> bool" for J where
  tick: "gs_clock s \<le> t \<Longrightarrow> gate_step J s (s\<lparr>gs_clock := t\<rparr>)"
| hit: "gs_phase s i = Idle \<Longrightarrow> jwks_find J (keys (gs_store s)) kid \<noteq> None \<Longrightarrow>
    gate_step J s (s\<lparr>gs_phase := (gs_phase s)(i := Verifying kid)\<rparr>)"
| miss: "gs_phase s i = Idle \<Longrightarrow> jwks_find J (keys (gs_store s)) kid = None \<Longrightarrow>
    gate_step J s (s\<lparr>gs_phase := (gs_phase s)(i := Wants kid)\<rparr>)"
| present: "gs_holder s = None \<Longrightarrow> gs_phase s i = Wants kid \<Longrightarrow> refresh_decision J kid (gs_clock s) (gs_store s) = Present \<Longrightarrow>
    gate_step J s (s\<lparr>gs_phase := (gs_phase s)(i := Verifying kid)\<rparr>)"
| cooling: "gs_holder s = None \<Longrightarrow> gs_phase s i = Wants kid \<Longrightarrow> refresh_decision J kid (gs_clock s) (gs_store s) = Cooling \<Longrightarrow>
    gate_step J s (s\<lparr>gs_phase := (gs_phase s)(i := Refused)\<rparr>)"
| start: "gs_holder s = None \<Longrightarrow> gs_phase s i = Wants kid \<Longrightarrow> refresh_decision J kid (gs_clock s) (gs_store s) = Must_fetch \<Longrightarrow>
    gate_step J s (s\<lparr>gs_phase := (gs_phase s)(i := Fetching kid), gs_holder := Some i, gs_fetches := Running (gs_clock s) # gs_fetches s\<rparr>)"
| fails: "gs_holder s = Some i \<Longrightarrow> gs_phase s i = Fetching kid \<Longrightarrow>
    gate_step J s (s\<lparr>gs_store := armed (gs_clock s) (gs_store s), gs_phase := (gs_phase s)(i := Refused), gs_holder := None,
      gs_fetches := end_fetch (\<lambda>t. Completed t (gs_clock s)) (gs_fetches s)\<rparr>)"
| returns: "gs_holder s = Some i \<Longrightarrow> gs_phase s i = Fetching kid \<Longrightarrow>
    gate_step J s (s\<lparr>gs_store := armed (gs_clock s) (gs_store s), gs_phase := (gs_phase s)(i := Storing kid fresh),
      gs_fetches := end_fetch (\<lambda>t. Completed t (gs_clock s)) (gs_fetches s)\<rparr>)"
| stores: "gs_holder s = Some i \<Longrightarrow> gs_phase s i = Storing kid fresh \<Longrightarrow>
    gate_step J s (s\<lparr>gs_store := (gs_store s)\<lparr>keys := fresh\<rparr>, gs_phase := (gs_phase s)(i := Verifying kid), gs_holder := None\<rparr>)"
| drop_fetching: "gs_holder s = Some i \<Longrightarrow> gs_phase s i = Fetching kid \<Longrightarrow>
    gate_step J s (s\<lparr>gs_phase := (gs_phase s)(i := Idle), gs_holder := None,
      gs_fetches := end_fetch (\<lambda>t. Abandoned t (gs_clock s)) (gs_fetches s)\<rparr>)"
| drop_storing: "gs_holder s = Some i \<Longrightarrow> gs_phase s i = Storing kid fresh \<Longrightarrow>
    gate_step J s (s\<lparr>gs_phase := (gs_phase s)(i := Idle), gs_holder := None\<rparr>)"
| leave: "gs_holder s \<noteq> Some i \<Longrightarrow> gate_step J s (s\<lparr>gs_phase := (gs_phase s)(i := Idle)\<rparr>)"

inductive_cases gate_stepE: "gate_step J s s'"

section \<open>The invariant\<close>

text \<open>A later fetch keeps away from an earlier one: after its end, and a cooldown after one that returned.\<close>

definition keeps_away :: "fetch \<Rightarrow> fetch \<Rightarrow> bool" where
  "keeps_away later earlier \<longleftrightarrow>
     (case earlier of Running _ \<Rightarrow> False | Completed _ e \<Rightarrow> e + refresh_cooldown \<le> fetch_start later
      | Abandoned _ e \<Rightarrow> e \<le> fetch_start later)"

definition gate_inv :: "('jwks, 'key, 'c) gate_state \<Rightarrow> bool" where
  "gate_inv s \<longleftrightarrow>
     sorted_wrt keeps_away (gs_fetches s)
   \<and> (\<forall>f \<in> set (gs_fetches s). fetch_start f \<le> gs_clock s \<and> (\<forall>e. fetch_end f = Some e \<longrightarrow> e \<le> gs_clock s))
   \<and> (\<forall>t e. Completed t e \<in> set (gs_fetches s) \<longrightarrow> (\<exists>r. last_refresh (gs_store s) = Some r \<and> e \<le> r))
   \<and> (\<forall>r. last_refresh (gs_store s) = Some r \<longrightarrow> r \<le> gs_clock s)
   \<and> (\<forall>i. gs_holder s = Some i \<longleftrightarrow> holds (gs_phase s i))
   \<and> (\<forall>t. Running t \<in> set (gs_fetches s) \<longrightarrow> (\<exists>i kid. gs_phase s i = Fetching kid))
   \<and> (\<forall>i kid. gs_phase s i = Fetching kid \<longrightarrow> (\<exists>t rest. gs_fetches s = Running t # rest))"

lemma must_fetch_cool:
  "refresh_decision J kid now st = Must_fetch \<Longrightarrow> last_refresh st = Some r \<Longrightarrow> r + refresh_cooldown \<le> now"
  by (auto simp: refresh_decision_def elapsed_def refresh_cooldown_def from_secs_def nanos_per_sec_def split: if_splits)

lemma gate_inv_init: "gate_init s \<Longrightarrow> gate_inv s"
  by (simp add: gate_init_def gate_inv_def)

lemma gate_inv_phase:
  "gate_inv s \<Longrightarrow> \<not> holds p \<Longrightarrow> \<not> holds (gs_phase s i) \<Longrightarrow> gate_inv (s\<lparr>gs_phase := (gs_phase s)(i := p)\<rparr>)"
  unfolding gate_inv_def by (simp add: fun_upd_def) (metis holds.simps(1))

text \<open>Only the holder fetches, and it does or stores.\<close>

lemma gate_inv_owner:
  assumes "gate_inv s"
  shows "gs_phase s j = Fetching kid \<Longrightarrow> gs_holder s = Some j" and "gs_phase s j = Storing kid fresh \<Longrightarrow> gs_holder s = Some j"
    and "gs_holder s = Some j \<longleftrightarrow> holds (gs_phase s j)"
  using assms unfolding gate_inv_def by simp_all

lemma gate_inv_release:
  assumes "gate_inv s" and "gs_holder s = Some i" and "gs_phase s i = Storing kid fresh" and "\<not> holds p" and "last_refresh st = last_refresh (gs_store s)"
  shows "gate_inv (s\<lparr>gs_store := st, gs_phase := (gs_phase s)(i := p), gs_holder := None\<rparr>)"
proof -
  have "\<not> holds (gs_phase s j)" if "j \<noteq> i" for j using gate_inv_owner(3)[OF assms(1), of j] assms(2) that by simp
  moreover have "gs_phase s j \<noteq> Fetching kid'" for j kid'
    using gate_inv_owner(1)[OF assms(1), of j kid'] assms(2,3) by auto
  moreover have "p \<noteq> Fetching kid'" for kid' using assms(4) by auto
  ultimately show ?thesis
    using assms(1,4,5) unfolding gate_inv_def by simp
qed

lemma gate_inv_end:
  assumes "gate_inv s" and "gs_phase s i = Fetching kid" and p: "\<forall>kid. p \<noteq> Fetching kid" and h: "h = (if holds p then Some i else None)"
    and f: "\<And>t. f t = Completed t (gs_clock s) \<and> last_refresh st = Some (gs_clock s)
      \<or> f t = Abandoned t (gs_clock s) \<and> st = gs_store s"
  shows "gate_inv (s\<lparr>gs_store := st, gs_phase := (gs_phase s)(i := p), gs_holder := h, gs_fetches := end_fetch f (gs_fetches s)\<rparr>)"
proof -
  obtain t rest where fs: "gs_fetches s = Running t # rest"
    using assms(1,2) unfolding gate_inv_def by blast
  have inv: "sorted_wrt keeps_away rest" "\<forall>g \<in> set rest. keeps_away (Running t) g" "t \<le> gs_clock s"
      "\<forall>g \<in> set rest. fetch_start g \<le> gs_clock s \<and> (\<forall>e. fetch_end g = Some e \<longrightarrow> e \<le> gs_clock s)"
      "\<forall>u e. Completed u e \<in> set rest \<longrightarrow> (\<exists>r. last_refresh (gs_store s) = Some r \<and> e \<le> r)"
      "\<forall>r. last_refresh (gs_store s) = Some r \<longrightarrow> r \<le> gs_clock s"
    using assms(1) by (auto simp: gate_inv_def fs)
  have no_running: "Running u \<notin> set rest" for u
    using inv(2) by (auto simp: keeps_away_def)
  have away: "\<forall>g \<in> set rest. keeps_away (f t) g"
    using inv(2) f[of t] by (auto simp: keeps_away_def split: fetch.splits)
  have ends: "\<forall>u e. Completed u e \<in> set rest \<longrightarrow> e \<le> gs_clock s"
    using inv(4) by fastforce
  have others: "\<not> holds (gs_phase s j)" if "j \<noteq> i" for j
    using gate_inv_owner(3)[OF assms(1), of j] gate_inv_owner(1)[OF assms(1,2)] that by simp
  have owner: "h = Some j \<longleftrightarrow> holds (((gs_phase s)(i := p)) j)" for j
    using others h by auto
  have none: "((gs_phase s)(i := p)) j \<noteq> Fetching kid'" for j kid'
    using others[of j] p by (cases "j = i") auto
  have not_running: "Running u \<notin> set (f t # rest)" for u
    using f[of t] no_running by auto
  show ?thesis
    using f[of t]
  proof (elim disjE conjE)
    assume c: "f t = Completed t (gs_clock s)" "last_refresh st = Some (gs_clock s)"
    show ?thesis
      using inv(1,3,4) away not_running ends owner none unfolding gate_inv_def by (simp add: end_fetch_def fs c)
  next
    assume c: "f t = Abandoned t (gs_clock s)" "st = gs_store s"
    show ?thesis
      using inv(1,3-6) away not_running owner none unfolding gate_inv_def by (simp add: end_fetch_def fs c)
  qed
qed

lemma gate_inv_start:
  assumes "gate_inv s" and "gs_holder s = None" and "refresh_decision J kid (gs_clock s) (gs_store s) = Must_fetch"
  shows "gate_inv (s\<lparr>gs_phase := (gs_phase s)(i := Fetching kid), gs_holder := Some i, gs_fetches := Running (gs_clock s) # gs_fetches s\<rparr>)"
proof -
  have "keeps_away (Running (gs_clock s)) g" if g: "g \<in> set (gs_fetches s)" for g
  proof (cases g)
    case (Running t)
    then obtain j kid' where "gs_phase s j = Fetching kid'" using assms(1) g unfolding gate_inv_def by blast
    from gate_inv_owner(1)[OF assms(1) this] assms(2) show ?thesis by simp
  next
    case (Completed t e)
    then obtain r where "last_refresh (gs_store s) = Some r" "e \<le> r"
      using assms(1) g unfolding gate_inv_def by blast
    with must_fetch_cool[OF assms(3)] Completed show ?thesis
      by (fastforce simp: keeps_away_def)
  next
    case (Abandoned t e)
    then have "fetch_end g = Some e" by simp
    with assms(1) g have "e \<le> gs_clock s" unfolding gate_inv_def by blast
    with Abandoned show ?thesis by (simp add: keeps_away_def)
  qed
  moreover have "\<not> holds (gs_phase s j)" for j using gate_inv_owner(3)[OF assms(1), of j] assms(2) by simp
  ultimately show ?thesis
    using assms(1) unfolding gate_inv_def by (auto simp: fun_upd_def)
qed

lemma gate_inv_tick: "gate_inv s \<Longrightarrow> gs_clock s \<le> t \<Longrightarrow> gate_inv (s\<lparr>gs_clock := t\<rparr>)"
  unfolding gate_inv_def by (auto intro: le_trans)

lemma gate_inv_step:
  assumes "gate_step J s s'" and "gate_inv s"
  shows "gate_inv s'"
  using assms
proof (induction rule: gate_step.induct)
  case (fails s i kid)
  then show ?case by (intro gate_inv_end[of _ _ kid]) (auto simp: armed_def)
next
  case (returns s i kid fresh)
  then have "gate_inv (s\<lparr>gs_store := armed (gs_clock s) (gs_store s), gs_phase := (gs_phase s)(i := Storing kid fresh),
      gs_holder := Some i, gs_fetches := end_fetch (\<lambda>t. Completed t (gs_clock s)) (gs_fetches s)\<rparr>)"
    by (intro gate_inv_end[of _ _ kid]) (auto simp: armed_def)
  moreover have "s = s\<lparr>gs_holder := Some i\<rparr>" using returns(1) by (cases s) simp
  ultimately show ?case by (metis (no_types, lifting) gate_state.update_convs gate_state.surjective)
next
  case (stores s i kid fresh)
  then show ?case by (intro gate_inv_release[of _ _ kid fresh]) auto
next
  case (drop_fetching s i kid)
  then have "gate_inv (s\<lparr>gs_store := gs_store s, gs_phase := (gs_phase s)(i := Idle), gs_holder := None,
      gs_fetches := end_fetch (\<lambda>t. Abandoned t (gs_clock s)) (gs_fetches s)\<rparr>)"
    by (intro gate_inv_end[of _ _ kid]) auto
  then show ?case by simp
next
  case (drop_storing s i kid fresh)
  then have "gate_inv (s\<lparr>gs_store := gs_store s, gs_phase := (gs_phase s)(i := Idle), gs_holder := None\<rparr>)"
    by (intro gate_inv_release[of _ _ kid fresh]) auto
  then show ?case by simp
next
  case (leave s i)
  then have "\<not> holds (gs_phase s i)" by (simp add: gate_inv_def)
  with leave show ?case by (intro gate_inv_phase) auto
qed (auto intro: gate_inv_phase gate_inv_start gate_inv_tick)

interpretation gate: step_invariant gate_init "gate_step J" gate_inv
  by (rule step_invariant.intro) (rule gate_inv_init, assumption, rule gate_inv_step)

section \<open>Nobody waits for ever\<close>

lemma waiter_proceeds:
  assumes "gs_holder s = None" and "gs_phase s i = Wants kid"
  shows "\<exists>s'. gate_step J s s' \<and> gs_phase s' i \<noteq> Wants kid"
proof (cases "refresh_decision J kid (gs_clock s) (gs_store s)")
  case Present
  show ?thesis by (rule exI, rule conjI, rule present[OF assms Present]) simp
next
  case Cooling
  show ?thesis by (rule exI, rule conjI, rule cooling[OF assms Cooling]) simp
next
  case Must_fetch
  show ?thesis by (rule exI, rule conjI, rule start[OF assms Must_fetch]) simp
qed

text \<open>The holder's next steps: an answer is stored, a failure refused, and the lock released.\<close>

definition releases ::
  "('key, 'enc, 'jwks, 'jwk) jwt_lib \<Rightarrow> ('jwks, 'key, 'c) gate_state \<Rightarrow> ('jwks, 'key, 'c) jwks_store \<Rightarrow> bool" where
  "releases J s st \<longleftrightarrow> (\<exists>s'. (gate_step J)\<^sup>*\<^sup>* s s' \<and> gs_holder s' = None \<and> gs_store s' = st)"

lemma storing_releases:
  assumes "gs_holder s = Some i" and "gs_phase s i = Storing kid fresh"
  shows "releases J s ((gs_store s)\<lparr>keys := fresh\<rparr>)"
  unfolding releases_def by (rule exI, rule conjI, rule r_into_rtranclp, rule stores[OF assms]) simp

lemma fetching_releases:
  assumes "gs_holder s = Some i" and "gs_phase s i = Fetching kid" and "refresh_done fetched (gs_clock s) (gs_store s) = (ok, st)"
  shows "releases J s st"
proof (cases fetched)
  case None
  then have st: "st = armed (gs_clock s) (gs_store s)" using assms(3) by (simp add: refresh_done_steps)
  show ?thesis
    unfolding releases_def st by (intro exI conjI, rule r_into_rtranclp, rule fails[OF assms(1,2)]) simp_all
next
  case (Some fresh)
  let ?s = "s\<lparr>gs_store := armed (gs_clock s) (gs_store s), gs_phase := (gs_phase s)(i := Storing kid fresh),
      gs_fetches := end_fetch (\<lambda>t. Completed t (gs_clock s)) (gs_fetches s)\<rparr>"
  have "gate_step J s ?s" by (rule returns[OF assms(1,2)])
  moreover have "releases J ?s ((gs_store ?s)\<lparr>keys := fresh\<rparr>)" by (rule storing_releases[of _ i kid]) (simp_all add: assms(1))
  moreover have "(gs_store ?s)\<lparr>keys := fresh\<rparr> = st" using assms(3) Some by (simp add: refresh_done_steps)
  ultimately show ?thesis unfolding releases_def by (metis converse_rtranclp_into_rtranclp)
qed

section \<open>Properties\<close>

text \<open>C5
  However requests interleave, key refreshes are single-flight and rate-limited: at most one request is
  fetching or storing what it fetched, no fetch begins before the one before it ended, and none begins within 60
  seconds after one that returned, whether with keys or with an error, so requests naming unknown keys cannot be amplified
  into a stream of fetches. And they never block each other for good: whoever holds the lock is fetching, and
  releases it once its fetch returns, whatever it returned, with the store that leaves, or storing, and releases it with the
  fresh keys; and whoever waits proceeds when nobody holds it.\<close>

theorem key_refreshes_are_single_flight_and_spaced:
  assumes "reach gate_init (gate_step J) s"
  shows "sorted_wrt (\<lambda>later earlier. case earlier of Running _ \<Rightarrow> False
        | Completed _ e \<Rightarrow> e + from_secs 60 \<le> fetch_start later | Abandoned _ e \<Rightarrow> e \<le> fetch_start later) (gs_fetches s)
    \<and> (\<forall>i j. holds (gs_phase s i) \<and> holds (gs_phase s j) \<longrightarrow> i = j)
    \<and> (\<forall>t rest. gs_fetches s = Running t # rest \<longrightarrow> gs_holder s \<noteq> None)
    \<and> (\<forall>i. gs_holder s = Some i \<longrightarrow>
         (\<exists>kid. gs_phase s i = Fetching kid \<and> (\<forall>fetched ok st. refresh_done fetched (gs_clock s) (gs_store s) = (ok, st) \<longrightarrow> releases J s st))
       \<or> (\<exists>kid fresh. gs_phase s i = Storing kid fresh \<and> releases J s ((gs_store s)\<lparr>keys := fresh\<rparr>)))
    \<and> (\<forall>i kid. gs_holder s = None \<longrightarrow> gs_phase s i = Wants kid \<longrightarrow> (\<exists>s'. gate_step J s s' \<and> gs_phase s' i \<noteq> Wants kid))"
proof -
  have inv: "gate_inv s"
    using assms by (rule gate.reach_inv)
  have "keeps_away = (\<lambda>later earlier. case earlier of Running _ \<Rightarrow> False
        | Completed _ e \<Rightarrow> e + from_secs 60 \<le> fetch_start later | Abandoned _ e \<Rightarrow> e \<le> fetch_start later)"
    unfolding keeps_away_def[abs_def] refresh_cooldown_def by (rule refl)
  moreover have "sorted_wrt keeps_away (gs_fetches s)" and running: "\<And>t. Running t \<in> set (gs_fetches s) \<Longrightarrow> \<exists>i kid. gs_phase s i = Fetching kid"
    using inv unfolding gate_inv_def by blast+
  moreover have "i = j" if "holds (gs_phase s i) \<and> holds (gs_phase s j)" for i j
    using gate_inv_owner(3)[OF inv, of i] gate_inv_owner(3)[OF inv, of j] that by simp
  moreover have "gs_holder s \<noteq> None" if "gs_fetches s = Running t # rest" for t rest
    using running[of t] gate_inv_owner(1)[OF inv] that by auto
  moreover have "(\<exists>kid. gs_phase s i = Fetching kid \<and> (\<forall>fetched ok st. refresh_done fetched (gs_clock s) (gs_store s) = (ok, st) \<longrightarrow> releases J s st))
       \<or> (\<exists>kid fresh. gs_phase s i = Storing kid fresh \<and> releases J s ((gs_store s)\<lparr>keys := fresh\<rparr>))" if h: "gs_holder s = Some i" for i
    using gate_inv_owner(3)[OF inv, of i] h fetching_releases[OF h, of _ _ _ _ J] storing_releases[OF h, of _ _ J]
    by (cases "gs_phase s i") auto
  ultimately show ?thesis using waiter_proceeds[of s _ _ J] by simp
qed

definition quiet :: "((string \<times> string) list, string, unit) gate_state" where
  "quiet = \<lparr>gs_store = a_store, gs_clock = 0, gs_holder = None, gs_phase = \<lambda>_. Idle, gs_fetches = []\<rparr>"

text \<open>A request for an unknown key fetches in vain; sixty seconds later another begins to fetch.\<close>

lemma quiet_wants: "reach gate_init (gate_step clear_jwt) (quiet\<lparr>gs_phase := (\<lambda>_. Idle)(1 := Wants ''x'')\<rparr>)"
proof -
  have "reach gate_init (gate_step clear_jwt) quiet"
    by (rule reach_init) (simp add: gate_init_def quiet_def a_store_def)
  then have "reach gate_init (gate_step clear_jwt) (quiet\<lparr>gs_phase := (gs_phase quiet)(1 := Wants ''x'')\<rparr>)"
    by (rule reach_step) (rule miss; simp add: quiet_def a_store_def clear_jwt_def)
  then show ?thesis by (simp add: quiet_def)
qed

definition first_fetch :: "((string \<times> string) list, string, unit) gate_state" where
  "first_fetch = quiet\<lparr>gs_phase := (\<lambda>_. Idle)(1 := Fetching ''x''), gs_holder := Some 1, gs_fetches := [Running 0]\<rparr>"

lemma first_fetch_reach: "reach gate_init (gate_step clear_jwt) first_fetch"
proof -
  let ?s = "quiet\<lparr>gs_phase := (\<lambda>_. Idle)(1 := Wants ''x'')\<rparr>"
  have "reach gate_init (gate_step clear_jwt)
      (?s\<lparr>gs_phase := (gs_phase ?s)(1 := Fetching ''x''), gs_holder := Some 1, gs_fetches := Running (gs_clock ?s) # gs_fetches ?s\<rparr>)"
    by (rule reach_step[OF quiet_wants]) (rule start; simp add: quiet_def a_store_def clear_jwt_def refresh_decision_def)
  then show ?thesis by (simp add: quiet_def first_fetch_def)
qed

text \<open>
  A fetch abandoned with its request leaves the gate open: clients that name unknown keys and leave make
  the store fetch again at once, the cooldown never being armed.
\<close>

lemma abandoned_fetch_arms_nothing:
  "\<exists>s :: ((string \<times> string) list, string, unit) gate_state. reach gate_init (gate_step clear_jwt) s \<and> gs_fetches s = [Running 0, Abandoned 0 0]"
proof -
  define a where "a = quiet\<lparr>gs_fetches := [Abandoned 0 0]\<rparr>"
  have "reach gate_init (gate_step clear_jwt) (first_fetch\<lparr>gs_phase := (gs_phase first_fetch)(1 := Idle), gs_holder := None,
      gs_fetches := end_fetch (\<lambda>t. Abandoned t (gs_clock first_fetch)) (gs_fetches first_fetch)\<rparr>)"
    by (rule reach_step[OF first_fetch_reach]) (rule drop_fetching; simp add: first_fetch_def)
  then have ra: "reach gate_init (gate_step clear_jwt) a"
    by (simp add: a_def first_fetch_def quiet_def end_fetch_def fun_upd_idem)
  define b where "b = a\<lparr>gs_phase := (gs_phase a)(1 := Wants ''x'')\<rparr>"
  have rb: "reach gate_init (gate_step clear_jwt) b"
    unfolding b_def by (rule reach_step[OF ra]) (rule miss; simp add: a_def quiet_def a_store_def clear_jwt_def)
  define c where "c = b\<lparr>gs_phase := (gs_phase b)(1 := Fetching ''x''), gs_holder := Some 1, gs_fetches := Running (gs_clock b) # gs_fetches b\<rparr>"
  have "reach gate_init (gate_step clear_jwt) c"
    unfolding c_def by (rule reach_step[OF rb]) (rule start; simp add: b_def a_def quiet_def a_store_def clear_jwt_def refresh_decision_def)
  moreover have "gs_fetches c = [Running 0, Abandoned 0 0]"
    by (simp add: c_def b_def a_def quiet_def)
  ultimately show ?thesis by blast
qed

text \<open>
  A request dropped between its fetch and the storing of what it fetched leaves the cooldown armed and the keys as they
  were: for the next 60 seconds the keys just fetched are refused as unknown.
\<close>

lemma dropped_store_loses_the_keys:
  "\<exists>s :: ((string \<times> string) list, string, unit) gate_state. reach gate_init (gate_step clear_jwt) s \<and> gs_holder s = None
     \<and> gs_fetches s = [Completed 0 0] \<and> keys (gs_store s) = [] \<and> refresh_decision clear_jwt ''x'' (gs_clock s) (gs_store s) = Cooling"
proof -
  define a where "a = first_fetch\<lparr>gs_store := armed (gs_clock first_fetch) (gs_store first_fetch),
      gs_phase := (gs_phase first_fetch)(1 := Storing ''x'' [(''x'', ''key'')]),
      gs_fetches := end_fetch (\<lambda>t. Completed t (gs_clock first_fetch)) (gs_fetches first_fetch)\<rparr>"
  have ra: "reach gate_init (gate_step clear_jwt) a"
    unfolding a_def by (rule reach_step[OF first_fetch_reach]) (rule returns; simp add: first_fetch_def)
  define b where "b = a\<lparr>gs_phase := (gs_phase a)(1 := Idle), gs_holder := None\<rparr>"
  have "reach gate_init (gate_step clear_jwt) b"
    unfolding b_def by (rule reach_step[OF ra]) (rule drop_storing[of _ _ "''x''" "[(''x'', ''key'')]"]; simp add: a_def first_fetch_def)
  moreover have "refresh_decision clear_jwt ''x'' (gs_clock b) (gs_store b) = Cooling" "gs_fetches b = [Completed 0 0]"
      "keys (gs_store b) = []" "gs_holder b = None"
    by (simp_all add: b_def a_def first_fetch_def quiet_def a_store_def armed_def end_fetch_def refresh_decision_def clear_jwt_def
        elapsed_def refresh_cooldown_def from_secs_def nanos_per_sec_def)
  ultimately show ?thesis by blast
qed

theorem key_refreshes_are_single_flight_and_spaced_witness:
  "reach gate_init (gate_step clear_jwt) first_fetch \<and> gs_fetches first_fetch = [Running 0] \<and> gs_holder first_fetch \<noteq> None"
  using key_refreshes_are_single_flight_and_spaced[OF first_fetch_reach] first_fetch_reach
  by (simp add: first_fetch_def quiet_def)

end
