(* ===== verification/Tunnel.thy ===== *)
theory Tunnel
  imports Device
begin

text \<open>
  \<open>src/src/wg/tunnel.rs\<close>: the WireGuard tunnel of one peer around a \<open>boringtun\<close> session and a UDP socket.
  The session is an argument, a state with its operations; what an operation puts on the wire is part
  of its result, and whether the socket accepts the \<open>n\<close>th datagram of a call is an argument. The
  scratch buffers are left out: each holds only what the operation at hand just wrote.
\<close>

section \<open>Session and tunnel\<close>

datatype tunn_result = Tunn_done | Tunn_err | Write_to_network packet | Write_to_tunnel packet

record ('t, 'key) tunn_lib =
  tunn_new :: "'key \<Rightarrow> 'key \<Rightarrow> u16 option \<Rightarrow> u32 \<Rightarrow> 't"
  encapsulate :: "'t \<Rightarrow> packet \<Rightarrow> tunn_result \<times> 't"
  decapsulate :: "'t \<Rightarrow> packet \<Rightarrow> tunn_result \<times> 't"
  timers :: "'t \<Rightarrow> tunn_result \<times> 't"
  since_handshake :: "'t \<Rightarrow> duration option"

record ('t, 'addr) tunnel =
  tunn :: 't
  endpoint :: 'addr

definition local_index :: u32 where
  "local_index = 0"

definition max_packet :: nat where
  "max_packet = 65535"

text \<open>\<open>bound\<close> is whether an ephemeral UDP port could be bound.\<close>

definition tunnel_new :: "('t, 'key) tunn_lib \<Rightarrow> bool \<Rightarrow> 'key \<Rightarrow> 'key \<Rightarrow> 'addr \<Rightarrow> u16 option \<Rightarrow> ('t, 'addr) tunnel option" where
  "tunnel_new B bound priv pub addr keepalive =
     (if bound then Some \<lparr>tunn = tunn_new B priv pub keepalive local_index, endpoint = addr\<rparr> else None)"

text \<open>What an operation gives: whether it succeeded, the datagrams sent with their destination, the tunnel.\<close>

type_synonym ('t, 'addr) sent = "bool \<times> ('addr \<times> packet) list \<times> ('t, 'addr) tunnel"

definition tunnel_send :: "('t, 'key) tunn_lib \<Rightarrow> bool \<Rightarrow> packet \<Rightarrow> ('t, 'addr) tunnel \<Rightarrow> ('t, 'addr) sent" where
  "tunnel_send B net pkt t =
     (case encapsulate B (tunn t) pkt of
        (Write_to_network d, tn) \<Rightarrow>
          (if net then (True, [(endpoint t, d)], t\<lparr>tunn := tn\<rparr>) else (False, [], t\<lparr>tunn := tn\<rparr>))
      | (_, tn) \<Rightarrow> (True, [], t\<lparr>tunn := tn\<rparr>))"

definition tunnel_update_timers :: "('t, 'key) tunn_lib \<Rightarrow> bool \<Rightarrow> ('t, 'addr) tunnel \<Rightarrow> ('t, 'addr) sent" where
  "tunnel_update_timers B net t =
     (case timers B (tunn t) of
        (Write_to_network d, tn) \<Rightarrow>
          (if net then (True, [(endpoint t, d)], t\<lparr>tunn := tn\<rparr>) else (False, [], t\<lparr>tunn := tn\<rparr>))
      | (_, tn) \<Rightarrow> (True, [], t\<lparr>tunn := tn\<rparr>))"

text \<open>
  Draining after a handshake message: send the datagram at hand, ask the session for the next, until a
  send fails or the session has no more. \<open>None\<close> is a loop that does not end.
\<close>

partial_function (option) drain ::
  "('t, 'key) tunn_lib \<Rightarrow> (nat \<Rightarrow> bool) \<Rightarrow> nat \<Rightarrow> packet \<Rightarrow> 't \<Rightarrow> (packet list \<times> 't) option" where
  "drain B net i d tn =
     (if \<not> net i then Some ([], tn)
      else (case decapsulate B tn [] of
        (Write_to_network d', tn') \<Rightarrow>
          Option.bind (drain B net (Suc i) d' tn') (\<lambda>(ds, tn''). Some (d # ds, tn''))
      | (_, tn') \<Rightarrow> Some ([d], tn')))"

datatype recv_result = Recv_failed | Recv_nothing | Recv_packet packet

definition tunnel_recv ::
  "('t, 'key) tunn_lib \<Rightarrow> packet option \<Rightarrow> (nat \<Rightarrow> bool) \<Rightarrow> ('t, 'addr) tunnel
     \<Rightarrow> (recv_result \<times> ('addr \<times> packet) list \<times> ('t, 'addr) tunnel) option" where
  "tunnel_recv B datagram net t =
     (case datagram of None \<Rightarrow> Some (Recv_failed, [], t) | Some dg \<Rightarrow>
      (case decapsulate B (tunn t) dg of
         (Write_to_tunnel p, tn) \<Rightarrow> Some (Recv_packet p, [], t\<lparr>tunn := tn\<rparr>)
       | (Write_to_network d, tn) \<Rightarrow>
           (case drain B net 0 d tn of None \<Rightarrow> None
            | Some (ds, tn') \<Rightarrow> Some (Recv_nothing, map (Pair (endpoint t)) ds, t\<lparr>tunn := tn'\<rparr>))
       | (_, tn) \<Rightarrow> Some (Recv_nothing, [], t\<lparr>tunn := tn\<rparr>)))"

definition last_handshake_age :: "('t, 'key) tunn_lib \<Rightarrow> ('t, 'addr) tunnel \<Rightarrow> duration option" where
  "last_handshake_age B t = since_handshake B (tunn t)"

section \<open>What a session has queued\<close>

text \<open>The datagrams successive empty calls give, and the session after the first that gives none.\<close>

inductive queued :: "('t, 'key) tunn_lib \<Rightarrow> 't \<Rightarrow> packet list \<Rightarrow> 't \<Rightarrow> bool" for B where
  queued_none: "decapsulate B tn [] = (r, tn') \<Longrightarrow> \<forall>d. r \<noteq> Write_to_network d \<Longrightarrow> queued B tn [] tn'"
| queued_more: "decapsulate B tn [] = (Write_to_network d, tn') \<Longrightarrow> queued B tn' ds tn'' \<Longrightarrow> queued B tn (d # ds) tn''"

inductive_cases queued_NilE: "queued B tn [] tn'"
inductive_cases queued_ConsE: "queued B tn (d # ds) tn'"

text \<open>
  A drain sends the longest prefix the socket takes. If that is not all, the session still queues
  what follows the refused datagram, which is lost.
\<close>

lemma drain_result:
  assumes "queued B tn ds tn'"
  obtains n tn'' where "\<forall>j < n. net (i + j)" "drain B net i d tn = Some (take n (d # ds), tn'')"
    "n = Suc (length ds) \<and> tn'' = tn' \<or> n \<le> length ds \<and> \<not> net (i + n) \<and> queued B tn'' (drop n ds) tn'"
proof -
  have "\<exists>n tn''. (\<forall>j < n. net (i + j)) \<and> drain B net i d tn = Some (take n (d # ds), tn'')
      \<and> (n = Suc (length ds) \<and> tn'' = tn' \<or> n \<le> length ds \<and> \<not> net (i + n) \<and> queued B tn'' (drop n ds) tn')"
    using assms
  proof (induction arbitrary: i d rule: queued.induct)
    case (queued_none tn r tn')
    show ?case
    proof (cases "net i")
      case True
      with queued_none show ?thesis
        by (intro exI[of _ "1::nat"] exI[of _ tn'], subst drain.simps) (auto split: tunn_result.splits)
    next
      case False
      with queued_none show ?thesis
        by (intro exI[of _ "0::nat"] exI[of _ tn], subst drain.simps) (auto intro: queued.queued_none)
    qed
  next
    case (queued_more tn e tn1 ds tn2)
    show ?case
    proof (cases "net i")
      case True
      from queued_more.IH[of "Suc i" e] obtain n tn'' where n: "\<forall>j < n. net (Suc i + j)"
          "drain B net (Suc i) e tn1 = Some (take n (e # ds), tn'')"
          "n = Suc (length ds) \<and> tn'' = tn2 \<or> n \<le> length ds \<and> \<not> net (Suc i + n) \<and> queued B tn'' (drop n ds) tn2"
        by blast
      have "\<forall>j < Suc n. net (i + j)"
        using n(1) True by (auto simp: less_Suc_eq_0_disj)
      with n True queued_more.hyps(1) show ?thesis
        by (intro exI[of _ "Suc n"] exI[of _ tn''], subst drain.simps) auto
    next
      case False
      with queued_more.hyps show ?thesis
        by (intro exI[of _ "0::nat"] exI[of _ tn], subst drain.simps) (auto intro: queued.queued_more)
    qed
  qed
  with that show thesis by blast
qed

section \<open>Properties\<close>

text \<open>C38
  A read of the tunnel that is not interrupted returns, and its result is determined: a data packet comes
  back decrypted, with nothing sent; a handshake message is answered, the response and everything
  the session had queued going to the peer in order, each once, up to the first datagram the socket refuses,
  and what the session queued after that one is still queued; a datagram the session makes nothing of,
  or rejects, gives nothing to forward and sends nothing; a failed read is an error and leaves the tunnel alone.\<close>

theorem recv_delivers_or_flushes:
  assumes "decapsulate B (tunn t) dg = (r, tn)"
    and "\<forall>d. r = Write_to_network d \<longrightarrow> queued B tn ds tn'"
  shows "tunnel_recv B None net t = Some (Recv_failed, [], t)
    \<and> (\<forall>p. r = Write_to_tunnel p \<longrightarrow> tunnel_recv B (Some dg) net t = Some (Recv_packet p, [], t\<lparr>tunn := tn\<rparr>))
    \<and> (r \<in> {Tunn_done, Tunn_err} \<longrightarrow> tunnel_recv B (Some dg) net t = Some (Recv_nothing, [], t\<lparr>tunn := tn\<rparr>))
    \<and> (\<forall>d. r = Write_to_network d \<longrightarrow>
        (\<exists>n tn''. (\<forall>j < n. net j)
          \<and> tunnel_recv B (Some dg) net t = Some (Recv_nothing, map (Pair (endpoint t)) (take n (d # ds)), t\<lparr>tunn := tn''\<rparr>)
          \<and> (n = Suc (length ds) \<and> tn'' = tn' \<or> n \<le> length ds \<and> \<not> net n \<and> queued B tn'' (drop n ds) tn')))"
proof (intro conjI allI impI)
  fix d assume d: "r = Write_to_network d"
  with assms(2) have "queued B tn ds tn'" by blast
  then obtain n tn'' where n: "\<forall>j < n. net (0 + j)" "drain B net 0 d tn = Some (take n (d # ds), tn'')"
      "n = Suc (length ds) \<and> tn'' = tn' \<or> n \<le> length ds \<and> \<not> net (0 + n) \<and> queued B tn'' (drop n ds) tn'"
    by (rule drain_result)
  then have "tunnel_recv B (Some dg) net t = Some (Recv_nothing, map (Pair (endpoint t)) (take n (d # ds)), t\<lparr>tunn := tn''\<rparr>)"
    using assms(1) d by (simp add: tunnel_recv_def)
  with n show "\<exists>n tn''. (\<forall>j < n. net j)
          \<and> tunnel_recv B (Some dg) net t = Some (Recv_nothing, map (Pair (endpoint t)) (take n (d # ds)), t\<lparr>tunn := tn''\<rparr>)
          \<and> (n = Suc (length ds) \<and> tn'' = tn' \<or> n \<le> length ds \<and> \<not> net n \<and> queued B tn'' (drop n ds) tn')"
    by (intro exI[of _ n] exI[of _ tn'']) simp
qed (use assms(1) in \<open>auto simp: tunnel_recv_def\<close>)

text \<open>A session that answers any datagram with a handshake message and has two more queued.\<close>

definition a_tunn :: "(nat, unit) tunn_lib" where
  "a_tunn = \<lparr>tunn_new = \<lambda>_ _ _ _. 0, encapsulate = \<lambda>n p. (Write_to_network p, n),
     decapsulate = \<lambda>n p. if p \<noteq> [] then (Write_to_network [7], 2)
       else if n = 0 then (Tunn_done, 0) else (Write_to_network [of_nat n], n - 1),
     timers = \<lambda>n. (Tunn_done, n), since_handshake = \<lambda>_. None\<rparr>"

theorem recv_delivers_or_flushes_witness:
  "tunnel_recv a_tunn (Some [1]) (\<lambda>_. True) \<lparr>tunn = 0, endpoint = ''peer''\<rparr>
     = Some (Recv_nothing, [(''peer'', [7]), (''peer'', [2]), (''peer'', [1])], \<lparr>tunn = 0, endpoint = ''peer''\<rparr>)"
proof -
  have d: "decapsulate a_tunn (tunn \<lparr>tunn = 0, endpoint = ''peer''\<rparr>) [1] = (Write_to_network [7], 2)"
    by (simp add: a_tunn_def)
  have "queued a_tunn 0 [] 0"
    by (rule queued_none[of a_tunn 0 Tunn_done]) (simp_all add: a_tunn_def)
  then have "queued a_tunn 1 [[1]] 0"
    by (intro queued_more[of a_tunn 1 "[1]" 0]) (simp_all add: a_tunn_def)
  then have "queued a_tunn 2 [[2], [1]] 0"
    by (intro queued_more[of a_tunn 2 "[2]" 1]) (simp_all add: a_tunn_def)
  then have q: "\<forall>d. Write_to_network [7] = Write_to_network d \<longrightarrow> queued a_tunn 2 [[2], [1]] 0"
    by blast
  from recv_delivers_or_flushes[OF d q, of "\<lambda>_. True"] obtain n tn'' where "n = 3 \<and> tn'' = 0"
      "tunnel_recv a_tunn (Some [1]) (\<lambda>_. True) \<lparr>tunn = 0, endpoint = ''peer''\<rparr>
        = Some (Recv_nothing, map (Pair ''peer'') (take n [[7], [2], [1]]), \<lparr>tunn = tn'', endpoint = ''peer''\<rparr>)"
    by (force simp: numeral_3_eq_3)
  then show ?thesis by (simp add: numeral_3_eq_3)
qed

end
