(* ===== verification/Sockets.thy ===== *)
theory Sockets
  imports Device
begin

text \<open>
  The socket side of \<open>src/src/wg/forward.rs\<close>: the set of TCP sockets the stack task shares with the
  streams of the accepted connections, who owns each socket, and how abandoned ones are reaped. The
  TCP stack is an argument; a lookup of a handle that is not in the set is the panic it documents,
  the value \<open>None\<close>. Each operation holds the socket lock, so a concurrent use is a sequence of steps.
\<close>

section \<open>Constants and state\<close>

definition max_sockets :: nat where
  "max_sockets = 128"

definition abandoned_grace :: duration where
  "abandoned_grace = from_secs 30"

definition first_port :: u16 where
  "first_port = 49152"

text \<open>
  A TCP socket of the stack. \<open>tcp_connect\<close> makes one and starts connecting it to the target from a local
  port; \<open>recv_slice\<close> takes at most as many bytes as there is room; wakers are part of the socket.
\<close>

record 's tcp_lib =
  tcp_connect :: "u16 \<Rightarrow> 's option"
  is_closed :: "'s \<Rightarrow> bool"
  is_connecting :: "'s \<Rightarrow> bool"
  can_recv :: "'s \<Rightarrow> bool"
  may_recv :: "'s \<Rightarrow> bool"
  can_send :: "'s \<Rightarrow> bool"
  may_send :: "'s \<Rightarrow> bool"
  recv_slice :: "'s \<Rightarrow> nat \<Rightarrow> packet option \<times> 's"
  send_slice :: "'s \<Rightarrow> packet \<Rightarrow> nat option \<times> 's"
  tcp_close :: "'s \<Rightarrow> 's"
  register_recv_waker :: "'s \<Rightarrow> 's"
  register_send_waker :: "'s \<Rightarrow> 's"

type_synonym handle = nat

text \<open>
  \<open>owners\<close> are the handles handed to a connection and not yet given back: those of the live streams and
  of the one the acceptor is about to turn into a stream.
\<close>

record 's stack =
  sockets :: "handle \<Rightarrow> 's option"
  abandoned :: "(handle, instant) hash_map"
  handles :: "handle list"
  next_port :: u16
  owners :: "handle list"

definition stack_new :: "'s stack" where
  "stack_new = \<lparr>sockets = (\<lambda>_. None), abandoned = hm_new, handles = [], next_port = first_port, owners = []\<rparr>"

section \<open>The stack task\<close>

text \<open>
  The \<open>retain\<close> over the handles: the ones kept, the sockets and the abandoned map after it. The abort of a
  socket that is removed at once leaves no trace, so it is part of the removal.
\<close>

fun reap :: "'s tcp_lib \<Rightarrow> instant \<Rightarrow> handle list \<Rightarrow> (handle \<Rightarrow> 's option) \<Rightarrow> (handle, instant) hash_map
    \<Rightarrow> (handle list \<times> (handle \<Rightarrow> 's option) \<times> (handle, instant) hash_map) option" where
  "reap T now [] S A = Some ([], S, A)"
| "reap T now (h # hs) S A =
     (case hm_get A h of
        None \<Rightarrow> map_option (\<lambda>(ks, r). (h # ks, r)) (reap T now hs S A)
      | Some since \<Rightarrow>
          (case S h of
             None \<Rightarrow> None
           | Some sock \<Rightarrow>
               if \<not> is_closed T sock \<and> elapsed now since < abandoned_grace
               then map_option (\<lambda>(ks, r). (h # ks, r)) (reap T now hs S A)
               else reap T now hs (S(h := None)) (hm_remove h A)))"

text \<open>\<open>polled\<close> is what advancing the TCP stack does to each socket.\<close>

definition stack_pass :: "'s tcp_lib \<Rightarrow> (handle \<Rightarrow> 's \<Rightarrow> 's) \<Rightarrow> instant \<Rightarrow> 's stack \<Rightarrow> 's stack option" where
  "stack_pass T polled now s =
     map_option (\<lambda>(ks, S, A). s\<lparr>handles := ks, sockets := S, abandoned := A\<rparr>)
       (reap T now (handles s) (\<lambda>h. map_option (polled h) (sockets s h)) (abandoned s))"

definition advance_port :: "u16 \<Rightarrow> u16" where
  "advance_port p = (case checked_add p 1 of Some q \<Rightarrow> q | None \<Rightarrow> first_port)"

text \<open>\<open>slot\<close> is the free handle the socket set picks.\<close>

definition open_socket :: "'s tcp_lib \<Rightarrow> handle \<Rightarrow> 's stack \<Rightarrow> handle option \<times> 's stack" where
  "open_socket T slot s =
     (if max_sockets \<le> length (handles s) then (None, s)
      else let s1 = s\<lparr>next_port := advance_port (next_port s)\<rparr>
        in case tcp_connect T (next_port s) of
             None \<Rightarrow> (None, s1)
           | Some sock \<Rightarrow> (Some slot, s1\<lparr>sockets := (sockets s1)(slot := Some sock),
               handles := handles s1 @ [slot], owners := slot # owners s1\<rparr>))"

section \<open>Streams\<close>

datatype 'a poll = Pending | Ready 'a

datatype io_error = Broken_pipe

text \<open>Each gives its result, whether it wakes the stack task, and the socket it leaves.\<close>

definition read_socket :: "'s tcp_lib \<Rightarrow> nat \<Rightarrow> 's \<Rightarrow> packet poll \<times> bool \<times> 's" where
  "read_socket T room sock =
     (if can_recv T sock then
        (case recv_slice T sock room of
           (Some bytes, sock') \<Rightarrow> (Ready bytes, True, sock')
         | (None, sock') \<Rightarrow> (Ready [], True, sock'))
      else if may_recv T sock \<or> is_connecting T sock then (Pending, False, register_recv_waker T sock)
      else (Ready [], False, sock))"

definition write_socket :: "'s tcp_lib \<Rightarrow> packet \<Rightarrow> 's \<Rightarrow> (io_error + nat) poll \<times> bool \<times> 's" where
  "write_socket T bytes sock =
     (if is_connecting T sock then (Pending, False, register_send_waker T sock)
      else if \<not> may_send T sock then (Ready (Inl Broken_pipe), False, sock)
      else if can_send T sock then
        (case send_slice T sock bytes of
           (Some n, sock') \<Rightarrow> (Ready (Inr n), True, sock')
         | (None, sock') \<Rightarrow> (Ready (Inl Broken_pipe), False, sock'))
      else (Pending, False, register_send_waker T sock))"

definition with_socket :: "handle \<Rightarrow> ('s \<Rightarrow> 'r \<times> bool \<times> 's) \<Rightarrow> 's stack \<Rightarrow> ('r \<times> bool \<times> 's stack) option" where
  "with_socket h f s =
     (case sockets s h of None \<Rightarrow> None
      | Some sock \<Rightarrow> (case f sock of (r, wake, sock') \<Rightarrow> Some (r, wake, s\<lparr>sockets := (sockets s)(h := Some sock')\<rparr>)))"

definition poll_read :: "'s tcp_lib \<Rightarrow> nat \<Rightarrow> handle \<Rightarrow> 's stack \<Rightarrow> (packet poll \<times> bool \<times> 's stack) option" where
  "poll_read T room h s = with_socket h (read_socket T room) s"

definition poll_write :: "'s tcp_lib \<Rightarrow> packet \<Rightarrow> handle \<Rightarrow> 's stack \<Rightarrow> ((io_error + nat) poll \<times> bool \<times> 's stack) option" where
  "poll_write T bytes h s = with_socket h (write_socket T bytes) s"

definition poll_shutdown :: "'s tcp_lib \<Rightarrow> handle \<Rightarrow> 's stack \<Rightarrow> (unit poll \<times> bool \<times> 's stack) option" where
  "poll_shutdown T h s = with_socket h (\<lambda>sock. (Ready (), True, tcp_close T sock)) s"

definition poll_flush :: "unit poll" where
  "poll_flush = Ready ()"

definition drop_stream :: "'s tcp_lib \<Rightarrow> instant \<Rightarrow> handle \<Rightarrow> 's stack \<Rightarrow> 's stack option" where
  "drop_stream T now h s =
     map_option (\<lambda>(_, _, s1). s1\<lparr>abandoned := hm_insert h now (abandoned s1), owners := remove1 h (owners s1)\<rparr>)
       (with_socket h (\<lambda>sock. ((), True, tcp_close T sock)) s)"

section \<open>Steps\<close>

datatype 's stack_op =
    Pass "handle \<Rightarrow> 's \<Rightarrow> 's" instant
  | Open handle
  | Read nat handle
  | Write packet handle
  | Shutdown handle
  | Drop instant handle

text \<open>An operation on a stream needs the stream to exist; a new socket gets a free slot.\<close>

fun possible :: "'s stack_op \<Rightarrow> 's stack \<Rightarrow> bool" where
  "possible (Pass polled now) s = True"
| "possible (Open slot) s = (sockets s slot = None)"
| "possible (Read room h) s = (h \<in> set (owners s))"
| "possible (Write bytes h) s = (h \<in> set (owners s))"
| "possible (Shutdown h) s = (h \<in> set (owners s))"
| "possible (Drop now h) s = (h \<in> set (owners s))"

fun stack_apply :: "'s tcp_lib \<Rightarrow> 's stack_op \<Rightarrow> 's stack \<Rightarrow> 's stack option" where
  "stack_apply T (Pass polled now) s = stack_pass T polled now s"
| "stack_apply T (Open slot) s = Some (snd (open_socket T slot s))"
| "stack_apply T (Read room h) s = map_option (\<lambda>(_, _, s1). s1) (poll_read T room h s)"
| "stack_apply T (Write bytes h) s = map_option (\<lambda>(_, _, s1). s1) (poll_write T bytes h s)"
| "stack_apply T (Shutdown h) s = map_option (\<lambda>(_, _, s1). s1) (poll_shutdown T h s)"
| "stack_apply T (Drop now h) s = drop_stream T now h s"

inductive stack_step :: "'s tcp_lib \<Rightarrow> 's stack \<Rightarrow> 's stack \<Rightarrow> bool" for T where
  stack_stepI: "possible op s \<Longrightarrow> stack_apply T op s = Some s' \<Longrightarrow> stack_step T s s'"

inductive_cases stack_stepE: "stack_step T s s'"

section \<open>Ownership\<close>

text \<open>
  Every socket in the set has its handle listed, and each handle has exactly one owner: a live stream,
  or the abandoned map.
\<close>

definition owned :: "'s stack \<Rightarrow> bool" where
  "owned s \<longleftrightarrow> distinct (handles s) \<and> distinct (owners s) \<and> hm_wf (abandoned s) \<and> length (handles s) \<le> max_sockets
     \<and> dom (sockets s) = set (handles s)
     \<and> set (handles s) = set (owners s) \<union> dom (hm_get (abandoned s))
     \<and> set (owners s) \<inter> dom (hm_get (abandoned s)) = {}"

lemma owned_new: "owned stack_new"
  by (simp add: owned_def stack_new_def hm.wf_new dom_def hm.get_new)

text \<open>Which handles a reap keeps.\<close>

definition kept :: "'s tcp_lib \<Rightarrow> instant \<Rightarrow> (handle \<Rightarrow> 's option) \<Rightarrow> (handle, instant) hash_map \<Rightarrow> handle \<Rightarrow> bool" where
  "kept T now S A h \<longleftrightarrow> (case hm_get A h of None \<Rightarrow> True
     | Some since \<Rightarrow> \<not> is_closed T (the (S h)) \<and> elapsed now since < abandoned_grace)"

lemma reap_spec:
  assumes "distinct hs" and "hm_wf A" and "\<forall>h \<in> set hs. S h \<noteq> None"
  shows "\<exists>S' A'. reap T now hs S A = Some (filter (kept T now S A) hs, S', A') \<and> hm_wf A'
    \<and> (\<forall>h. S' h = (if h \<in> set hs \<and> \<not> kept T now S A h then None else S h))
    \<and> (\<forall>h. hm_get A' h = (if h \<in> set hs \<and> \<not> kept T now S A h then None else hm_get A h))"
  using assms
proof (induction hs arbitrary: S A)
  case (Cons h hs)
  have nh: "h \<notin> set hs" "distinct hs" "S h \<noteq> None" "\<forall>h \<in> set hs. S h \<noteq> None"
    using Cons.prems by auto
  show ?case
  proof (cases "kept T now S A h")
    case True
    obtain S' A' where r: "reap T now hs S A = Some (filter (kept T now S A) hs, S', A')" "hm_wf A'"
        "\<forall>h. S' h = (if h \<in> set hs \<and> \<not> kept T now S A h then None else S h)"
        "\<forall>h. hm_get A' h = (if h \<in> set hs \<and> \<not> kept T now S A h then None else hm_get A h)"
      using Cons.IH[OF nh(2) Cons.prems(2) nh(4)] by blast
    with True nh(3) have "reap T now (h # hs) S A = Some (filter (kept T now S A) (h # hs), S', A')"
      by (auto simp: kept_def split: option.splits)
    moreover have "\<forall>k. S' k = (if k \<in> set (h # hs) \<and> \<not> kept T now S A k then None else S k)"
        "\<forall>k. hm_get A' k = (if k \<in> set (h # hs) \<and> \<not> kept T now S A k then None else hm_get A k)"
      using r(3,4) True by auto
    ultimately show ?thesis using r(2) by blast
  next
    case False
    then obtain since sock where g: "hm_get A h = Some since" "S h = Some sock"
        "\<not> (\<not> is_closed T sock \<and> elapsed now since < abandoned_grace)"
      using nh(3) by (auto simp: kept_def split: option.splits)
    let ?S = "S(h := None)" and ?A = "hm_remove h A"
    have wf: "hm_wf ?A" by (rule hm.wf_del[OF Cons.prems(2)])
    have same: "kept T now ?S ?A k = kept T now S A k" if "k \<in> set hs" for k
    proof -
      have "?S k = S k" "hm_get ?A k = hm_get A k"
        using that nh(1) Cons.prems(2) by (auto simp: hm.get_del)
      then show ?thesis unfolding kept_def by (simp only:)
    qed
    have "\<forall>k \<in> set hs. ?S k \<noteq> None" using nh(1,4) by auto
    from Cons.IH[OF nh(2) wf this] obtain S' A' where r: "reap T now hs ?S ?A = Some (filter (kept T now ?S ?A) hs, S', A')" "hm_wf A'"
        "\<forall>k. S' k = (if k \<in> set hs \<and> \<not> kept T now ?S ?A k then None else ?S k)"
        "\<forall>k. hm_get A' k = (if k \<in> set hs \<and> \<not> kept T now ?S ?A k then None else hm_get ?A k)"
      by blast
    have "filter (kept T now ?S ?A) hs = filter (kept T now S A) hs"
      by (rule filter_cong) (simp_all add: same)
    then have "reap T now (h # hs) S A = Some (filter (kept T now S A) (h # hs), S', A')"
      using g r(1) False by auto
    moreover have "\<forall>k. S' k = (if k \<in> set (h # hs) \<and> \<not> kept T now S A k then None else S k)"
      using r(3) same False by auto
    moreover have "\<forall>k. hm_get A' k = (if k \<in> set (h # hs) \<and> \<not> kept T now S A k then None else hm_get A k)"
      using r(4) same False Cons.prems(2) by (auto simp: hm.get_del)
    ultimately show ?thesis using r(2) by blast
  qed
qed simp

lemma pass_spec:
  assumes "owned s"
  obtains S' A' where "stack_pass T polled now s = Some (s\<lparr>handles := filter (kept T now (\<lambda>h. map_option (polled h) (sockets s h)) (abandoned s)) (handles s),
      sockets := S', abandoned := A'\<rparr>)" "hm_wf A'"
    "\<forall>h. S' h = (if h \<in> set (handles s) \<and> \<not> kept T now (\<lambda>h. map_option (polled h) (sockets s h)) (abandoned s) h then None
        else map_option (polled h) (sockets s h))"
    "\<forall>h. hm_get A' h = (if h \<in> set (handles s) \<and> \<not> kept T now (\<lambda>h. map_option (polled h) (sockets s h)) (abandoned s) h then None
        else hm_get (abandoned s) h)"
proof -
  let ?S = "\<lambda>h. map_option (polled h) (sockets s h)"
  have "\<forall>h \<in> set (handles s). ?S h \<noteq> None"
    using assms unfolding owned_def by (metis domIff option.map_disc_iff)
  with assms reap_spec[of "handles s" "abandoned s" ?S T now] obtain S' A' where
      "reap T now (handles s) ?S (abandoned s) = Some (filter (kept T now ?S (abandoned s)) (handles s), S', A')" "hm_wf A'"
      "\<forall>h. S' h = (if h \<in> set (handles s) \<and> \<not> kept T now ?S (abandoned s) h then None else ?S h)"
      "\<forall>h. hm_get A' h = (if h \<in> set (handles s) \<and> \<not> kept T now ?S (abandoned s) h then None else hm_get (abandoned s) h)"
    unfolding owned_def by blast
  then show thesis
    by (intro that[of A' S']) (simp_all add: stack_pass_def)
qed

lemma owned_pass:
  assumes "owned s"
  shows "\<exists>s'. stack_pass T polled now s = Some s' \<and> owned s' \<and> owners s' = owners s
    \<and> (\<forall>h since. hm_get (abandoned s') h = Some since \<longrightarrow> elapsed now since < abandoned_grace \<and> \<not> is_closed T (the (sockets s' h)))"
proof -
  let ?k = "kept T now (\<lambda>h. map_option (polled h) (sockets s h)) (abandoned s)"
  obtain S' A' where p: "stack_pass T polled now s = Some (s\<lparr>handles := filter ?k (handles s), sockets := S', abandoned := A'\<rparr>)"
    "hm_wf A'" "\<forall>h. S' h = (if h \<in> set (handles s) \<and> \<not> ?k h then None else map_option (polled h) (sockets s h))"
    "\<forall>h. hm_get A' h = (if h \<in> set (handles s) \<and> \<not> ?k h then None else hm_get (abandoned s) h)"
    by (rule pass_spec[OF assms])
  have o: "distinct (handles s)" "distinct (owners s)" "length (handles s) \<le> max_sockets" "dom (sockets s) = set (handles s)"
      "set (handles s) = set (owners s) \<union> dom (hm_get (abandoned s))" "set (owners s) \<inter> dom (hm_get (abandoned s)) = {}"
    using assms by (simp_all add: owned_def)
  have live: "?k h" if "h \<in> set (owners s)" for h
  proof -
    have "hm_get (abandoned s) h = None" using o(6) that by auto
    then show ?thesis by (simp add: kept_def)
  qed
  have domS: "dom S' = set (filter ?k (handles s))"
  proof -
    have "S' h \<noteq> None \<longleftrightarrow> h \<in> set (handles s) \<and> ?k h" for h
      using o(4) p(3) by (auto simp: dom_def)
    then show ?thesis by (auto simp: dom_def)
  qed
  have domA: "dom (hm_get A') = {h \<in> dom (hm_get (abandoned s)). ?k h}"
  proof -
    have "hm_get A' h \<noteq> None \<longleftrightarrow> hm_get (abandoned s) h \<noteq> None \<and> ?k h" for h
      using o(5) p(4) by (auto simp: dom_def)
    then show ?thesis by (auto simp: dom_def)
  qed
  have "set (filter ?k (handles s)) = set (owners s) \<union> dom (hm_get A')"
    unfolding domA using o(5) live by auto
  moreover have "set (owners s) \<inter> dom (hm_get A') = {}"
    unfolding domA using o(6) by auto
  moreover have "length (filter ?k (handles s)) \<le> max_sockets"
    using length_filter_le[of ?k "handles s"] o(3) by linarith
  ultimately have "owned (s\<lparr>handles := filter ?k (handles s), sockets := S', abandoned := A'\<rparr>)"
    using o(1,2) p(2) domS by (simp add: owned_def)
  moreover have "elapsed now since < abandoned_grace \<and> \<not> is_closed T (the (S' h))" if "hm_get A' h = Some since" for h since
  proof -
    have k: "?k h" "hm_get (abandoned s) h = Some since"
      using domA that p(4) by (auto simp: dom_def split: if_splits)
    then have "S' h = map_option (polled h) (sockets s h)" using p(3) by simp
    with k show ?thesis by (simp add: kept_def)
  qed
  ultimately show ?thesis
    using p(1) by (intro exI[of _ "s\<lparr>handles := filter ?k (handles s), sockets := S', abandoned := A'\<rparr>"]) simp
qed

lemma owned_open:
  assumes "owned s" and "sockets s slot = None"
  shows "owned (snd (open_socket T slot s))"
proof -
  have slot: "slot \<notin> set (handles s)" "slot \<notin> set (owners s)" "hm_get (abandoned s) slot = None"
    using assms unfolding owned_def by auto
  show ?thesis
  proof (cases "max_sockets \<le> length (handles s)")
    case True
    with assms(1) show ?thesis by (simp add: open_socket_def)
  next
    case False
    with assms(1) slot show ?thesis
      by (auto simp: open_socket_def owned_def Let_def split: option.splits)
  qed
qed

lemma with_socket_owned:
  assumes "owned s" and "h \<in> set (owners s)"
  shows "\<exists>r wake s'. with_socket h f s = Some (r, wake, s') \<and> owned s' \<and> owners s' = owners s \<and> abandoned s' = abandoned s
    \<and> handles s' = handles s"
proof -
  have h: "h \<in> dom (sockets s)"
    using assms unfolding owned_def by blast
  then obtain sock where sock: "sockets s h = Some sock" by blast
  obtain r wake sock' where f: "f sock = (r, wake, sock')" by (cases "f sock") auto
  define s' where "s' = s\<lparr>sockets := (sockets s)(h := Some sock')\<rparr>"
  have s': "dom (sockets s') = dom (sockets s)" "owners s' = owners s" "abandoned s' = abandoned s" "handles s' = handles s"
    using h by (simp_all add: s'_def insert_absorb)
  have "owned s'"
    using assms(1) unfolding owned_def s' .
  moreover have "with_socket h f s = Some (r, wake, s')"
    by (simp add: with_socket_def sock f s'_def)
  ultimately show ?thesis using s' by blast
qed

lemma owned_drop:
  assumes "owned s" and "h \<in> set (owners s)"
  shows "\<exists>s'. drop_stream T now h s = Some s' \<and> owned s'"
proof -
  obtain r wake s1 where w: "with_socket h (\<lambda>sock. ((), True, tcp_close T sock)) s = Some (r, wake, s1)" "owned s1"
      "owners s1 = owners s" "abandoned s1 = abandoned s" "handles s1 = handles s"
    using with_socket_owned[OF assms, of "\<lambda>sock. ((), True, tcp_close T sock)"]
    by (elim exE conjE) (rule that, assumption+)
  have o: "distinct (handles s1)" "distinct (owners s1)" "hm_wf (abandoned s1)" "length (handles s1) \<le> max_sockets"
      "dom (sockets s1) = set (handles s1)" "set (handles s1) = set (owners s1) \<union> dom (hm_get (abandoned s1))"
      "set (owners s1) \<inter> dom (hm_get (abandoned s1)) = {}"
    using w(2) by (simp_all add: owned_def)
  have dom: "dom (hm_get (hm_insert h now (abandoned s1))) = insert h (dom (hm_get (abandoned s1)))"
    by (auto simp: dom_def hm.get_put)
  have own: "set (remove1 h (owners s1)) = set (owners s1) - {h}" "h \<in> set (owners s1)"
    using o(2) assms(2) w(3) by (simp_all add: set_remove1_eq)
  have "set (handles s1) = set (remove1 h (owners s1)) \<union> insert h (dom (hm_get (abandoned s1)))"
    unfolding own(1) o(6) using own(2) by blast
  moreover have "set (remove1 h (owners s1)) \<inter> insert h (dom (hm_get (abandoned s1))) = {}"
    unfolding own(1) using o(7) by blast
  ultimately have "owned (s1\<lparr>abandoned := hm_insert h now (abandoned s1), owners := remove1 h (owners s1)\<rparr>)"
    using o(1-5) by (simp add: owned_def dom hm.wf_put distinct_remove1)
  with w(1) show ?thesis by (simp add: drop_stream_def)
qed

lemma owned_possible:
  assumes "owned s" and "possible op s"
  shows "\<exists>s'. stack_apply T op s = Some s' \<and> owned s'"
proof (cases op)
  case (Pass polled now)
  with owned_pass[OF assms(1)] show ?thesis by (metis stack_apply.simps(1))
next
  case (Open slot)
  with assms owned_open[of s slot T] show ?thesis by simp
next
  case (Read room h)
  with assms(2) with_socket_owned[OF assms(1), of h "read_socket T room"] show ?thesis by (auto simp: poll_read_def)
next
  case (Write bytes h)
  with assms(2) with_socket_owned[OF assms(1), of h "write_socket T bytes"] show ?thesis by (auto simp: poll_write_def)
next
  case (Shutdown h)
  with assms(2) with_socket_owned[OF assms(1), of h "\<lambda>sock. (Ready (), True, tcp_close T sock)"] show ?thesis
    by (auto simp: poll_shutdown_def)
next
  case (Drop now h)
  with assms owned_drop[of s h T now] show ?thesis by simp
qed

lemma owned_step: "stack_step T s s' \<Longrightarrow> owned s \<Longrightarrow> owned s'"
proof (erule stack_stepE)
  fix op assume "owned s" "possible op s" "stack_apply T op s = Some s'"
  with owned_possible[of s op T] show "owned s'" by auto
qed

interpretation stack: step_invariant "\<lambda>s. s = stack_new" "stack_step T" owned
  by (rule step_invariant.intro) (simp add: owned_new, rule owned_step)

section \<open>Local ports\<close>

lemma unat_first_port: "unat first_port = 49152"
  by (simp add: first_port_def)

lemma advance_port_unat: "unat (advance_port p) = (if unat p = 65535 then 49152 else Suc (unat p))"
proof -
  have "unat p < 65536" using unsigned_less[of p] by simp
  then show ?thesis
    by (auto simp: advance_port_def checked_add_def unat_first_port unat_word_ariths)
qed

lemma nth_port: "unat ((advance_port ^^ n) first_port) = 49152 + n mod 16384"
proof (induction n)
  case (Suc n)
  have "Suc n mod 16384 = (if n mod 16384 = 16383 then 0 else Suc (n mod 16384))"
    by (simp add: mod_Suc)
  with Suc show ?case by (simp add: advance_port_unat)
qed (simp add: unat_first_port)

section \<open>Properties\<close>

text \<open>
  The forwarder never looks up a socket that is gone: in every state it can reach, through any
  interleaving of its own passes, opened connections, reads, writes, shutdowns and dropped streams, every
  operation a live stream or the stack task can do next succeeds instead of panicking; every live stream's
  socket is in the set; at most 128 sockets are; and after a pass every abandoned one left is still
  closing and was given up less than 30 seconds before.\<close>

theorem sockets_never_vanish_and_are_reaped:
  assumes "reach (\<lambda>s. s = stack_new) (stack_step T) s"
  shows "(\<forall>op. possible op s \<longrightarrow> stack_apply T op s \<noteq> None)
    \<and> (\<forall>h \<in> set (owners s). sockets s h \<noteq> None)
    \<and> card (dom (sockets s)) \<le> 128
    \<and> (\<forall>polled now s' h since. stack_pass T polled now s = Some s' \<longrightarrow> hm_get (abandoned s') h = Some since \<longrightarrow>
         now - since < from_secs 30 \<and> \<not> is_closed T (the (sockets s' h)))"
proof -
  have o: "owned s"
    using assms by (rule stack.reach_inv)
  have "card (dom (sockets s)) \<le> 128"
    using o distinct_card[of "handles s"] by (simp add: owned_def max_sockets_def)
  moreover have "now - since < from_secs 30 \<and> \<not> is_closed T (the (sockets s' h))"
    if "stack_pass T polled now s = Some s'" "hm_get (abandoned s') h = Some since" for polled now s' h since
    using owned_pass[OF o, of T polled now] that by (auto simp: elapsed_def abandoned_grace_def)
  moreover have "\<forall>h \<in> set (owners s). sockets s h \<noteq> None"
  proof
    fix h assume "h \<in> set (owners s)"
    then have "h \<in> dom (sockets s)" using o unfolding owned_def by blast
    then show "sockets s h \<noteq> None" by blast
  qed
  moreover have "stack_apply T op s \<noteq> None" if "possible op s" for op
    using owned_possible[OF o that, of T] by auto
  ultimately show ?thesis by blast
qed

text \<open>
  Local ports stay in the ephemeral range, wrap around at its end, and one used comes up again only after
  16384 further attempts.
\<close>

lemma local_ports_do_not_repeat:
  assumes "i < j" and "j < i + 16384"
  shows "(advance_port ^^ i) first_port \<noteq> (advance_port ^^ j) first_port"
proof
  assume "(advance_port ^^ i) first_port = (advance_port ^^ j) first_port"
  then have "unat ((advance_port ^^ i) first_port) = unat ((advance_port ^^ j) first_port)" by simp
  then have "i mod 16384 = j mod 16384" by (simp add: nth_port)
  then have "16384 dvd j - i"
    using assms(1) mod_eq_dvd_iff_nat[of i j 16384] by simp
  then have "16384 \<le> j - i"
    by (rule dvd_imp_le) (use assms(1) in simp)
  then show False using assms by linarith
qed

definition a_tcp :: "bool tcp_lib" where
  "a_tcp = \<lparr>tcp_connect = \<lambda>_. Some True, is_closed = Not, is_connecting = \<lambda>_. False, can_recv = \<lambda>_. False, may_recv = \<lambda>b. b,
     can_send = \<lambda>b. b, may_send = \<lambda>b. b, recv_slice = \<lambda>b _. (None, b), send_slice = \<lambda>b p. (Some (length p), b),
     tcp_close = \<lambda>_. False, register_recv_waker = \<lambda>b. b, register_send_waker = \<lambda>b. b\<rparr>"

definition one_open :: "bool stack" where
  "one_open = snd (open_socket a_tcp 0 stack_new)"

lemma one_open_reach: "reach (\<lambda>s. s = stack_new) (stack_step a_tcp) one_open"
  by (rule reach_step[OF reach_init]) (auto simp: one_open_def stack_new_def intro!: stack_stepI[of "Open 0"])

theorem sockets_never_vanish_and_are_reaped_witness:
  "owners one_open = [0] \<and> stack_apply a_tcp (Write [1] 0) one_open \<noteq> None \<and> stack_apply a_tcp (Drop 5 0) one_open \<noteq> None"
proof -
  have o: "owners one_open = [0]"
    by (simp add: one_open_def open_socket_def stack_new_def a_tcp_def max_sockets_def)
  then have "possible (Write [1] 0) one_open" "possible (Drop 5 0) one_open" by simp_all
  with sockets_never_vanish_and_are_reaped[OF one_open_reach] o show ?thesis by blast
qed

section \<open>Reaping as a filter\<close>

text \<open>What one pass should keep: the handles of live streams, and abandoned sockets still closing that were given up recently.\<close>

definition wanted :: "'s tcp_lib \<Rightarrow> (handle \<Rightarrow> 's \<Rightarrow> 's) \<Rightarrow> instant \<Rightarrow> 's stack \<Rightarrow> handle \<Rightarrow> bool" where
  "wanted T polled now s h \<longleftrightarrow> (case hm_get (abandoned s) h of None \<Rightarrow> True
     | Some since \<Rightarrow> \<not> is_closed T (the (map_option (polled h) (sockets s h))) \<and> now - since < from_secs 30)"

lemma kept_wanted: "kept T now (\<lambda>h. map_option (polled h) (sockets s h)) (abandoned s) = wanted T polled now s"
  by (intro ext) (simp add: kept_def wanted_def elapsed_def abandoned_grace_def split: option.splits)

text \<open>C37
  The reaping loop, which removes entries from the socket set and the abandoned map while it walks the
  handles, computes the one-line specification \<open>wanted\<close>: a handle stays if a live stream owns it, or if its stream was
  dropped less than 30 seconds ago and its connection, as the TCP stack just advanced it, is not closed yet. In every
  reachable state a pass returns and leaves exactly those handles, in order, every other socket gone and those as
  the TCP stack advanced them, and the abandoned map without the reaped handles; live streams keep their sockets.\<close>

theorem reaping_is_a_filter:
  assumes "reach (\<lambda>s. s = stack_new) (stack_step T) s"
  shows "\<exists>s'. stack_pass T polled now s = Some s'
    \<and> handles s' = filter (wanted T polled now s) (handles s)
    \<and> sockets s' = (\<lambda>h. if wanted T polled now s h then map_option (polled h) (sockets s h) else None)
    \<and> hm_get (abandoned s') = (\<lambda>h. if wanted T polled now s h then hm_get (abandoned s) h else None)
    \<and> owners s' = owners s \<and> (\<forall>h \<in> set (owners s). wanted T polled now s h)"
proof -
  have o: "owned s" using assms by (rule stack.reach_inv)
  then have listed: "h \<in> set (handles s)" if "hm_get (abandoned s) h \<noteq> None" for h
    using that unfolding owned_def by blast
  obtain S' A' where p: "stack_pass T polled now s = Some (s\<lparr>handles := filter (wanted T polled now s) (handles s), sockets := S', abandoned := A'\<rparr>)"
    "hm_wf A'" "\<forall>h. S' h = (if h \<in> set (handles s) \<and> \<not> wanted T polled now s h then None else map_option (polled h) (sockets s h))"
    "\<forall>h. hm_get A' h = (if h \<in> set (handles s) \<and> \<not> wanted T polled now s h then None else hm_get (abandoned s) h)"
    by (rule pass_spec[OF o, of T polled now, unfolded kept_wanted])
  have unlisted: "wanted T polled now s h" if "h \<notin> set (handles s)" for h
    using listed[of h] that by (cases "hm_get (abandoned s) h") (auto simp: wanted_def)
  have "S' = (\<lambda>h. if wanted T polled now s h then map_option (polled h) (sockets s h) else None)"
    "hm_get A' = (\<lambda>h. if wanted T polled now s h then hm_get (abandoned s) h else None)"
    using p(3,4) unlisted by (intro ext; metis)+
  moreover have "wanted T polled now s h" if "h \<in> set (owners s)" for h
  proof -
    have "hm_get (abandoned s) h = None" using o that unfolding owned_def by blast
    then show ?thesis by (simp add: wanted_def)
  qed
  ultimately show ?thesis using p(1) by simp
qed

text \<open>A stream dropped at 5 whose socket has closed by the next pass: the pass removes it.\<close>

definition one_dropped :: "bool stack" where
  "one_dropped = one_open\<lparr>sockets := (sockets one_open)(0 := Some False), abandoned := hm_insert 0 5 hm_new, owners := []\<rparr>"

lemma one_open_simps: "handles one_open = [0]" "sockets one_open 0 = Some True" "abandoned one_open = hm_new" "owners one_open = [0]"
  by (simp_all add: one_open_def open_socket_def stack_new_def a_tcp_def max_sockets_def)

lemma one_dropped_reach: "reach (\<lambda>s. s = stack_new) (stack_step a_tcp) one_dropped"
proof (rule reach_step[OF one_open_reach], rule stack_stepI[of "Drop 5 0"])
  show "possible (Drop 5 0) one_open" by (simp add: one_open_simps)
  show "stack_apply a_tcp (Drop 5 0) one_open = Some one_dropped"
    by (simp add: drop_stream_def with_socket_def one_open_simps one_dropped_def a_tcp_def)
qed

theorem reaping_is_a_filter_witness:
  "\<exists>s'. stack_pass a_tcp (\<lambda>_ b. b) 9 one_dropped = Some s' \<and> handles s' = [] \<and> sockets s' 0 = None"
proof -
  have w: "\<not> wanted a_tcp (\<lambda>_ b. b) 9 one_dropped 0"
    by (simp add: wanted_def one_dropped_def hm.get_put a_tcp_def)
  have h: "handles one_dropped = [0]" by (simp add: one_dropped_def one_open_simps)
  from reaping_is_a_filter[OF one_dropped_reach, of "\<lambda>_ b. b" 9] obtain s' where
    "stack_pass a_tcp (\<lambda>_ b. b) 9 one_dropped = Some s'" "handles s' = filter (wanted a_tcp (\<lambda>_ b. b) 9 one_dropped) (handles one_dropped)"
    "sockets s' = (\<lambda>h. if wanted a_tcp (\<lambda>_ b. b) 9 one_dropped h then map_option (\<lambda>b. b) (sockets one_dropped h) else None)" by blast
  with h w show ?thesis by simp
qed

section \<open>The acceptor\<close>

text \<open>One round of the accept loop, and what a whole connection attempt makes of the stack's answer.\<close>

datatype accept_round = Accept_again | Accept_stops | Serve handle

definition accept_one :: "bool \<Rightarrow> bool \<Rightarrow> handle option \<Rightarrow> accept_round" where
  "accept_one accepted stack_task answer =
     (if \<not> accepted then Accept_again
      else if \<not> stack_task then Accept_stops
      else (case answer of None \<Rightarrow> Accept_again | Some h \<Rightarrow> Serve h))"

definition connection :: "'s tcp_lib \<Rightarrow> handle \<Rightarrow> 's stack \<Rightarrow> accept_round \<times> 's stack" where
  "connection T slot s = (case open_socket T slot s of (answer, s') \<Rightarrow> (accept_one True True answer, s'))"

text \<open>A connection is served exactly with a socket of its own; a refused one leaves no socket behind.\<close>

lemma connection_is_served_or_dropped:
  "connection T slot s = (r, s') \<Longrightarrow>
     r = Serve slot \<and> owners s' = slot # owners s \<and> handles s' = handles s @ [slot] \<and> sockets s' slot \<noteq> None
   \<or> r = Accept_again \<and> owners s' = owners s \<and> handles s' = handles s \<and> sockets s' = sockets s"
  by (auto simp: connection_def accept_one_def open_socket_def Let_def split: if_splits option.splits)

end
