(* ===== verification/Health.thy ===== *)
theory Health
  imports Prelude
begin

text \<open>
  \<open>WgHealth\<close> of \<open>src/src/wg/forward.rs\<close>: the two atomics through which the stack task tells \<open>/health\<close> how
  old the last handshake is and that it is still running. Both are 64-bit words, with \<open>u64::MAX\<close> as the
  code's mark of no handshake. The loads and stores take the clock reading as an argument.
\<close>

section \<open>State and operations\<close>

definition handshake_stale_secs :: u64 where
  "handshake_stale_secs = 180"

definition health_fresh_ms :: u64 where
  "health_fresh_ms = 5000"

definition no_handshake :: u64 where
  "no_handshake = - 1"

record wg_health =
  hs_secs :: u64
  updated_at_ms :: u64
  hs_origin :: instant

definition health_new :: "instant \<Rightarrow> wg_health" where
  "health_new now = \<lparr>hs_secs = no_handshake, updated_at_ms = 0, hs_origin = now\<rparr>"

definition elapsed_ms :: "instant \<Rightarrow> wg_health \<Rightarrow> u64" where
  "elapsed_ms now h = word_of_nat (elapsed now (hs_origin h) div 1000000)"

definition secs_of_age :: "duration option \<Rightarrow> u64" where
  "secs_of_age age = (case age of Some d \<Rightarrow> as_secs d | None \<Rightarrow> no_handshake)"

definition health_set :: "instant \<Rightarrow> duration option \<Rightarrow> wg_health \<Rightarrow> wg_health" where
  "health_set now age h = (let h1 = h\<lparr>hs_secs := secs_of_age age\<rparr> in h1\<lparr>updated_at_ms := elapsed_ms now h1\<rparr>)"

definition stack_alive :: "instant \<Rightarrow> wg_health \<Rightarrow> bool" where
  "stack_alive now h \<longleftrightarrow> saturating_sub (elapsed_ms now h) (updated_at_ms h) < health_fresh_ms"

definition last_handshake_secs :: "instant \<Rightarrow> wg_health \<Rightarrow> u64 option" where
  "last_handshake_secs now h =
     (if \<not> stack_alive now h then None else if hs_secs h = no_handshake then None else Some (hs_secs h))"

definition handshake_ok :: "instant \<Rightarrow> wg_health \<Rightarrow> bool" where
  "handshake_ok now h \<longleftrightarrow> (case last_handshake_secs now h of Some s \<Rightarrow> s < handshake_stale_secs | None \<Rightarrow> False)"

section \<open>Publishing\<close>

text \<open>The handle after the stack task published the given ages, and what it published last.\<close>

fun publish :: "(instant \<times> duration option) list \<Rightarrow> wg_health \<Rightarrow> wg_health" where
  "publish [] h = h"
| "publish ((t, age) # ps) h = publish ps (health_set t age h)"

definition last_published :: "instant \<Rightarrow> (instant \<times> duration option) list \<Rightarrow> instant \<times> duration option" where
  "last_published start ps = (if ps = [] then (start, None) else last ps)"

lemma publish_append: "publish (ps @ qs) h = publish qs (publish ps h)"
  by (induction ps h rule: publish.induct) auto

lemma publish_origin: "hs_origin (publish ps h) = hs_origin h"
  by (induction ps h rule: publish.induct) (auto simp: health_set_def Let_def)

lemma publish_last:
  assumes "last_published start ps = (t, age)"
  shows "publish ps (health_new start) = \<lparr>hs_secs = secs_of_age age,
    updated_at_ms = word_of_nat (elapsed t start div 1000000), hs_origin = start\<rparr>"
proof (cases ps rule: rev_cases)
  case Nil
  with assms show ?thesis
    by (simp add: last_published_def health_new_def secs_of_age_def elapsed_def)
next
  case (snoc qs p)
  with assms have "p = (t, age)" by (simp add: last_published_def)
  with snoc publish_origin[of qs "health_new start"] show ?thesis
    by (simp add: publish_append health_set_def Let_def elapsed_ms_def health_new_def)
qed

section \<open>Words of milliseconds and seconds\<close>

lemma unat_ms: "n div 1000000 < 2 ^ 64 \<Longrightarrow> unat (word_of_nat (n div 1000000) :: u64) = n div 1000000"
  by (simp add: unat_of_nat)

lemma ms_apart:
  fixes a b :: nat
  shows "a \<le> b + 4999 * 1000000 \<Longrightarrow> a div 1000000 - b div 1000000 < 5000"
    and "b + 5000 * 1000000 \<le> a \<Longrightarrow> 5000 \<le> a div 1000000 - b div 1000000"
proof -
  have "a div 1000000 \<le> (b + 4999 * 1000000) div 1000000" if "a \<le> b + 4999 * 1000000"
    using that by (rule div_le_mono)
  then show "a div 1000000 - b div 1000000 < 5000" if "a \<le> b + 4999 * 1000000"
    using that by (simp only: div_mult_self3)
  have "(b + 5000 * 1000000) div 1000000 \<le> a div 1000000" if "b + 5000 * 1000000 \<le> a"
    using that by (rule div_le_mono)
  then show "5000 \<le> a div 1000000 - b div 1000000" if "b + 5000 * 1000000 \<le> a"
    using that by simp
qed

lemma unat_no_handshake: "unat no_handshake = 2 ^ 64 - 1"
  by (simp add: no_handshake_def unsigned_minus_1_eq_mask mask_eq_exp_minus_1)

lemma unat_as_secs: "d div nanos_per_sec < 2 ^ 64 \<Longrightarrow> unat (as_secs d) = d div nanos_per_sec"
  by (simp add: as_secs_def unat_of_nat)

lemma as_secs_handshake:
  assumes "d div nanos_per_sec < 2 ^ 64 - 1"
  shows "as_secs d \<noteq> no_handshake" and "as_secs d < handshake_stale_secs \<longleftrightarrow> d < from_secs 180"
proof -
  have u: "unat (as_secs d) = d div nanos_per_sec"
    using assms by (intro unat_as_secs) simp
  then show "as_secs d \<noteq> no_handshake"
    using assms unat_no_handshake by (metis less_irrefl)
  have "as_secs d < handshake_stale_secs \<longleftrightarrow> d div nanos_per_sec < 180"
    by (simp add: word_less_nat_alt u handshake_stale_secs_def)
  also have "\<dots> \<longleftrightarrow> d < from_secs 180"
    by (simp add: div_less_iff_less_mult nanos_per_sec_def from_secs_def)
  finally show "as_secs d < handshake_stale_secs \<longleftrightarrow> d < from_secs 180" .
qed

section \<open>Properties\<close>

text \<open>C39
  Health never reports a fossil: whatever the stack task published, a handle tells that task alive while
  its last publication is at most 4.999 seconds old and not once it is 5 seconds old; while it is alive
  the age read is the one last published, in whole seconds, and the session counts as live exactly when
  that age is under 180 seconds; once it is not, there is no age and no live session.\<close>

theorem health_reads_what_was_last_published:
  assumes "last_published start ps = (t, age)" and "start \<le> t" and "t \<le> now"
    and "(now - start) div 1000000 < 2 ^ 64"
    and "\<forall>d. age = Some d \<longrightarrow> d div nanos_per_sec < 2 ^ 64 - 1"
  shows "(now \<le> t + from_millis 4999 \<longrightarrow> stack_alive now (publish ps (health_new start)))
    \<and> (t + from_secs 5 \<le> now \<longrightarrow> \<not> stack_alive now (publish ps (health_new start)))
    \<and> last_handshake_secs now (publish ps (health_new start))
        = (if stack_alive now (publish ps (health_new start)) then map_option as_secs age else None)
    \<and> (handshake_ok now (publish ps (health_new start))
        \<longleftrightarrow> stack_alive now (publish ps (health_new start)) \<and> (\<exists>d. age = Some d \<and> d < from_secs 180))"
proof -
  let ?h = "publish ps (health_new start)"
  have h: "?h = \<lparr>hs_secs = secs_of_age age, updated_at_ms = word_of_nat ((t - start) div 1000000), hs_origin = start\<rparr>"
    using publish_last[OF assms(1)] by (simp add: elapsed_def)
  have le: "(t - start) div 1000000 \<le> (now - start) div 1000000"
    using assms(3) by (intro div_le_mono diff_le_mono)
  have alive: "stack_alive now ?h \<longleftrightarrow> (now - start) div 1000000 - (t - start) div 1000000 < 5000"
    unfolding h stack_alive_def word_less_nat_alt unat_saturating_sub
    using assms(4) le by (simp add: elapsed_ms_def elapsed_def unat_ms health_fresh_ms_def)
  have "stack_alive now ?h" if "now \<le> t + from_millis 4999"
    unfolding alive using that assms(2,3) by (intro ms_apart(1)) (simp add: from_millis_def)
  moreover have "\<not> stack_alive now ?h" if "t + from_secs 5 \<le> now"
  proof -
    have "5000 \<le> (now - start) div 1000000 - (t - start) div 1000000"
      using that assms(2,3) by (intro ms_apart(2)) (simp add: from_secs_def nanos_per_sec_def)
    then show ?thesis unfolding alive by simp
  qed
  moreover have secs: "last_handshake_secs now ?h = (if stack_alive now ?h then map_option as_secs age else None)"
  proof (cases age)
    case None
    then show ?thesis by (simp add: last_handshake_secs_def h secs_of_age_def)
  next
    case (Some d)
    with assms(5) have "as_secs d \<noteq> no_handshake" by (intro as_secs_handshake(1)) simp
    with Some show ?thesis by (simp add: last_handshake_secs_def h secs_of_age_def)
  qed
  moreover have "handshake_ok now ?h \<longleftrightarrow> stack_alive now ?h \<and> (\<exists>d. age = Some d \<and> d < from_secs 180)"
    using assms(5) as_secs_handshake(2) by (cases age) (auto simp: handshake_ok_def secs)
  ultimately show ?thesis by blast
qed

theorem health_reads_what_was_last_published_witness:
  "handshake_ok 4000000000 (publish [(1000000000, None), (2000000000, Some 7000000000)] (health_new 0))
   \<and> last_handshake_secs 4000000000 (publish [(1000000000, None), (2000000000, Some 7000000000)] (health_new 0)) = Some (as_secs 7000000000)
   \<and> \<not> handshake_ok 8000000000 (publish [(1000000000, None), (2000000000, Some 7000000000)] (health_new 0))"
proof -
  have l: "last_published 0 [(1000000000, None), (2000000000, Some 7000000000)] = (2000000000, Some 7000000000)"
    by (simp add: last_published_def)
  from health_reads_what_was_last_published[OF l, of 4000000000]
    health_reads_what_was_last_published[OF l, of 8000000000]
  show ?thesis by (simp add: from_millis_def from_secs_def nanos_per_sec_def)
qed

end
