(* ===== verification/WgConfig.thy ===== *)
theory WgConfig
  imports Text
begin

text \<open>
  \<open>WgConfig\<close>, \<open>config_from_env\<close> and \<open>decode_key\<close> of \<open>src/src/wg/forward.rs\<close>, with the parts of the
  standard library that parse IPv4 and socket addresses. base64, the key types, IPv6 parsing and the
  name resolver are arguments; an error is which step of the function failed.
\<close>

section \<open>Addresses\<close>

type_synonym ipv4 = u32

datatype sock_addr = Sock_v4 ipv4 u16 | Sock_v6 "128 word" u16

text \<open>\<open>Ipv4Addr::from_str\<close>: four octets without leading zeros.\<close>

definition parse_octet :: "string \<Rightarrow> nat option" where
  "parse_octet s =
     (if s \<noteq> [] \<and> length s \<le> 3 \<and> list_all is_digit s \<and> (hd s = CHR ''0'' \<longrightarrow> length s = 1) \<and> digits_value s < 256
      then Some (digits_value s) else None)"

definition parse_ipv4 :: "string \<Rightarrow> ipv4 option" where
  "parse_ipv4 s =
     (case map parse_octet (split_on CHR ''.'' s) of
        [Some a, Some b, Some c, Some d] \<Rightarrow> Some (word_of_nat (((a * 256 + b) * 256 + c) * 256 + d))
      | _ \<Rightarrow> None)"

text \<open>\<open>SocketAddr::from_str\<close>: IPv4 first, then IPv6; a port may have leading zeros but no sign.\<close>

definition parse_port :: "string \<Rightarrow> u16 option" where
  "parse_port s = (if s \<noteq> [] \<and> list_all is_digit s \<and> digits_value s < 2 ^ 16 then Some (word_of_nat (digits_value s)) else None)"

definition parse_sock_v4 :: "string \<Rightarrow> sock_addr option" where
  "parse_sock_v4 s =
     (case split_once CHR '':'' s of None \<Rightarrow> None
      | Some (ip, port) \<Rightarrow>
          (case (parse_ipv4 ip, parse_port port) of (Some i, Some p) \<Rightarrow> Some (Sock_v4 i p) | _ \<Rightarrow> None))"

definition parse_sock_addr :: "(string \<Rightarrow> (128 word \<times> u16) option) \<Rightarrow> string \<Rightarrow> sock_addr option" where
  "parse_sock_addr v6 s =
     (case parse_sock_v4 s of Some a \<Rightarrow> Some a | None \<Rightarrow> map_option (\<lambda>(i, p). Sock_v6 i p) (v6 s))"

section \<open>The configuration\<close>

record 'key wg_lib =
  b64_decode :: "string \<Rightarrow> u8 list option"
  secret_from :: "u8 list \<Rightarrow> 'key"
  public_from :: "u8 list \<Rightarrow> 'key"
  parse_v6 :: "string \<Rightarrow> (128 word \<times> u16) option"
  to_socket_addrs :: "string \<Rightarrow> sock_addr list option"

record ('key, 'addr) wg_config =
  private_key :: 'key
  peer_public_key :: 'key
  cfg_endpoint :: 'addr
  endpoint_host :: string
  address :: ipv4
  target_ip :: ipv4
  target_port :: u16
  persistent_keepalive :: "u16 option"
  cfg_mtu :: usize

datatype wg_env_error =
    Bad_private_key | Peer_key_missing | Bad_peer_key
  | Endpoint_missing | Endpoint_unresolved | Endpoint_empty
  | Target_missing | Target_not_host_port | Target_not_ipv4 | Bad_address

definition decode_key :: "'key wg_lib \<Rightarrow> string \<Rightarrow> u8 list option" where
  "decode_key W s =
     (case b64_decode W (trim s) of None \<Rightarrow> None
      | Some bytes \<Rightarrow> if length bytes = 32 then Some bytes else None)"

text \<open>\<open>x.context(e)?\<close> followed by the rest of the function.\<close>

definition or_fail :: "'a option \<Rightarrow> 'e \<Rightarrow> ('a \<Rightarrow> 'e + 'b) \<Rightarrow> 'e + 'b" where
  "or_fail x e k = (case x of None \<Rightarrow> Inl e | Some a \<Rightarrow> k a)"

definition first_of :: "'a list \<Rightarrow> 'a option" where
  "first_of xs = (case xs of [] \<Rightarrow> None | x # _ \<Rightarrow> Some x)"

definition or_else :: "'a option \<Rightarrow> 'a option \<Rightarrow> 'a option" where
  "or_else x y = (case x of Some a \<Rightarrow> Some a | None \<Rightarrow> y)"

definition config_from_env ::
  "'key wg_lib \<Rightarrow> (string \<Rightarrow> string option) \<Rightarrow> wg_env_error + ('key, sock_addr) wg_config option" where
  "config_from_env W env =
     (case env ''WG_PRIVATE_KEY'' of None \<Rightarrow> Inr None | Some private_b64 \<Rightarrow>
      if private_b64 = [] then Inr None
      else
        or_fail (decode_key W private_b64) Bad_private_key (\<lambda>priv.
        or_fail (env ''WG_PEER_PUBLIC_KEY'') Peer_key_missing (\<lambda>peer_b64.
        or_fail (decode_key W peer_b64) Bad_peer_key (\<lambda>peer.
        or_fail (env ''WG_ENDPOINT'') Endpoint_missing (\<lambda>raw.
        or_fail (to_socket_addrs W raw) Endpoint_unresolved (\<lambda>addrs.
        or_fail (first_of addrs) Endpoint_empty (\<lambda>ep.
        or_fail (or_else (env ''WG_TARGET_ADDR'') (env ''WG_INFERENCE_ADDR'')) Target_missing (\<lambda>t.
        or_fail (parse_sock_addr (parse_v6 W) t) Target_not_host_port (\<lambda>target.
        case target of
          Sock_v6 _ _ \<Rightarrow> Inl Target_not_ipv4
        | Sock_v4 ip port \<Rightarrow>
            or_fail (parse_ipv4 (case env ''WG_ADDRESS'' of Some a \<Rightarrow> a | None \<Rightarrow> ''10.99.0.1'')) Bad_address (\<lambda>addr.
            Inr (Some \<lparr>private_key = secret_from W priv, peer_public_key = public_from W peer,
              cfg_endpoint = ep, endpoint_host = raw, address = addr, target_ip = ip, target_port = port,
              persistent_keepalive = or_else (map_option word_of_nat (Option.bind (env ''WG_KEEPALIVE'') (parse_unsigned 16))) (Some 25),
              cfg_mtu = (case Option.bind (env ''WG_MTU'') (parse_unsigned 64) of Some m \<Rightarrow> word_of_nat m | None \<Rightarrow> 1420)\<rparr>)))))))))))"

section \<open>Facts\<close>

lemma or_fail_Inr: "or_fail x e k = Inr b \<longleftrightarrow> (\<exists>a. x = Some a \<and> k a = Inr b)"
  by (auto simp: or_fail_def split: option.splits)

lemma case_v4_Inr:
  "(case a of Sock_v6 i p \<Rightarrow> Inl e | Sock_v4 ip port \<Rightarrow> f ip port) = Inr b \<longleftrightarrow> (\<exists>ip port. a = Sock_v4 ip port \<and> f ip port = Inr b)"
  by (cases a) auto

lemma first_of_Some: "first_of xs = Some x \<longleftrightarrow> (\<exists>ys. xs = x # ys)"
  by (auto simp: first_of_def split: list.splits)

lemma decode_key_Some: "decode_key W s = Some k \<longleftrightarrow> b64_decode W (trim s) = Some k \<and> length k = 32"
  by (auto simp: decode_key_def split: option.splits if_splits)

lemma parse_octet_decimal: "n < 256 \<Longrightarrow> parse_octet (decimal n) = Some n"
proof -
  assume n: "n < 256"
  have len: "length (decimal n) \<le> 3"
    using n by (subst decimal.simps, subst decimal.simps, subst decimal.simps) auto
  have hd: "hd (decimal n) = CHR ''0'' \<longrightarrow> length (decimal n) = 1"
  proof (cases "n < 10")
    case True
    then show ?thesis by (subst (2) decimal.simps) simp
  next
    case False
    define k where "k = (if n < 100 then n div 10 else n div 100)"
    have "hd (decimal n) = digit k"
      using n False unfolding k_def
      by (subst decimal.simps, subst decimal.simps, subst decimal.simps) (auto simp: div_mult2_eq[symmetric])
    moreover have "byte (digit k) \<noteq> 48"
      using n False by (subst byte_digit) (auto simp: k_def)
    moreover have "byte CHR ''0'' = 48" by (simp add: byte_def)
    ultimately show ?thesis by fastforce
  qed
  show ?thesis
    using n len hd decimal_not_Nil[of n] decimal_digits[of n] digits_value_decimal[of n] by (simp add: parse_octet_def)
qed

lemma parse_sock_addr_v4:
  "parse_sock_addr v6 s = Some (Sock_v4 i p) \<longleftrightarrow>
     (\<exists>ip port. split_once CHR '':'' s = Some (ip, port) \<and> parse_ipv4 ip = Some i \<and> parse_port port = Some p)"
  by (auto simp: parse_sock_addr_def parse_sock_v4_def split: option.splits)

lemma parse_sock_v4_dotted:
  assumes "parse_ipv4 ip = Some i" and "CHR '':'' \<notin> set ip" and "p < 2 ^ 16"
  shows "parse_sock_addr v6 (ip @ CHR '':'' # decimal p) = Some (Sock_v4 i (word_of_nat p))"
  using assms decimal_not_Nil[of p] decimal_digits[of p]
  by (simp add: parse_sock_addr_v4 split_once_append parse_port_def digits_value_decimal)

lemma default_address: "parse_ipv4 ''10.99.0.1'' = Some 0x0A630001"
proof -
  have s: "split_on CHR ''.'' ''10.99.0.1'' = [''10'', ''99'', ''0'', ''1'']" by simp
  have o: "parse_octet ''10'' = Some 10" "parse_octet ''99'' = Some 99" "parse_octet ''0'' = Some 0" "parse_octet ''1'' = Some 1"
    by (simp_all add: parse_octet_def is_digit_def digits_value_def byte_def)
  show ?thesis by (simp add: parse_ipv4_def s o)
qed

text \<open>What a returned configuration was built from.\<close>

lemma configured:
  assumes "config_from_env W env = Inr (Some c)"
  shows "\<exists>a k b l rest t.
      env ''WG_PRIVATE_KEY'' = Some a \<and> a \<noteq> [] \<and> decode_key W a = Some k \<and> private_key c = secret_from W k
    \<and> env ''WG_PEER_PUBLIC_KEY'' = Some b \<and> decode_key W b = Some l \<and> peer_public_key c = public_from W l
    \<and> env ''WG_ENDPOINT'' = Some (endpoint_host c) \<and> to_socket_addrs W (endpoint_host c) = Some (cfg_endpoint c # rest)
    \<and> or_else (env ''WG_TARGET_ADDR'') (env ''WG_INFERENCE_ADDR'') = Some t
    \<and> parse_sock_addr (parse_v6 W) t = Some (Sock_v4 (target_ip c) (target_port c))
    \<and> (case env ''WG_ADDRESS'' of None \<Rightarrow> address c = 0x0A630001 | Some x \<Rightarrow> parse_ipv4 x = Some (address c))
    \<and> persistent_keepalive c = Some (case Option.bind (env ''WG_KEEPALIVE'') (parse_unsigned 16) of None \<Rightarrow> 25 | Some n \<Rightarrow> word_of_nat n)
    \<and> cfg_mtu c = (case Option.bind (env ''WG_MTU'') (parse_unsigned 64) of None \<Rightarrow> 1420 | Some n \<Rightarrow> word_of_nat n)"
proof -
  obtain a where a: "env ''WG_PRIVATE_KEY'' = Some a" "a \<noteq> []"
    using assms by (auto simp: config_from_env_def split: option.splits if_splits)
  obtain k b l raw ep rest t i p addr where q: "decode_key W a = Some k" "env ''WG_PEER_PUBLIC_KEY'' = Some b" "decode_key W b = Some l"
      "env ''WG_ENDPOINT'' = Some raw" "to_socket_addrs W raw = Some (ep # rest)"
      "or_else (env ''WG_TARGET_ADDR'') (env ''WG_INFERENCE_ADDR'') = Some t"
      "parse_sock_addr (parse_v6 W) t = Some (Sock_v4 i p)"
      "parse_ipv4 (case env ''WG_ADDRESS'' of Some a \<Rightarrow> a | None \<Rightarrow> ''10.99.0.1'') = Some addr"
    and c: "\<lparr>private_key = secret_from W k, peer_public_key = public_from W l, cfg_endpoint = ep, endpoint_host = raw,
        address = addr, target_ip = i, target_port = p,
        persistent_keepalive = or_else (map_option word_of_nat (Option.bind (env ''WG_KEEPALIVE'') (parse_unsigned 16))) (Some 25),
        cfg_mtu = (case Option.bind (env ''WG_MTU'') (parse_unsigned 64) of Some m \<Rightarrow> word_of_nat m | None \<Rightarrow> 1420)\<rparr> = c"
    using assms unfolding config_from_env_def a(1) option.case if_not_P[OF a(2)] or_fail_Inr case_v4_Inr first_of_Some
      sum.inject option.inject
    by (elim exE conjE) (rule that; simp)
  have "(case env ''WG_ADDRESS'' of None \<Rightarrow> address c = 0x0A630001 | Some x \<Rightarrow> parse_ipv4 x = Some (address c))"
    using q(8) c default_address by (auto split: option.splits)
  moreover have "persistent_keepalive c = Some (case Option.bind (env ''WG_KEEPALIVE'') (parse_unsigned 16) of None \<Rightarrow> 25 | Some n \<Rightarrow> word_of_nat n)" "cfg_mtu c = (case Option.bind (env ''WG_MTU'') (parse_unsigned 64) of None \<Rightarrow> 1420 | Some n \<Rightarrow> word_of_nat n)"
    using c by (auto simp: or_else_def split: option.splits)
  moreover have "private_key c = secret_from W k" "peer_public_key c = public_from W l" "endpoint_host c = raw"
      "cfg_endpoint c = ep" "target_ip c = i" "target_port c = p"
    using c by auto
  ultimately show ?thesis
    using a q by (intro exI[of _ a] exI[of _ k] exI[of _ b] exI[of _ l] exI[of _ rest] exI[of _ t]) simp
qed

lemma off_without_key: "config_from_env W env = Inr None \<longleftrightarrow> env ''WG_PRIVATE_KEY'' = None \<or> env ''WG_PRIVATE_KEY'' = Some []"
proof (cases "env ''WG_PRIVATE_KEY''")
  case (Some a)
  show ?thesis
    by (cases "a = []") (simp_all add: config_from_env_def Some or_fail_Inr case_v4_Inr)
qed (simp add: config_from_env_def)

section \<open>Properties\<close>

text \<open>C40
  A requested tunnel is configured completely or refused: without a private key the transport is off;
  with one, a configuration is returned only if both keys decode to exactly 32 bytes, the endpoint
  resolved, and the target, for which the legacy name counts only where the new one is not set, is an IPv4 address
  and port, and it holds exactly those; an address that is set must parse and is the one held, and the keepalive and
  the MTU are those set, or the defaults where they are not set or not numbers of their width; a missing required
  variable is an error, never a silent fallback.\<close>

theorem tunnel_is_configured_or_refused:
  "(config_from_env W env = Inr None \<longleftrightarrow> env ''WG_PRIVATE_KEY'' \<in> {None, Some []})
   \<and> (\<forall>c. config_from_env W env = Inr (Some c) \<longrightarrow>
        (\<exists>a k b l rest t ip port.
           env ''WG_PRIVATE_KEY'' = Some a \<and> b64_decode W (trim a) = Some k \<and> length k = 32 \<and> private_key c = secret_from W k
         \<and> env ''WG_PEER_PUBLIC_KEY'' = Some b \<and> b64_decode W (trim b) = Some l \<and> length l = 32 \<and> peer_public_key c = public_from W l
         \<and> env ''WG_ENDPOINT'' = Some (endpoint_host c) \<and> to_socket_addrs W (endpoint_host c) = Some (cfg_endpoint c # rest)
         \<and> (case env ''WG_TARGET_ADDR'' of Some x \<Rightarrow> Some x | None \<Rightarrow> env ''WG_INFERENCE_ADDR'') = Some t \<and> split_once CHR '':'' t = Some (ip, port)
         \<and> parse_ipv4 ip = Some (target_ip c) \<and> parse_port port = Some (target_port c))
      \<and> (case env ''WG_ADDRESS'' of None \<Rightarrow> address c = 0x0A630001 | Some x \<Rightarrow> parse_ipv4 x = Some (address c))
      \<and> persistent_keepalive c = Some (case Option.bind (env ''WG_KEEPALIVE'') (parse_unsigned 16) of None \<Rightarrow> 25 | Some n \<Rightarrow> word_of_nat n)
      \<and> cfg_mtu c = (case Option.bind (env ''WG_MTU'') (parse_unsigned 64) of None \<Rightarrow> 1420 | Some n \<Rightarrow> word_of_nat n))
   \<and> (env ''WG_PRIVATE_KEY'' \<notin> {None, Some []} \<longrightarrow>
        env ''WG_PEER_PUBLIC_KEY'' = None \<or> env ''WG_ENDPOINT'' = None
          \<or> env ''WG_TARGET_ADDR'' = None \<and> env ''WG_INFERENCE_ADDR'' = None \<longrightarrow>
        (\<exists>e. config_from_env W env = Inl e))"
proof (intro conjI allI impI)
  show "config_from_env W env = Inr None \<longleftrightarrow> env ''WG_PRIVATE_KEY'' \<in> {None, Some []}"
    using off_without_key[of W env] by simp
next
  fix c assume c: "config_from_env W env = Inr (Some c)"
  note p = configured[OF c]
  from p show "(case env ''WG_ADDRESS'' of None \<Rightarrow> address c = 0x0A630001 | Some x \<Rightarrow> parse_ipv4 x = Some (address c))"
    and "persistent_keepalive c = Some (case Option.bind (env ''WG_KEEPALIVE'') (parse_unsigned 16) of None \<Rightarrow> 25 | Some n \<Rightarrow> word_of_nat n)"
    and "cfg_mtu c = (case Option.bind (env ''WG_MTU'') (parse_unsigned 64) of None \<Rightarrow> 1420 | Some n \<Rightarrow> word_of_nat n)"
    by blast+
  from p obtain a k b l rest t where q: "env ''WG_PRIVATE_KEY'' = Some a" "decode_key W a = Some k" "private_key c = secret_from W k"
      "env ''WG_PEER_PUBLIC_KEY'' = Some b" "decode_key W b = Some l" "peer_public_key c = public_from W l"
      "env ''WG_ENDPOINT'' = Some (endpoint_host c)" "to_socket_addrs W (endpoint_host c) = Some (cfg_endpoint c # rest)"
      "or_else (env ''WG_TARGET_ADDR'') (env ''WG_INFERENCE_ADDR'') = Some t"
      "parse_sock_addr (parse_v6 W) t = Some (Sock_v4 (target_ip c) (target_port c))"
    by blast
  from q(10) obtain ip port where "split_once CHR '':'' t = Some (ip, port)"
      "parse_ipv4 ip = Some (target_ip c)" "parse_port port = Some (target_port c)"
    by (auto simp: parse_sock_addr_v4)
  moreover have "(case env ''WG_TARGET_ADDR'' of Some x \<Rightarrow> Some x | None \<Rightarrow> env ''WG_INFERENCE_ADDR'') = Some t"
    using q(9) by (simp add: or_else_def)
  ultimately show "\<exists>a k b l rest t ip port.
           env ''WG_PRIVATE_KEY'' = Some a \<and> b64_decode W (trim a) = Some k \<and> length k = 32 \<and> private_key c = secret_from W k
         \<and> env ''WG_PEER_PUBLIC_KEY'' = Some b \<and> b64_decode W (trim b) = Some l \<and> length l = 32 \<and> peer_public_key c = public_from W l
         \<and> env ''WG_ENDPOINT'' = Some (endpoint_host c) \<and> to_socket_addrs W (endpoint_host c) = Some (cfg_endpoint c # rest)
         \<and> (case env ''WG_TARGET_ADDR'' of Some x \<Rightarrow> Some x | None \<Rightarrow> env ''WG_INFERENCE_ADDR'') = Some t \<and> split_once CHR '':'' t = Some (ip, port)
         \<and> parse_ipv4 ip = Some (target_ip c) \<and> parse_port port = Some (target_port c)"
    using q(1-8) unfolding decode_key_Some by blast
next
  assume on: "env ''WG_PRIVATE_KEY'' \<notin> {None, Some []}"
    and miss: "env ''WG_PEER_PUBLIC_KEY'' = None \<or> env ''WG_ENDPOINT'' = None
          \<or> env ''WG_TARGET_ADDR'' = None \<and> env ''WG_INFERENCE_ADDR'' = None"
  show "\<exists>e. config_from_env W env = Inl e"
  proof (cases "config_from_env W env")
    case (Inr r)
    with on off_without_key[of W env] obtain c where "config_from_env W env = Inr (Some c)" by (cases r) auto
    from configured[OF this] miss show ?thesis by (auto simp: or_else_def)
  qed simp
qed

definition a_wg :: "u8 list wg_lib" where
  "a_wg = \<lparr>b64_decode = \<lambda>s. Some (replicate (length s) 1), secret_from = \<lambda>k. k, public_from = \<lambda>k. k, parse_v6 = \<lambda>_. None,
     to_socket_addrs = \<lambda>s. Some [Sock_v4 7 51820]\<rparr>"

definition an_env :: "(string \<times> string) list \<Rightarrow> string \<Rightarrow> string option" where
  "an_env kvs k = map_of kvs k"

definition the_env :: "string \<Rightarrow> string option" where
  "the_env = an_env [(''WG_PRIVATE_KEY'', replicate 32 CHR ''k''), (''WG_PEER_PUBLIC_KEY'', replicate 32 CHR ''p''),
     (''WG_ENDPOINT'', ''peer:1''), (''WG_TARGET_ADDR'', ''10.99.0.1:8080''), (''WG_INFERENCE_ADDR'', ''old'')]"

lemma a_port: "parse_port ''8080'' = Some 8080"
  by (simp add: parse_port_def is_digit_def digits_value_def byte_def)

lemma the_env_configured: "\<exists>c. config_from_env a_wg the_env = Inr (Some c)"
proof -
  have d: "decode_key a_wg (replicate 32 x) = Some (replicate 32 1)" if "x \<in> {CHR ''k'', CHR ''p''}" for x
  proof -
    have "trim (replicate 32 x) = replicate 32 x"
      using that by (intro trim_no_blank) (auto simp: no_blank_def byte_def is_whitespace_def)
    then show ?thesis by (simp add: decode_key_def a_wg_def)
  qed
  have "split_once CHR '':'' ''10.99.0.1:8080'' = Some (''10.99.0.1'', ''8080'')" by (simp add: split_once_def)
  then have t: "parse_sock_addr (\<lambda>_. None) ''10.99.0.1:8080'' = Some (Sock_v4 0x0A630001 8080)"
    unfolding parse_sock_addr_v4 using default_address a_port by blast
  have e: "the_env ''WG_PRIVATE_KEY'' = Some (replicate 32 CHR ''k'')" "the_env ''WG_PEER_PUBLIC_KEY'' = Some (replicate 32 CHR ''p'')"
      "the_env ''WG_ENDPOINT'' = Some ''peer:1''" "the_env ''WG_TARGET_ADDR'' = Some ''10.99.0.1:8080''"
      "the_env ''WG_ADDRESS'' = None" "the_env ''WG_KEEPALIVE'' = None" "the_env ''WG_MTU'' = None"
    by (simp_all add: the_env_def an_env_def)
  have k: "decode_key a_wg (replicate 32 CHR ''k'') = Some (replicate 32 1)" "decode_key a_wg (replicate 32 CHR ''p'') = Some (replicate 32 1)"
    by (rule d, simp)+
  have l: "parse_v6 a_wg = (\<lambda>_. None)" "to_socket_addrs a_wg ''peer:1'' = Some [Sock_v4 7 51820]" by (simp_all add: a_wg_def)
  have "replicate 32 CHR ''k'' \<noteq> []" by simp
  then show ?thesis
    unfolding config_from_env_def e k option.case or_fail_def or_else_def l t first_of_def list.case sock_addr.case default_address
    by simp
qed

theorem tunnel_is_configured_or_refused_witness:
  "(\<exists>c. config_from_env a_wg the_env = Inr (Some c) \<and> target_port c = 8080 \<and> cfg_mtu c = 1420)
   \<and> (\<exists>e. config_from_env a_wg (an_env [(''WG_PRIVATE_KEY'', ''k''), (''WG_PEER_PUBLIC_KEY'', ''p'')]) = Inl e)
   \<and> config_from_env a_wg (an_env []) = Inr None"
proof -
  obtain c where c: "config_from_env a_wg the_env = Inr (Some c)" using the_env_configured by blast
  note a_port
  moreover have "the_env ''WG_TARGET_ADDR'' = Some ''10.99.0.1:8080''" "the_env ''WG_MTU'' = None" by (simp_all add: the_env_def an_env_def)
  ultimately have "target_port c = 8080 \<and> cfg_mtu c = 1420"
    using tunnel_is_configured_or_refused[of a_wg the_env] c by (auto simp: split_once_def)
  with c tunnel_is_configured_or_refused[of a_wg "an_env [(''WG_PRIVATE_KEY'', ''k''), (''WG_PEER_PUBLIC_KEY'', ''p'')]"]
    tunnel_is_configured_or_refused[of a_wg "an_env []"]
  show ?thesis by (simp add: an_env_def)
qed

end
