(* ===== verification/Forward.thy ===== *)
theory Forward
  imports Tunnel Sockets Health WgConfig Gate
begin

text \<open>
  The stack task of \<open>src/src/wg/forward.rs\<close>: one pass of the loop of \<open>run\<close> composed of the socket side
  (\<open>Sockets\<close>), the packet queues (\<open>Device\<close>), the tunnel (\<open>Tunnel\<close>) and the published health (\<open>Health\<close>);
  the watchdog that bounces a dead tunnel; and the interleaving of passes with what the streams do.
\<close>

section \<open>State\<close>

definition rehandshake_after :: duration where
  "rehandshake_after = from_secs 30"

record ('s, 't, 'addr) fwd =
  fw_stack :: "'s stack"
  fw_device :: device
  fw_tunnel :: "('t, 'addr) tunnel"
  fw_healthy :: instant
  fw_health :: wg_health

text \<open>
  \<open>start\<close> and the head of \<open>run\<close>: \<open>None\<close> is a tunnel socket that could not be bound. The health handle is
  made at one instant, the loop begins at a later one.
\<close>

definition fwd_start ::
  "('t, 'key) tunn_lib \<Rightarrow> bool \<Rightarrow> instant \<Rightarrow> instant \<Rightarrow> ('key, 'addr) wg_config \<Rightarrow> ('s, 't, 'addr) fwd option" where
  "fwd_start B bound made now cfg =
     (case tunnel_new B bound (private_key cfg) (peer_public_key cfg) (cfg_endpoint cfg) (persistent_keepalive cfg) of
        None \<Rightarrow> None
      | Some t \<Rightarrow> Some \<lparr>fw_stack = stack_new, fw_device = device_new (unat (cfg_mtu cfg)), fw_tunnel = t,
          fw_healthy = now, fw_health = health_new made\<rparr>)"

section \<open>Rebuilding the tunnel\<close>

text \<open>\<open>lookup\<close> is the name resolver at the time of the call.\<close>

definition resolve_endpoint :: "(string \<Rightarrow> 'addr list option) \<Rightarrow> string \<Rightarrow> 'addr option" where
  "resolve_endpoint lookup host = (case lookup host of None \<Rightarrow> None | Some addrs \<Rightarrow> first_of addrs)"

definition rebuild_tunnel ::
  "('t, 'key) tunn_lib \<Rightarrow> (string \<Rightarrow> 'addr list option) \<Rightarrow> bool \<Rightarrow> ('key, 'addr) wg_config \<Rightarrow> ('t, 'addr) tunnel option" where
  "rebuild_tunnel B lookup bound cfg =
     (let ep = (case resolve_endpoint lookup (endpoint_host cfg) of Some ep \<Rightarrow> ep | None \<Rightarrow> cfg_endpoint cfg)
      in tunnel_new B bound (private_key cfg) (peer_public_key cfg) ep (persistent_keepalive cfg))"

section \<open>Sending what the TCP stack queued\<close>

lemma dequeue_sent_shrinks:
  "dequeue_sent d = Some (Some p, d') \<Longrightarrow> length (lengths (tok_queue (send d'))) < length (lengths (tok_queue (send d)))"
  by (auto simp: dequeue_sent_def dequeue_def queue_is_empty_def Let_def split: if_splits option.splits list.splits)

text \<open>Draining the device; \<open>None\<close> is a panic of the packet queue.\<close>

function take_outgoing :: "device \<Rightarrow> (packet list \<times> device) option" where
  "take_outgoing d =
     (case dequeue_sent d of
        None \<Rightarrow> None
      | Some (None, d') \<Rightarrow> Some ([], d')
      | Some (Some p, d') \<Rightarrow> (case take_outgoing d' of None \<Rightarrow> None | Some (ps, d'') \<Rightarrow> Some (p # ps, d'')))"
  by auto
termination
  by (relation "measure (\<lambda>d. length (lengths (tok_queue (send d))))") (auto dest: dequeue_sent_shrinks)

declare take_outgoing.simps [simp del]

text \<open>\<open>net n\<close> is whether the socket takes the datagram of the \<open>n\<close>th packet; the rest is dropped at the first that fails.\<close>

fun send_outgoing ::
  "('t, 'key) tunn_lib \<Rightarrow> (nat \<Rightarrow> bool) \<Rightarrow> nat \<Rightarrow> packet list \<Rightarrow> ('t, 'addr) tunnel \<Rightarrow> ('addr \<times> packet) list \<times> ('t, 'addr) tunnel" where
  "send_outgoing B net n [] t = ([], t)"
| "send_outgoing B net n (p # ps) t =
     (case tunnel_send B (net n) p t of
        (False, ds, t') \<Rightarrow> (ds, t')
      | (True, ds, t') \<Rightarrow> (case send_outgoing B net (Suc n) ps t' of (es, t'') \<Rightarrow> (ds @ es, t'')))"

section \<open>One pass of the loop\<close>

text \<open>The arm the \<open>select!\<close> took, with what the tunnel socket did in it.\<close>

datatype arm = Open_request handle | Inbound "packet option" "nat \<Rightarrow> bool" | Timer_tick bool | Woken

text \<open>
  What the environment does in one pass: how the TCP stack advances the device and each socket, when the
  sockets were reaped, which packets could be sent, the arm with the instants its work begins and ends,
  and the resolver and the socket binding a rebuild would find. \<open>p_cut\<close> is a read of the tunnel that the arm
  interrupted: the handshake datagram it had read and how many datagrams it had sent of what that produced.
\<close>

record ('s, 'addr) pass =
  p_poll :: "device \<Rightarrow> device"
  p_polled :: "handle \<Rightarrow> 's \<Rightarrow> 's"
  p_reaped_at :: instant
  p_sends :: "nat \<Rightarrow> bool"
  p_cut :: "(packet \<times> nat) option"
  p_arm :: arm
  p_at :: instant
  p_done :: instant
  p_lookup :: "string \<Rightarrow> 'addr list option"
  p_bound :: bool

text \<open>What a pass tells of the tunnel: a fresh handshake seen, or a bounce (by the watchdog or not) and its outcome.\<close>

datatype beat = Fresh instant | Bounce bool instant instant bool

definition is_fresh :: "duration option \<Rightarrow> bool" where
  "is_fresh age = (case age of Some d \<Rightarrow> as_secs d < handshake_stale_secs | None \<Rightarrow> False)"

definition bounce ::
  "('t, 'key) tunn_lib \<Rightarrow> ('key, 'addr) wg_config \<Rightarrow> bool \<Rightarrow> ('s, 'addr) pass \<Rightarrow> ('s, 't, 'addr) fwd \<Rightarrow> beat option \<times> ('s, 't, 'addr) fwd" where
  "bounce B cfg watchdog p s =
     (case rebuild_tunnel B (p_lookup p) (p_bound p) cfg of
        Some t \<Rightarrow> (Some (Bounce watchdog (p_at p) (p_done p) True), s\<lparr>fw_tunnel := t, fw_healthy := p_done p\<rparr>)
      | None \<Rightarrow> (Some (Bounce watchdog (p_at p) (p_done p) False), s))"

definition timer_arm ::
  "('t, 'key) tunn_lib \<Rightarrow> ('key, 'addr) wg_config \<Rightarrow> ('s, 'addr) pass \<Rightarrow> bool \<Rightarrow> ('s, 't, 'addr) fwd \<Rightarrow> beat option \<times> ('s, 't, 'addr) fwd" where
  "timer_arm B cfg p net s =
     (case tunnel_update_timers B net (fw_tunnel s) of (_, _, t) \<Rightarrow>
        (let age = last_handshake_age B t;
             s1 = s\<lparr>fw_tunnel := t, fw_health := health_set (p_at p) age (fw_health s)\<rparr>
         in if is_fresh age then (Some (Fresh (p_at p)), s1\<lparr>fw_healthy := p_at p\<rparr>)
            else if rehandshake_after < elapsed (p_at p) (fw_healthy s1) then bounce B cfg True p s1
            else (None, s1)))"

text \<open>A failed read bounces the tunnel, whatever its age; a drain that never ends is \<open>None\<close>.\<close>

definition inbound_arm ::
  "('t, 'key) tunn_lib \<Rightarrow> ('key, 'addr) wg_config \<Rightarrow> ('s, 'addr) pass \<Rightarrow> packet option \<Rightarrow> (nat \<Rightarrow> bool) \<Rightarrow> ('s, 't, 'addr) fwd
     \<Rightarrow> (beat option \<times> ('s, 't, 'addr) fwd) option" where
  "inbound_arm B cfg p datagram net s =
     (case tunnel_recv B datagram net (fw_tunnel s) of
        None \<Rightarrow> None
      | Some (Recv_packet pkt, _, t) \<Rightarrow> Some (None, s\<lparr>fw_tunnel := t, fw_device := enqueue_received pkt (fw_device s)\<rparr>)
      | Some (Recv_nothing, _, t) \<Rightarrow> Some (None, s\<lparr>fw_tunnel := t\<rparr>)
      | Some (Recv_failed, _, t) \<Rightarrow> Some (bounce B cfg False p (s\<lparr>fw_tunnel := t\<rparr>)))"

definition select_arm ::
  "'s tcp_lib \<Rightarrow> ('t, 'key) tunn_lib \<Rightarrow> ('key, 'addr) wg_config \<Rightarrow> ('s, 'addr) pass \<Rightarrow> ('s, 't, 'addr) fwd
     \<Rightarrow> (beat option \<times> ('s, 't, 'addr) fwd) option" where
  "select_arm T B cfg p s =
     (case p_arm p of
        Open_request slot \<Rightarrow> Some (None, s\<lparr>fw_stack := snd (open_socket T slot (fw_stack s))\<rparr>)
      | Inbound datagram net \<Rightarrow> inbound_arm B cfg p datagram net s
      | Timer_tick net \<Rightarrow> Some (timer_arm B cfg p net s)
      | Woken \<Rightarrow> Some (None, s))"

text \<open>Steps 1 and 2 of the loop, before the \<open>select!\<close>: advance and reap, then send what is queued.\<close>

definition pump ::
  "'s tcp_lib \<Rightarrow> ('t, 'key) tunn_lib \<Rightarrow> ('s, 'addr) pass \<Rightarrow> ('s, 't, 'addr) fwd
     \<Rightarrow> (('addr \<times> packet) list \<times> ('s, 't, 'addr) fwd) option" where
  "pump T B p s =
     (case stack_pass T (p_polled p) (p_reaped_at p) (fw_stack s) of None \<Rightarrow> None | Some st \<Rightarrow>
      (case take_outgoing (p_poll p (fw_device s)) of None \<Rightarrow> None | Some (pkts, dev) \<Rightarrow>
       (case send_outgoing B (p_sends p) 0 pkts (fw_tunnel s) of (sent, t) \<Rightarrow>
          Some (sent, s\<lparr>fw_stack := st, fw_device := dev, fw_tunnel := t\<rparr>))))"

text \<open>
  The \<open>select!\<close> drops the tunnel read when another arm is ready first. A read waiting for a datagram has
  done nothing; one waiting to send has fed the session, and the datagram at hand is lost.
\<close>

definition drop_recv :: "('t, 'key) tunn_lib \<Rightarrow> (packet \<times> nat) option \<Rightarrow> ('t, 'addr) tunnel \<Rightarrow> ('t, 'addr) tunnel option" where
  "drop_recv B broken t =
     (case broken of None \<Rightarrow> Some t | Some (datagram, n) \<Rightarrow>
      (case decapsulate B (tunn t) datagram of
         (Write_to_network d, tn) \<Rightarrow> map_option (\<lambda>(_, tn'). t\<lparr>tunn := tn'\<rparr>) (drain B (\<lambda>i. i < n) 0 d tn)
       | _ \<Rightarrow> Some t))"

definition interrupt :: "('t, 'key) tunn_lib \<Rightarrow> ('s, 'addr) pass \<Rightarrow> ('s, 't, 'addr) fwd \<Rightarrow> ('s, 't, 'addr) fwd option" where
  "interrupt B p s =
     (case p_arm p of
        Inbound _ _ \<Rightarrow> Some s
      | _ \<Rightarrow> map_option (\<lambda>t. s\<lparr>fw_tunnel := t\<rparr>) (drop_recv B (p_cut p) (fw_tunnel s)))"

definition loop_pass ::
  "'s tcp_lib \<Rightarrow> ('t, 'key) tunn_lib \<Rightarrow> ('key, 'addr) wg_config \<Rightarrow> ('s, 'addr) pass \<Rightarrow> ('s, 't, 'addr) fwd
     \<Rightarrow> (beat option \<times> ('s, 't, 'addr) fwd) option" where
  "loop_pass T B cfg p s =
     (case pump T B p s of None \<Rightarrow> None | Some (_, s1) \<Rightarrow>
      (case interrupt B p s1 of None \<Rightarrow> None | Some s2 \<Rightarrow> select_arm T B cfg p s2))"

text \<open>
  When the name does not resolve, the endpoint is the one resolved at startup, not the last one that worked:
  a tunnel that followed the peer to a new address goes back to the old one.
\<close>

lemma unresolved_bounce_returns_to_startup_endpoint:
  assumes "p_lookup p (endpoint_host cfg) = None" and "p_bound p"
  shows "endpoint (fw_tunnel (snd (bounce B cfg w p s))) = cfg_endpoint cfg"
  using assms by (simp add: bounce_def rebuild_tunnel_def resolve_endpoint_def tunnel_new_def Let_def)

section \<open>Draining and sending\<close>

text \<open>A drain returns what the FIFO held and leaves it empty, without a panic.\<close>

lemma take_outgoing_fifo:
  assumes "device_wf d"
  shows "\<exists>d'. take_outgoing d = Some (to_send d, d') \<and> device_wf d' \<and> to_send d' = [] \<and> to_receive d' = to_receive d"
  using assms
proof (induction d rule: take_outgoing.induct)
  case (1 d)
  then have q: "queue_wf (tok_queue (send d))" "queue_wf (tok_queue (recv d))" by (simp_all add: device_wf_def)
  from q(1) show ?case
  proof (cases rule: pq.deq_cases)
    case 1
    with "1.prems" have "dequeue_sent d = Some (None, d)" by (simp add: dequeue_sent_def)
    with 1 "1.prems" show ?thesis by (subst take_outgoing.simps) (simp add: to_send_def)
  next
    case (2 x q')
    define d1 where "d1 = d\<lparr>send := \<lparr>tok_queue = q', tok_buffer = x\<rparr>\<rparr>"
    have d: "dequeue_sent d = Some (Some x, d1)" using 2 by (simp add: dequeue_sent_def d1_def)
    have wf: "device_wf d1" using 2 q by (simp add: device_wf_def d1_def)
    have items: "to_send d = x # to_send d1" "to_receive d1 = to_receive d"
      using 2 by (simp_all add: to_send_def to_receive_def d1_def)
    from "1.IH"[OF d refl refl wf] obtain d' where "take_outgoing d1 = Some (to_send d1, d')" "device_wf d'" "to_send d' = []"
        "to_receive d' = to_receive d1" by blast
    with d items show ?thesis by (subst take_outgoing.simps) simp
  qed
qed

text \<open>What is sent for a list of packets while every datagram goes out.\<close>

fun encapsulated :: "('t, 'key) tunn_lib \<Rightarrow> packet list \<Rightarrow> 't \<Rightarrow> packet list \<times> 't" where
  "encapsulated B [] tn = ([], tn)"
| "encapsulated B (p # ps) tn =
     (case encapsulate B tn p of
        (Write_to_network d, tn') \<Rightarrow> (case encapsulated B ps tn' of (ds, tn'') \<Rightarrow> (d # ds, tn''))
      | (_, tn') \<Rightarrow> encapsulated B ps tn')"

lemma send_outgoing_all:
  "\<forall>i < length ps. net (n + i) \<Longrightarrow> encapsulated B ps (tunn t) = (ds, tn) \<Longrightarrow>
     send_outgoing B net n ps t = (map (Pair (endpoint t)) ds, t\<lparr>tunn := tn\<rparr>)"
proof (induction ps arbitrary: n t ds)
  case (Cons p ps)
  have net: "net n" "\<forall>i < length ps. net (Suc n + i)"
    using Cons.prems(1) by (auto dest: spec[of _ 0] spec[of _ "Suc _"])
  obtain r tn1 where e: "encapsulate B (tunn t) p = (r, tn1)" by (cases "encapsulate B (tunn t) p")
  obtain es tn2 where es: "encapsulated B ps tn1 = (es, tn2)" by (cases "encapsulated B ps tn1")
  from Cons.IH[OF net(2), of "t\<lparr>tunn := tn1\<rparr>" es] Cons.prems(2) es e net(1) show ?case
    by (cases r) (auto simp: tunnel_send_def)
qed simp

lemma send_outgoing_endpoint: "endpoint (snd (send_outgoing B net n ps t)) = endpoint t"
proof (induction ps arbitrary: n t)
  case (Cons p ps)
  obtain ok ds t' where s: "tunnel_send B (net n) p t = (ok, ds, t')" by (cases "tunnel_send B (net n) p t")
  then have "endpoint t' = endpoint t"
    by (auto simp: tunnel_send_def split: prod.splits tunn_result.splits if_splits)
  with s Cons[of "Suc n" t'] show ?case by (auto split: bool.splits prod.splits)
qed simp

section \<open>The watchdog\<close>

lemma bounce_cases:
  assumes "bounce B cfg watchdog p s = (b, s')"
  shows "\<exists>ok. b = Some (Bounce watchdog (p_at p) (p_done p) ok) \<and> fw_healthy s' = (if ok then p_done p else fw_healthy s)
    \<and> ok = (rebuild_tunnel B (p_lookup p) (p_bound p) cfg \<noteq> None)
    \<and> fw_tunnel s' = (case rebuild_tunnel B (p_lookup p) (p_bound p) cfg of Some t \<Rightarrow> t | None \<Rightarrow> fw_tunnel s)
    \<and> fw_stack s' = fw_stack s \<and> fw_device s' = fw_device s \<and> fw_health s' = fw_health s"
  using assms by (auto simp: bounce_def split: option.splits)

lemma timer_arm_cases:
  assumes "timer_arm B cfg p net s = (b, s')"
  obtains (fresh) "b = Some (Fresh (p_at p))" "fw_healthy s' = p_at p"
  | (bounced) ok where "b = Some (Bounce True (p_at p) (p_done p) ok)" "fw_healthy s + rehandshake_after < p_at p"
      "fw_healthy s' = (if ok then p_done p else fw_healthy s)"
  | (nothing) "b = None" "fw_healthy s' = fw_healthy s"
proof -
  obtain x y t where u: "tunnel_update_timers B net (fw_tunnel s) = (x, y, t)" by (cases "tunnel_update_timers B net (fw_tunnel s)")
  let ?s1 = "s\<lparr>fw_tunnel := t, fw_health := health_set (p_at p) (last_handshake_age B t) (fw_health s)\<rparr>"
  have def: "timer_arm B cfg p net s = (if is_fresh (last_handshake_age B t) then (Some (Fresh (p_at p)), ?s1\<lparr>fw_healthy := p_at p\<rparr>)
      else if rehandshake_after < elapsed (p_at p) (fw_healthy s) then bounce B cfg True p ?s1 else (None, ?s1))"
    by (simp add: timer_arm_def u Let_def)
  show thesis
  proof (cases "is_fresh (last_handshake_age B t)")
    case True
    with def assms fresh show thesis by auto
  next
    case stale: False
    show thesis
    proof (cases "rehandshake_after < elapsed (p_at p) (fw_healthy s)")
      case True
      with def stale assms have "bounce B cfg True p ?s1 = (b, s')" by simp
      from bounce_cases[OF this] True bounced show thesis by (auto simp: elapsed_def)
    next
      case False
      show thesis by (rule nothing) (use def stale False assms in auto)
    qed
  qed
qed

lemma interrupt_keeps:
  assumes "interrupt B p s = Some s'"
  shows "endpoint (fw_tunnel s') = endpoint (fw_tunnel s)" and "fw_healthy s' = fw_healthy s"
    and "fw_stack s' = fw_stack s" and "fw_device s' = fw_device s"
proof -
  have "endpoint t = endpoint (fw_tunnel s)" if "drop_recv B (p_cut p) (fw_tunnel s) = Some t" for t
    using that by (auto simp: drop_recv_def split: option.splits prod.splits tunn_result.splits)
  then show "endpoint (fw_tunnel s') = endpoint (fw_tunnel s)" "fw_healthy s' = fw_healthy s"
    "fw_stack s' = fw_stack s" "fw_device s' = fw_device s"
    using assms by (auto simp: interrupt_def split: arm.splits)
qed

text \<open>What a pass does to the time of the last sign of health.\<close>

lemma loop_pass_cases:
  assumes "loop_pass T B cfg p s = Some (b, s')"
  obtains (fresh) "b = Some (Fresh (p_at p))" "fw_healthy s' = p_at p"
  | (bounced) w ok where "b = Some (Bounce w (p_at p) (p_done p) ok)" "w \<longrightarrow> fw_healthy s + rehandshake_after < p_at p"
      "fw_healthy s' = (if ok then p_done p else fw_healthy s)"
  | (nothing) "b = None" "fw_healthy s' = fw_healthy s"
proof -
  obtain sent s0 s1 where pump: "pump T B p s = Some (sent, s0)" "interrupt B p s0 = Some s1" and arm: "select_arm T B cfg p s1 = Some (b, s')"
    using assms by (auto simp: loop_pass_def split: option.splits)
  have "fw_healthy s0 = fw_healthy s"
    using pump(1) by (auto simp: pump_def split: option.splits prod.splits)
  with interrupt_keeps(2)[OF pump(2)] have h: "fw_healthy s1 = fw_healthy s" by simp
  show thesis
  proof (cases "p_arm p")
    case (Timer_tick net)
    with arm have "timer_arm B cfg p net s1 = (b, s')" by (simp add: select_arm_def)
    then show thesis
    proof (cases rule: timer_arm_cases)
      case nothing
      with h show thesis by (intro that(3)) simp_all
    qed (use h fresh bounced in auto)
  next
    case (Inbound dg net)
    with arm have i: "inbound_arm B cfg p dg net s1 = Some (b, s')" by (simp add: select_arm_def)
    show thesis
    proof (cases b)
      case None
      show thesis
        by (rule nothing) (use None i h in \<open>auto simp: inbound_arm_def bounce_def split: option.splits prod.splits recv_result.splits\<close>)
    next
      case (Some x)
      with i obtain t where "bounce B cfg False p (s1\<lparr>fw_tunnel := t\<rparr>) = (b, s')"
        by (auto simp: inbound_arm_def split: option.splits prod.splits recv_result.splits)
      from bounce_cases[OF this] obtain ok where ok: "b = Some (Bounce False (p_at p) (p_done p) ok)"
          "fw_healthy s' = (if ok then p_done p else fw_healthy (s1\<lparr>fw_tunnel := t\<rparr>))" by blast
      show thesis by (rule bounced[of False ok]) (use ok h in simp_all)
    qed
  next
    case (Open_request slot)
    show thesis by (rule nothing) (use Open_request arm h in \<open>auto simp: select_arm_def\<close>)
  next
    case Woken
    show thesis by (rule nothing) (use Woken arm h in \<open>auto simp: select_arm_def\<close>)
  qed
qed

section \<open>Runs of the loop\<close>

text \<open>
  Between two passes a stream may use its socket. A pass or a stream operation that does not return leaves
  nothing behind; it would be the last of the run.
\<close>

datatype ('s, 'addr) event = Loop "('s, 'addr) pass" | Stream "'s stack_op" instant

definition event_apply ::
  "'s tcp_lib \<Rightarrow> ('t, 'key) tunn_lib \<Rightarrow> ('key, 'addr) wg_config \<Rightarrow> ('s, 'addr) event \<Rightarrow> ('s, 't, 'addr) fwd
     \<Rightarrow> (beat option \<times> ('s, 't, 'addr) fwd) option" where
  "event_apply T B cfg e s =
     (case e of
        Loop p \<Rightarrow> loop_pass T B cfg p s
      | Stream op _ \<Rightarrow> map_option (\<lambda>st. (None, s\<lparr>fw_stack := st\<rparr>)) (stack_apply T op (fw_stack s)))"

definition event_call ::
  "'s tcp_lib \<Rightarrow> ('t, 'key) tunn_lib \<Rightarrow> ('key, 'addr) wg_config \<Rightarrow> ('s, 'addr) event \<Rightarrow> ('s, 't, 'addr) fwd
     \<Rightarrow> beat option \<times> ('s, 't, 'addr) fwd" where
  "event_call T B cfg e s = (case event_apply T B cfg e s of None \<Rightarrow> (None, s) | Some r \<Rightarrow> r)"

fun event_at :: "('s, 'addr) event \<Rightarrow> instant" where
  "event_at (Loop p) = p_at p"
| "event_at (Stream op t) = t"

fun event_done :: "('s, 'addr) event \<Rightarrow> instant" where
  "event_done (Loop p) = p_done p"
| "event_done (Stream op t) = t"

fun beat_begins :: "beat \<Rightarrow> instant" where
  "beat_begins (Fresh t) = t"
| "beat_begins (Bounce w t d ok) = t"

text \<open>The instant from which the tunnel counts as healthy: a fresh handshake, or a bounce that succeeded.\<close>

fun healthy_from :: "beat \<Rightarrow> instant option" where
  "healthy_from (Fresh t) = Some t"
| "healthy_from (Bounce w t d ok) = (if ok then Some d else None)"

fun by_watchdog :: "beat \<Rightarrow> bool" where
  "by_watchdog (Fresh t) = False"
| "by_watchdog (Bounce w t d ok) = w"

lemma event_call_cases:
  assumes "event_call T B cfg e s = (b, s')"
  obtains (fresh) "b = Some (Fresh (event_at e))" "fw_healthy s' = event_at e"
  | (bounced) w ok where "b = Some (Bounce w (event_at e) (event_done e) ok)" "w \<longrightarrow> fw_healthy s + rehandshake_after < event_at e"
      "fw_healthy s' = (if ok then event_done e else fw_healthy s)"
  | (nothing) "b = None" "fw_healthy s' = fw_healthy s"
proof (cases "event_apply T B cfg e s")
  case None
  show thesis by (rule nothing) (use None assms in \<open>auto simp: event_call_def\<close>)
next
  case (Some r)
  with assms have a: "event_apply T B cfg e s = Some (b, s')" by (simp add: event_call_def)
  show thesis
  proof (cases e)
    case (Loop p)
    with a have "loop_pass T B cfg p s = Some (b, s')" by (simp add: event_apply_def)
    then show thesis
    proof (cases rule: loop_pass_cases)
      case fresh
      then show thesis by (intro that(1)) (simp_all add: Loop)
    next
      case (bounced w ok)
      then show thesis by (intro that(2)[of w ok]) (simp_all add: Loop)
    next
      case nothing
      then show thesis by (intro that(3)) simp_all
    qed
  next
    case (Stream op t)
    show thesis by (rule nothing) (use Stream a in \<open>auto simp: event_apply_def\<close>)
  qed
qed

interpretation watchdog: cooldown_gate "event_call T B cfg" event_at event_done "\<lambda>s. Some (fw_healthy s)" rehandshake_after
    beat_begins "\<lambda>b. healthy_from b \<noteq> None" "\<lambda>b. the (healthy_from b)" by_watchdog
proof
  show "event_at c \<le> beat_begins a" if "event_call T B cfg c s = (Some a, s')" for c s a s'
    using that by (cases rule: event_call_cases) auto
  show "f + rehandshake_after \<le> beat_begins a"
    if "event_call T B cfg c s = (Some a, s')" "by_watchdog a" "Some (fw_healthy s) = Some f" for c s a s' f
    using that(1) by (cases rule: event_call_cases) (use that(2,3) in auto)
  show "\<exists>f. Some (fw_healthy s') = Some f \<and> the (healthy_from a) \<le> f"
    if "event_call T B cfg c s = (Some a, s')" "healthy_from a \<noteq> None" "event_at c \<le> event_done c" for c s a s'
    using that(1) by (cases rule: event_call_cases) (use that(2) in \<open>auto split: if_splits\<close>)
  show "(\<exists>f'. Some (fw_healthy s') = Some f' \<and> f \<le> f') \<or> f + rehandshake_after \<le> event_done c"
    if "event_call T B cfg c s = (r, s')" "Some (fw_healthy s) = Some f" "event_at c \<le> event_done c" "f \<le> event_at c" for c s r s' f
    using that(1) by (cases rule: event_call_cases) (use that(2-4) in \<open>auto split: if_splits\<close>)
  show "Some (fw_healthy s') = Some (fw_healthy s) \<or> (\<forall>f. Some (fw_healthy s') = Some f \<longrightarrow> f \<le> event_done c)"
    if "event_call T B cfg c s = (r, s')" "event_at c \<le> event_done c" for c s r s'
    using that(1) by (cases rule: event_call_cases) (use that(2) in \<open>auto split: if_splits\<close>)
qed

lemma healthy_after_run:
  "fw_healthy (run_ops (\<lambda>e s. snd (event_call T B cfg e s)) evs s) = fw_healthy s
   \<or> (\<exists>b \<in> set (attempts (event_call T B cfg) evs s).
        healthy_from b = Some (fw_healthy (run_ops (\<lambda>e s. snd (event_call T B cfg e s)) evs s)))"
proof (induction evs arbitrary: s)
  case (Cons e evs)
  obtain b s1 where c: "event_call T B cfg e s = (b, s1)" by (cases "event_call T B cfg e s")
  then have "fw_healthy s1 = fw_healthy s \<or> (\<exists>x. b = Some x \<and> healthy_from x = Some (fw_healthy s1))"
    by (cases rule: event_call_cases) auto
  with Cons[of s1] c show ?case by (cases b) auto
qed simp

section \<open>Nothing panics\<close>

text \<open>What is known of the session: successive empty calls come to an end.\<close>

definition session_flushes :: "('t, 'key) tunn_lib \<Rightarrow> bool" where
  "session_flushes B \<longleftrightarrow> (\<forall>tn. \<exists>ds tn'. queued B tn ds tn')"

lemma drain_returns:
  assumes "session_flushes B"
  shows "drain B net i d tn \<noteq> None"
proof -
  obtain ds tn' where q: "queued B tn ds tn'" using assms unfolding session_flushes_def by blast
  show ?thesis by (rule drain_result[OF q, of net i d]) simp
qed

lemma recv_returns:
  assumes "session_flushes B"
  shows "tunnel_recv B datagram net t \<noteq> None"
proof (cases datagram)
  case (Some dg)
  obtain r tn where d: "decapsulate B (tunn t) dg = (r, tn)" by (cases "decapsulate B (tunn t) dg")
  show ?thesis
  proof (cases r)
    case (Write_to_network x)
    obtain ds tn' where "drain B net 0 x tn = Some (ds, tn')"
      using drain_returns[OF assms, of net 0 x tn] by auto
    with d Some Write_to_network show ?thesis by (simp add: tunnel_recv_def)
  qed (use d Some in \<open>simp_all add: tunnel_recv_def\<close>)
qed (simp add: tunnel_recv_def)

lemma drop_recv_returns:
  assumes "session_flushes B"
  shows "drop_recv B broken t \<noteq> None"
proof (cases broken)
  case (Some c)
  obtain dg n where c: "c = (dg, n)" by fastforce
  obtain r tn where d: "decapsulate B (tunn t) dg = (r, tn)" by fastforce
  show ?thesis
    using drain_returns[OF assms] by (cases r) (simp_all add: drop_recv_def Some c d)
qed (simp add: drop_recv_def)

text \<open>
  A read dropped while its first answer still waits for the socket has told the session of a datagram whose
  answer never leaves: the session moves on and nothing was sent.
\<close>

lemma interrupted_read_loses_the_answer:
  assumes "decapsulate B (tunn t) datagram = (Write_to_network d, tn)"
  shows "drop_recv B (Some (datagram, 0)) t = Some (t\<lparr>tunn := tn\<rparr>)"
    and "tunnel_recv B (Some datagram) (\<lambda>_. False) t = Some (Recv_nothing, [], t\<lparr>tunn := tn\<rparr>)"
proof -
  have "drain B net 0 d tn = Some ([], tn)" if "\<not> net 0" for net
    using that by (subst drain.simps) simp
  with assms show "drop_recv B (Some (datagram, 0)) t = Some (t\<lparr>tunn := tn\<rparr>)"
    "tunnel_recv B (Some datagram) (\<lambda>_. False) t = Some (Recv_nothing, [], t\<lparr>tunn := tn\<rparr>)"
    by (simp_all add: drop_recv_def tunnel_recv_def)
qed

lemma interrupt_returns: "session_flushes B \<Longrightarrow> interrupt B p s \<noteq> None"
  using drop_recv_returns[of B "p_cut p" "fw_tunnel s"] by (auto simp: interrupt_def split: arm.splits)

definition fwd_ok :: "('s, 't, 'addr) fwd \<Rightarrow> bool" where
  "fwd_ok s \<longleftrightarrow> owned (fw_stack s) \<and> device_wf (fw_device s)"

text \<open>
  The TCP stack leaves the packet queues as its tokens do, the socket set picks a free slot, and a
  stream operation comes from a live stream.
\<close>

definition good_event :: "'s tcp_lib \<Rightarrow> ('s, 'addr) event \<Rightarrow> ('s, 't, 'addr) fwd \<Rightarrow> bool" where
  "good_event T e s \<longleftrightarrow>
     (case e of
        Loop p \<Rightarrow> device_wf (p_poll p (fw_device s))
          \<and> (case p_arm p of
               Open_request slot \<Rightarrow>
                 (case stack_pass T (p_polled p) (p_reaped_at p) (fw_stack s) of Some st \<Rightarrow> sockets st slot = None | None \<Rightarrow> True)
             | _ \<Rightarrow> True)
      | Stream op _ \<Rightarrow> possible op (fw_stack s) \<and> (\<forall>polled now. op \<noteq> Pass polled now) \<and> (\<forall>slot. op \<noteq> Open slot))"

inductive fwd_step :: "'s tcp_lib \<Rightarrow> ('t, 'key) tunn_lib \<Rightarrow> ('key, 'addr) wg_config \<Rightarrow> ('s, 't, 'addr) fwd \<Rightarrow> ('s, 't, 'addr) fwd \<Rightarrow> bool"
  for T B cfg where
  fwd_stepI: "good_event T e s \<Longrightarrow> event_apply T B cfg e s = Some (b, s') \<Longrightarrow> fwd_step T B cfg s s'"

inductive_cases fwd_stepE: "fwd_step T B cfg s s'"

lemma pump_returns:
  assumes "fwd_ok s" and "device_wf (p_poll p (fw_device s))"
  shows "\<exists>sent s1. pump T B p s = Some (sent, s1) \<and> fwd_ok s1 \<and> to_send (fw_device s1) = []
    \<and> stack_pass T (p_polled p) (p_reaped_at p) (fw_stack s) = Some (fw_stack s1)
    \<and> sent = fst (send_outgoing B (p_sends p) 0 (to_send (p_poll p (fw_device s))) (fw_tunnel s))"
proof -
  obtain st where st: "stack_pass T (p_polled p) (p_reaped_at p) (fw_stack s) = Some st" "owned st"
    using owned_pass[of "fw_stack s" T "p_polled p" "p_reaped_at p"] assms(1) by (auto simp: fwd_ok_def)
  obtain d where d: "take_outgoing (p_poll p (fw_device s)) = Some (to_send (p_poll p (fw_device s)), d)" "device_wf d" "to_send d = []"
    using take_outgoing_fifo[OF assms(2)] by blast
  show ?thesis
    using st d by (auto simp: pump_def fwd_ok_def split: prod.splits)
qed

lemma fwd_ok_simps [simp]:
  "fwd_ok (s\<lparr>fw_tunnel := t\<rparr>) = fwd_ok s" "fwd_ok (s\<lparr>fw_healthy := i\<rparr>) = fwd_ok s" "fwd_ok (s\<lparr>fw_health := h\<rparr>) = fwd_ok s"
  by (simp_all add: fwd_ok_def)

lemma bounce_ok: "fwd_ok (snd (bounce B cfg w p s)) = fwd_ok s"
  by (simp add: bounce_def split: option.splits)

lemma timer_ok: "fwd_ok s \<Longrightarrow> fwd_ok (snd (timer_arm B cfg p net s))"
  by (simp add: timer_arm_def Let_def bounce_ok split: prod.splits)

lemma wf_received: "device_wf d \<Longrightarrow> device_wf (enqueue_received p d)"
  by (simp add: device_wf_def enqueue_received_def pq.wf_enq)

lemma inbound_ok:
  assumes "session_flushes B" and "fwd_ok s"
  shows "\<exists>b s'. inbound_arm B cfg p dg net s = Some (b, s') \<and> fwd_ok s'"
proof -
  obtain r x t where r: "tunnel_recv B dg net (fw_tunnel s) = Some (r, x, t)"
    using recv_returns[OF assms(1), of dg net "fw_tunnel s"] by auto
  show ?thesis
  proof (cases r)
    case Recv_failed
    with r have "inbound_arm B cfg p dg net s = Some (bounce B cfg False p (s\<lparr>fw_tunnel := t\<rparr>))"
      by (simp add: inbound_arm_def)
    moreover have "fwd_ok (snd (bounce B cfg False p (s\<lparr>fw_tunnel := t\<rparr>)))"
      using assms(2) by (simp add: bounce_ok)
    ultimately show ?thesis by (cases "bounce B cfg False p (s\<lparr>fw_tunnel := t\<rparr>)") simp
  qed (use assms(2) r in \<open>auto simp: inbound_arm_def fwd_ok_def wf_received\<close>)
qed

lemma fwd_event_ok:
  assumes "session_flushes B" and "fwd_ok s" and "good_event T e s"
  shows "\<exists>b s'. event_apply T B cfg e s = Some (b, s') \<and> fwd_ok s'"
proof (cases e)
  case (Stream op t)
  with assms(3) have "possible op (fw_stack s)" by (simp add: good_event_def)
  with owned_possible[of "fw_stack s" op T] assms(2) Stream show ?thesis
    by (auto simp: event_apply_def fwd_ok_def)
next
  case (Loop p)
  with assms(3) have wf: "device_wf (p_poll p (fw_device s))" by (simp add: good_event_def)
  obtain sent s1 where s1: "pump T B p s = Some (sent, s1)" "fwd_ok s1"
      "stack_pass T (p_polled p) (p_reaped_at p) (fw_stack s) = Some (fw_stack s1)"
    using pump_returns[OF assms(2) wf] by blast
  obtain s2 where s2: "interrupt B p s1 = Some s2"
    using interrupt_returns[OF assms(1), of p s1] by auto
  note k = interrupt_keeps[OF s2]
  have ok2: "fwd_ok s2" using s1(2) k(3,4) by (simp add: fwd_ok_def)
  have e: "event_apply T B cfg e s = select_arm T B cfg p s2"
    using Loop s1(1) s2 by (simp add: event_apply_def loop_pass_def)
  show ?thesis
  proof (cases "p_arm p")
    case (Open_request slot)
    with assms(3) Loop s1(3) k(3) have "sockets (fw_stack s2) slot = None" by (simp add: good_event_def)
    with owned_open[of "fw_stack s2" slot T] ok2 Open_request show ?thesis
      by (simp add: e select_arm_def fwd_ok_def)
  next
    case (Inbound dg net)
    with inbound_ok[OF assms(1) ok2, of cfg p dg net] show ?thesis by (simp add: e select_arm_def)
  next
    case (Timer_tick net)
    with timer_ok[OF ok2, of B cfg p net] show ?thesis
      by (cases "timer_arm B cfg p net s2") (simp add: e select_arm_def)
  next
    case Woken
    with ok2 show ?thesis by (simp add: e select_arm_def)
  qed
qed

lemma fwd_start_ok: "fwd_start B bound made now cfg = Some s \<Longrightarrow> fwd_ok s"
  by (auto simp: fwd_start_def fwd_ok_def owned_new device_wf_def device_new_def token_new_def pq.wf_emp split: option.splits)

text \<open>A tick that publishes a stale age past the watchdog's patience is a bounce of the session at hand.\<close>

lemma is_fresh_published: "is_fresh age \<longleftrightarrow> hs_secs (health_set now age h) < 180"
  by (auto simp: is_fresh_def health_set_def secs_of_age_def Let_def no_handshake_def handshake_stale_secs_def split: option.splits)

lemma timer_arm_stale:
  assumes "timer_arm B cfg p net s = (b, s')" and "\<not> hs_secs (fw_health s') < 180" and "fw_healthy s + from_secs 30 < p_at p"
  obtains t h where "endpoint t = endpoint (fw_tunnel s)" "bounce B cfg True p (s\<lparr>fw_tunnel := t, fw_health := h\<rparr>) = (b, s')"
proof -
  obtain x y t where u: "tunnel_update_timers B net (fw_tunnel s) = (x, y, t)" by (cases "tunnel_update_timers B net (fw_tunnel s)")
  let ?h = "health_set (p_at p) (last_handshake_age B t) (fw_health s)"
  have stale: "\<not> is_fresh (last_handshake_age B t)"
  proof
    assume f: "is_fresh (last_handshake_age B t)"
    with assms(1) u have "fw_health s' = ?h" by (auto simp: timer_arm_def Let_def)
    with f assms(2) show False using is_fresh_published[of "last_handshake_age B t" "p_at p" "fw_health s"] by simp
  qed
  have late: "rehandshake_after < elapsed (p_at p) (fw_healthy s)"
    using assms(3) unfolding rehandshake_after_def elapsed_def by linarith
  have "endpoint t = endpoint (fw_tunnel s)"
    using u by (auto simp: tunnel_update_timers_def split: prod.splits tunn_result.splits if_splits)
  moreover have "bounce B cfg True p (s\<lparr>fw_tunnel := t, fw_health := ?h\<rparr>) = (b, s')"
    using assms(1) u stale late by (simp add: timer_arm_def Let_def)
  ultimately show thesis by (rule that)
qed

lemma pump_tunnel:
  assumes "pump T B p s = Some (sent, s1)"
  shows "endpoint (fw_tunnel s1) = endpoint (fw_tunnel s)" and "fw_healthy s1 = fw_healthy s"
proof -
  obtain pkts dev where "take_outgoing (p_poll p (fw_device s)) = Some (pkts, dev)"
      and t: "fw_tunnel s1 = snd (send_outgoing B (p_sends p) 0 pkts (fw_tunnel s))" "fw_healthy s1 = fw_healthy s"
    using assms by (auto simp: pump_def split: option.splits prod.splits)
  show "endpoint (fw_tunnel s1) = endpoint (fw_tunnel s)" "fw_healthy s1 = fw_healthy s"
    by (simp_all add: t send_outgoing_endpoint)
qed

interpretation forwarder: step_invariant "\<lambda>s. fwd_start B bound made now cfg = Some s"
    "\<lambda>s s'. session_flushes B \<and> fwd_step T B cfg s s'" fwd_ok
proof
  show "fwd_ok s" if "fwd_start B bound made now cfg = Some s" for s
    using that by (rule fwd_start_ok)
  show "fwd_ok t" if "session_flushes B \<and> fwd_step T B cfg s t" "fwd_ok s" for s t
  proof -
    from that(1) obtain e b where e: "good_event T e s" "event_apply T B cfg e s = Some (b, t)" by (blast elim: fwd_stepE)
    from that fwd_event_ok[of B s T e cfg] e show ?thesis by auto
  qed
qed

section \<open>Properties\<close>

text \<open>C33
  The composed forwarder never dies: from its start, through any interleaving of passes of its loop with
  the reads, writes, shutdowns and drops of live streams, every next pass (whichever arm it takes,
  whatever datagram arrives, resolver and network failing or not) and every stream operation returns
  without a panic, the packet queues stay well formed and at most 128 sockets are open.\<close>

theorem forwarder_never_panics:
  assumes "session_flushes B"
    and "reach (\<lambda>s. fwd_start B bound made now cfg = Some s) (\<lambda>s s'. session_flushes B \<and> fwd_step T B cfg s s') s"
  shows "(\<forall>e. good_event T e s \<longrightarrow> event_apply T B cfg e s \<noteq> None)
    \<and> device_wf (fw_device s) \<and> card (dom (sockets (fw_stack s))) \<le> 128"
proof -
  have ok: "fwd_ok s" using assms(2) by (rule forwarder.reach_inv)
  have "event_apply T B cfg e s \<noteq> None" if "good_event T e s" for e
    using fwd_event_ok[OF assms(1) ok that, of cfg] by auto
  moreover have "card (dom (sockets (fw_stack s))) \<le> 128"
    using ok distinct_card[of "handles (fw_stack s)"] by (simp add: fwd_ok_def owned_def max_sockets_def)
  ultimately show ?thesis using ok by (simp add: fwd_ok_def)
qed

text \<open>C34
  The watchdog is patient: in any run of the loop with stream operations in between, it bounces the
  tunnel only 30 seconds or more after the loop began, after every fresh handshake a timer tick saw, and
  after every bounce that succeeded, its own or one after a failed read.\<close>

theorem tunnel_bounces_are_spaced:
  assumes "timed event_at event_done (fw_healthy s) evs"
  shows "sorted_wrt (\<lambda>a b. \<forall>m. healthy_from a = Some m \<and> by_watchdog b \<longrightarrow> m + from_secs 30 \<le> beat_begins b)
      (attempts (event_call T B cfg) evs s)
    \<and> (\<forall>b \<in> set (attempts (event_call T B cfg) evs s). by_watchdog b \<longrightarrow> fw_healthy s + from_secs 30 \<le> beat_begins b)"
proof
  have "sorted_wrt (watchdog.spaced) (attempts (event_call T B cfg) evs s)"
    using assms by (rule watchdog.attempts_spaced) simp
  then show "sorted_wrt (\<lambda>a b. \<forall>m. healthy_from a = Some m \<and> by_watchdog b \<longrightarrow> m + from_secs 30 \<le> beat_begins b)
      (attempts (event_call T B cfg) evs s)"
    unfolding watchdog.spaced_def by (rule sorted_wrt_mono_rel[rotated]) (auto simp: rehandshake_after_def)
  show "\<forall>b \<in> set (attempts (event_call T B cfg) evs s). by_watchdog b \<longrightarrow> fw_healthy s + from_secs 30 \<le> beat_begins b"
    by (intro ballI impI watchdog.protected[OF assms, unfolded rehandshake_after_def]) auto
qed

text \<open>C35
  A dead tunnel is bounced: if a timer tick comes more than 30 seconds after the loop began and after
  every fresh handshake and successful bounce of the run before it, and the handshake age it publishes is
  not fresh, it replaces the session by a new one, whether or not the endpoint's name resolves; where it
  resolves the new session is towards the address it resolves to then, so that a peer that moved is
  found, and where it does not a tunnel still at its startup address stays there. If no socket can be bound
  the tick keeps the old endpoint and the clock as they are, so that the next tick tries again.\<close>

theorem dead_tunnel_is_bounced:
  assumes "p_arm p = Timer_tick net" and "s = run_ops (\<lambda>e s. snd (event_call T B cfg e s)) evs s0"
    and "loop_pass T B cfg p s = Some (b, s')" and "\<not> hs_secs (fw_health s') < 180"
    and "fw_healthy s0 + from_secs 30 < p_at p"
    and "\<forall>a \<in> set (attempts (event_call T B cfg) evs s0). \<forall>m. healthy_from a = Some m \<longrightarrow> m + from_secs 30 < p_at p"
  shows "(p_bound p \<longrightarrow> b = Some (Bounce True (p_at p) (p_done p) True) \<and> fw_healthy s' = p_done p
      \<and> tunn (fw_tunnel s') = tunn_new B (private_key cfg) (peer_public_key cfg) (persistent_keepalive cfg) 0
      \<and> (\<forall>a rest. p_lookup p (endpoint_host cfg) = Some (a # rest) \<longrightarrow> endpoint (fw_tunnel s') = a)
      \<and> ((\<forall>a rest. p_lookup p (endpoint_host cfg) \<noteq> Some (a # rest)) \<and> endpoint (fw_tunnel s) = cfg_endpoint cfg
           \<longrightarrow> endpoint (fw_tunnel s') = endpoint (fw_tunnel s)))
    \<and> (\<not> p_bound p \<longrightarrow> b = Some (Bounce True (p_at p) (p_done p) False) \<and> fw_healthy s' = fw_healthy s
      \<and> endpoint (fw_tunnel s') = endpoint (fw_tunnel s))"
proof -
  have late: "fw_healthy s + from_secs 30 < p_at p"
    using healthy_after_run[of T B cfg evs s0] assms(2,5,6) by auto
  obtain sent s2 s1 where pump: "pump T B p s = Some (sent, s2)" and brk: "interrupt B p s2 = Some s1"
      and "select_arm T B cfg p s1 = Some (b, s')"
    using assms(3) by (auto simp: loop_pass_def split: option.splits)
  then have "timer_arm B cfg p net s1 = (b, s')" by (simp add: select_arm_def assms(1))
  from timer_arm_stale[OF this assms(4)] late pump_tunnel[OF pump] interrupt_keeps(1,2)[OF brk]
  obtain t h where t: "endpoint t = endpoint (fw_tunnel s)" "bounce B cfg True p (s1\<lparr>fw_tunnel := t, fw_health := h\<rparr>) = (b, s')"
    by metis
  show ?thesis
    using t pump_tunnel[OF pump] interrupt_keeps(1,2)[OF brk]
    by (auto simp: bounce_def rebuild_tunnel_def tunnel_new_def resolve_endpoint_def first_of_def local_index_def Let_def
        split: option.splits list.splits if_splits)
qed

text \<open>C36
  Every packet the TCP stack queued goes through the tunnel in the pass that finds it: in a reachable
  state, while the socket takes the datagrams, a pass sends exactly what the session makes of the queued
  packets, each once, in order, to the peer, and leaves the queue empty.\<close>

theorem outgoing_packets_are_sent_in_order:
  assumes "reach (\<lambda>s. fwd_start B bound made now cfg = Some s) (\<lambda>s s'. session_flushes B \<and> fwd_step T B cfg s s') s"
    and "device_wf (p_poll p (fw_device s))"
    and "encapsulated B (to_send (p_poll p (fw_device s))) (tunn (fw_tunnel s)) = (ds, tn)"
    and "\<forall>i < length (to_send (p_poll p (fw_device s))). p_sends p i"
  shows "\<exists>s1. pump T B p s = Some (map (Pair (endpoint (fw_tunnel s))) ds, s1) \<and> to_send (fw_device s1) = []"
proof -
  have "fwd_ok s" using assms(1) by (rule forwarder.reach_inv)
  from pump_returns[OF this assms(2), of T B]
  obtain sent s1 where "pump T B p s = Some (sent, s1)" "to_send (fw_device s1) = []"
      "sent = fst (send_outgoing B (p_sends p) 0 (to_send (p_poll p (fw_device s))) (fw_tunnel s))" by blast
  with send_outgoing_all[of "to_send (p_poll p (fw_device s))" "p_sends p" 0 B "fw_tunnel s" ds tn] assms(3,4) show ?thesis
    by simp
qed

section \<open>A concrete forwarder\<close>

definition a_config :: "(unit, string) wg_config" where
  "a_config = \<lparr>private_key = (), peer_public_key = (), cfg_endpoint = ''start'', endpoint_host = ''peer.example:51820'',
     address = 1, target_ip = 2, target_port = 8080, persistent_keepalive = Some 25, cfg_mtu = 1420\<rparr>"

definition at_start :: "(bool, nat, string) fwd" where
  "at_start = \<lparr>fw_stack = stack_new, fw_device = device_new (unat (1420 :: u64)), fw_tunnel = \<lparr>tunn = 0, endpoint = ''start''\<rparr>,
     fw_healthy = 0, fw_health = health_new 0\<rparr>"

lemma a_tunn_flushes: "session_flushes a_tunn"
proof -
  have "\<exists>ds. queued a_tunn n ds 0" for n
  proof (induction n)
    case 0
    show ?case by (intro exI, rule queued_none[of _ _ Tunn_done]) (simp_all add: a_tunn_def)
  next
    case (Suc n)
    then obtain ds where "queued a_tunn n ds 0" by blast
    then have "queued a_tunn (Suc n) ([of_nat (Suc n)] # ds) 0"
      by (rule queued_more[rotated]) (simp add: a_tunn_def)
    then show ?case by blast
  qed
  then show ?thesis unfolding session_flushes_def by blast
qed

lemma at_start_reach:
  "reach (\<lambda>s. fwd_start a_tunn True 0 0 a_config = Some s) (\<lambda>s s'. session_flushes a_tunn \<and> fwd_step a_tcp a_tunn a_config s s') at_start"
  by (rule reach_init) (simp add: fwd_start_def tunnel_new_def a_config_def a_tunn_def at_start_def local_index_def)

definition a_pass :: "(bool, string) pass" where
  "a_pass = \<lparr>p_poll = \<lambda>d. d, p_polled = \<lambda>_ b. b, p_reaped_at = 0, p_sends = \<lambda>_. True, p_cut = None, p_arm = Timer_tick True,
     p_at = 31000000000, p_done = 32000000000, p_lookup = \<lambda>_. Some [''moved''], p_bound = True\<rparr>"

lemma wf_at_start: "device_wf (fw_device at_start)"
  by (simp add: at_start_def device_wf_def device_new_def token_new_def pq.wf_emp)

theorem forwarder_never_panics_witness:
  "event_apply a_tcp a_tunn a_config (Loop (a_pass\<lparr>p_arm := Inbound (Some [1]) (\<lambda>_. True)\<rparr>)) at_start \<noteq> None"
proof -
  have "good_event a_tcp (Loop (a_pass\<lparr>p_arm := Inbound (Some [1]) (\<lambda>_. True)\<rparr>)) at_start"
    using wf_at_start by (simp add: good_event_def a_pass_def)
  with forwarder_never_panics[OF a_tunn_flushes at_start_reach] show ?thesis by blast
qed

text \<open>The pass at the start of the concrete forwarder, 31 seconds in, with no handshake.\<close>

lemma a_pass_result:
  "loop_pass a_tcp a_tunn a_config a_pass at_start = Some (Some (Bounce True 31000000000 32000000000 True),
     at_start\<lparr>fw_tunnel := \<lparr>tunn = 0, endpoint = ''moved''\<rparr>, fw_healthy := 32000000000,
       fw_health := health_set 31000000000 None (health_new 0)\<rparr>)"
proof -
  have "dequeue_sent (device_new m) = Some (None, device_new m)" for m
    by (simp add: dequeue_sent_def queue_is_empty_def device_new_def token_new_def packet_queue_new_def)
  then have "take_outgoing (device_new m) = Some ([], device_new m)" for m
    by (subst take_outgoing.simps) simp
  then have "pump a_tcp a_tunn a_pass at_start = Some ([], at_start)"
    by (simp add: pump_def a_pass_def at_start_def stack_pass_def stack_new_def)
  then show ?thesis
    by (simp add: loop_pass_def interrupt_def drop_recv_def select_arm_def a_pass_def timer_arm_def tunnel_update_timers_def at_start_def a_tunn_def
        last_handshake_age_def is_fresh_def rehandshake_after_def elapsed_def from_secs_def nanos_per_sec_def bounce_def
        rebuild_tunnel_def resolve_endpoint_def first_of_def a_config_def tunnel_new_def)
qed

theorem tunnel_bounces_are_spaced_witness:
  "attempts (event_call a_tcp a_tunn a_config) [Loop a_pass] at_start = [Bounce True 31000000000 32000000000 True]
   \<and> fw_healthy at_start + from_secs 30 \<le> 31000000000"
proof -
  have t: "timed event_at event_done (fw_healthy at_start) [Loop a_pass]"
    by (simp add: at_start_def a_pass_def)
  have l: "attempts (event_call a_tcp a_tunn a_config) [Loop a_pass] at_start = [Bounce True 31000000000 32000000000 True]"
    by (simp add: event_call_def event_apply_def a_pass_result)
  from tunnel_bounces_are_spaced[OF t, of a_tcp a_tunn a_config]
  have "\<forall>b \<in> set [Bounce True 31000000000 32000000000 True]. by_watchdog b \<longrightarrow> fw_healthy at_start + from_secs 30 \<le> beat_begins b"
    unfolding l by (rule conjunct2)
  with l show ?thesis by simp
qed

theorem dead_tunnel_is_bounced_witness:
  "\<exists>b s'. loop_pass a_tcp a_tunn a_config a_pass at_start = Some (b, s') \<and> endpoint (fw_tunnel s') = ''moved''"
proof -
  have arm: "p_arm a_pass = Timer_tick True" by (simp add: a_pass_def)
  have run: "at_start = run_ops (\<lambda>e s. snd (event_call a_tcp a_tunn a_config e s)) [] at_start" by simp
  have stale: "\<not> hs_secs (fw_health (at_start\<lparr>fw_tunnel := \<lparr>tunn = 0, endpoint = ''moved''\<rparr>, fw_healthy := 32000000000,
       fw_health := health_set 31000000000 None (health_new 0)\<rparr>)) < 180"
    by (simp add: health_set_def secs_of_age_def no_handshake_def Let_def)
  have "fw_healthy at_start + from_secs 30 < p_at a_pass"
    by (simp add: at_start_def a_pass_def from_secs_def nanos_per_sec_def)
  from dead_tunnel_is_bounced[OF arm run a_pass_result stale this]
  have "endpoint (fw_tunnel (at_start\<lparr>fw_tunnel := \<lparr>tunn = 0, endpoint = ''moved''\<rparr>, fw_healthy := 32000000000,
       fw_health := health_set 31000000000 None (health_new 0)\<rparr>)) = ''moved''"
    by (simp add: a_pass_def)
  with a_pass_result show ?thesis by blast
qed

definition two_queued :: device where
  "two_queued = (device_new 1420)\<lparr>send := \<lparr>tok_queue = enqueue [8] (enqueue [9] packet_queue_new), tok_buffer = []\<rparr>\<rparr>"

theorem outgoing_packets_are_sent_in_order_witness:
  "\<exists>s1. pump a_tcp a_tunn (a_pass\<lparr>p_poll := \<lambda>_. two_queued\<rparr>) at_start = Some ([(''start'', [9]), (''start'', [8])], s1)"
proof -
  have q: "to_send two_queued = [[9], [8]]"
    by (simp add: to_send_def two_queued_def pq.items_enq pq.wf_enq pq.wf_emp pq.items_emp)
  have wf: "device_wf two_queued"
    by (simp add: device_wf_def two_queued_def device_new_def token_new_def pq.wf_enq pq.wf_emp)
  have e: "encapsulated a_tunn [[9], [8]] 0 = ([[9], [8]], 0)"
    by (simp add: a_tunn_def)
  have "\<exists>s1. pump a_tcp a_tunn (a_pass\<lparr>p_poll := \<lambda>_. two_queued\<rparr>) at_start
      = Some (map (Pair (endpoint (fw_tunnel at_start))) [[9], [8]], s1) \<and> to_send (fw_device s1) = []"
    by (rule outgoing_packets_are_sent_in_order[OF at_start_reach]) (use q wf e in \<open>simp_all add: at_start_def a_pass_def\<close>)
  then show ?thesis by (auto simp: at_start_def)
qed

end
