(* ===== verification/Streams.thy ===== *)
theory Streams
  imports Sockets
begin

text \<open>
  What one connection of \<open>src/src/wg/forward.rs\<close> sees while all share the socket set: the stack task's passes,
  opened and dropped connections, and the polls of every stream run in any order, and handles of the set are
  used again. A run of operations with their replies is compared with the same stream on a socket of its own.
\<close>

section \<open>Runs with their replies\<close>

datatype reply = No_reply | Read_reply "packet poll" | Write_reply "(io_error + nat) poll" | Shutdown_reply "unit poll"

fun stack_do :: "'s tcp_lib \<Rightarrow> 's stack_op \<Rightarrow> 's stack \<Rightarrow> (reply \<times> 's stack) option" where
  "stack_do T (Read room h) s = map_option (\<lambda>(r, _, s1). (Read_reply r, s1)) (poll_read T room h s)"
| "stack_do T (Write bytes h) s = map_option (\<lambda>(r, _, s1). (Write_reply r, s1)) (poll_write T bytes h s)"
| "stack_do T (Shutdown h) s = map_option (\<lambda>(r, _, s1). (Shutdown_reply r, s1)) (poll_shutdown T h s)"
| "stack_do T op s = map_option (Pair No_reply) (stack_apply T op s)"

lemma stack_do_apply: "map_option snd (stack_do T op s) = stack_apply T op s"
  by (cases op) (auto simp: option.map_comp comp_def case_prod_unfold option.map_ident)

fun stack_run :: "'s tcp_lib \<Rightarrow> 's stack_op list \<Rightarrow> 's stack \<Rightarrow> (reply list \<times> 's stack) option" where
  "stack_run T [] s = Some ([], s)"
| "stack_run T (op # ops) s =
     (case stack_do T op s of None \<Rightarrow> None | Some (r, s1) \<Rightarrow> map_option (\<lambda>(rs, s2). (r # rs, s2)) (stack_run T ops s1))"

text \<open>Each operation is one that its stream, or the stack task, can do when its turn comes.\<close>

fun possible_run :: "'s tcp_lib \<Rightarrow> 's stack_op list \<Rightarrow> 's stack \<Rightarrow> bool" where
  "possible_run T [] s = True"
| "possible_run T (op # ops) s \<longleftrightarrow> possible op s \<and> (\<forall>s1. stack_apply T op s = Some s1 \<longrightarrow> possible_run T ops s1)"

section \<open>A stream on its own\<close>

text \<open>One operation as the socket of \<open>h\<close> sees it; those of other streams it does not see.\<close>

fun alone :: "'s tcp_lib \<Rightarrow> handle \<Rightarrow> 's stack_op \<Rightarrow> 's \<Rightarrow> reply list \<times> 's" where
  "alone T h (Pass polled now) sock = ([], polled h sock)"
| "alone T h (Open slot) sock = ([], sock)"
| "alone T h (Read room k) sock = (if k = h then (case read_socket T room sock of (r, _, sock') \<Rightarrow> ([Read_reply r], sock')) else ([], sock))"
| "alone T h (Write bytes k) sock = (if k = h then (case write_socket T bytes sock of (r, _, sock') \<Rightarrow> ([Write_reply r], sock')) else ([], sock))"
| "alone T h (Shutdown k) sock = (if k = h then ([Shutdown_reply (Ready ())], tcp_close T sock) else ([], sock))"
| "alone T h (Drop now k) sock = ([], sock)"

fun alone_run :: "'s tcp_lib \<Rightarrow> handle \<Rightarrow> 's stack_op list \<Rightarrow> 's \<Rightarrow> reply list \<times> 's" where
  "alone_run T h [] sock = ([], sock)"
| "alone_run T h (op # ops) sock =
     (case alone T h op sock of (rs, sock1) \<Rightarrow> (case alone_run T h ops sock1 of (rs', sock2) \<Rightarrow> (rs @ rs', sock2)))"

text \<open>The polls of a stream, and the replies to them among those of a run.\<close>

fun polls :: "handle \<Rightarrow> 's stack_op \<Rightarrow> bool" where
  "polls h (Read _ k) = (k = h)"
| "polls h (Write _ k) = (k = h)"
| "polls h (Shutdown k) = (k = h)"
| "polls h _ = False"

definition replies_to :: "handle \<Rightarrow> 's stack_op list \<Rightarrow> reply list \<Rightarrow> reply list" where
  "replies_to h ops rs = map snd (filter (\<lambda>(op, _). polls h op) (zip ops rs))"

lemma replies_to_simps [simp]:
  "replies_to h [] rs = []" "replies_to h (op # ops) (r # rs) = (if polls h op then r # replies_to h ops rs else replies_to h ops rs)"
  by (simp_all add: replies_to_def)

fun drops :: "handle \<Rightarrow> 's stack_op \<Rightarrow> bool" where
  "drops h (Drop _ k) = (k = h)"
| "drops h _ = False"

section \<open>One operation\<close>

lemma with_socket_at:
  "with_socket k f s = Some (r, wake, s1) \<Longrightarrow>
     sockets s1 h = (if h = k then map_option (\<lambda>sock. snd (snd (f sock))) (sockets s k) else sockets s h) \<and> owners s1 = owners s
   \<and> (\<exists>sock. sockets s k = Some sock \<and> r = fst (f sock))"
  by (auto simp: with_socket_def split: option.splits prod.splits)

text \<open>An operation does to the socket of a live stream what it would do to it alone.\<close>

lemma stack_do_alone:
  assumes o: "owned s" and h: "h \<in> set (owners s)" and p: "possible op s" and nd: "\<not> drops h op"
    and d: "stack_do T op s = Some (r, s1)" and sock: "sockets s h = Some sock"
  shows "h \<in> set (owners s1) \<and> sockets s1 h = Some (snd (alone T h op sock))
    \<and> fst (alone T h op sock) = (if polls h op then [r] else [])"
proof (cases op)
  case (Pass polled now)
  have "hm_get (abandoned s) h = None" using o h unfolding owned_def by blast
  then have k: "kept T now (\<lambda>h. map_option (polled h) (sockets s h)) (abandoned s) h" by (simp add: kept_def)
  obtain S' A' where "stack_pass T polled now s = Some (s\<lparr>handles := filter (kept T now (\<lambda>h. map_option (polled h) (sockets s h)) (abandoned s)) (handles s),
      sockets := S', abandoned := A'\<rparr>)"
    "\<forall>h. S' h = (if h \<in> set (handles s) \<and> \<not> kept T now (\<lambda>h. map_option (polled h) (sockets s h)) (abandoned s) h then None
        else map_option (polled h) (sockets s h))"
    by (rule pass_spec[OF o])
  with d k h sock show ?thesis by (auto simp: Pass)
next
  case (Open slot)
  with p sock have "slot \<noteq> h" by auto
  with d h sock show ?thesis by (auto simp: Open open_socket_def Let_def split: if_splits option.splits)
next
  case (Drop now k)
  with nd have "k \<noteq> h" by simp
  with d h sock show ?thesis
    by (auto simp: Drop drop_stream_def with_socket_def in_set_remove1 split: option.splits)
next
  case (Read room k)
  with d obtain wake where "with_socket k (read_socket T room) s = Some (case r of Read_reply x \<Rightarrow> x, wake, s1)" "r = Read_reply (case r of Read_reply x \<Rightarrow> x)"
    by (auto simp: poll_read_def)
  from with_socket_at[OF this(1), of h] this(2) h sock show ?thesis
    by (auto simp: Read split: prod.splits)
next
  case (Write bytes k)
  with d obtain wake where "with_socket k (write_socket T bytes) s = Some (case r of Write_reply x \<Rightarrow> x, wake, s1)" "r = Write_reply (case r of Write_reply x \<Rightarrow> x)"
    by (auto simp: poll_write_def)
  from with_socket_at[OF this(1), of h] this(2) h sock show ?thesis
    by (auto simp: Write split: prod.splits)
next
  case (Shutdown k)
  with d obtain x wake where "with_socket k (\<lambda>sock. (Ready (), True, tcp_close T sock)) s = Some (x, wake, s1)" "r = Shutdown_reply x"
    by (auto simp: poll_shutdown_def)
  from with_socket_at[OF this(1), of h] this(2) h sock show ?thesis
    by (auto simp: Shutdown)
qed

section \<open>Runs\<close>

lemma runs_alone:
  assumes "owned s" and "h \<in> set (owners s)" and "possible_run T ops s" and "list_all (\<lambda>op. \<not> drops h op) ops"
    and "sockets s h = Some sock"
  shows "\<exists>rs s'. stack_run T ops s = Some (rs, s') \<and> h \<in> set (owners s')
    \<and> sockets s' h = Some (snd (alone_run T h ops sock)) \<and> replies_to h ops rs = fst (alone_run T h ops sock)"
  using assms
proof (induction ops arbitrary: s sock)
  case (Cons op ops)
  obtain s1 where s1: "stack_apply T op s = Some s1" "owned s1"
    using owned_possible[OF Cons.prems(1), of op T] Cons.prems(3) by auto
  then obtain r where r: "stack_do T op s = Some (r, s1)"
    using stack_do_apply[of T op s] by (cases "stack_do T op s") auto
  have a: "h \<in> set (owners s1)" "sockets s1 h = Some (snd (alone T h op sock))"
      "fst (alone T h op sock) = (if polls h op then [r] else [])"
    using stack_do_alone[OF Cons.prems(1,2) _ _ r Cons.prems(5)] Cons.prems(3,4) by simp_all
  have "possible_run T ops s1" "list_all (\<lambda>op. \<not> drops h op) ops"
    using Cons.prems(3,4) s1(1) by simp_all
  from Cons.IH[OF s1(2) a(1) this a(2)] obtain rs s' where
    "stack_run T ops s1 = Some (rs, s')" "h \<in> set (owners s')"
    "sockets s' h = Some (snd (alone_run T h ops (snd (alone T h op sock))))"
    "replies_to h ops rs = fst (alone_run T h ops (snd (alone T h op sock)))" by blast
  with r a(3) show ?case by (auto simp: case_prod_unfold)
qed simp

section \<open>Bytes\<close>

text \<open>
  What a TCP socket promises its user: \<open>queued\<close> is all that was ever accepted for sending, \<open>taken\<close> all that was
  ever handed out. Sending appends a prefix of what is offered, receiving hands out more; nothing else, the
  advance of the stack included, changes either.
\<close>

definition keeps_bytes :: "('s \<Rightarrow> packet) \<Rightarrow> ('s \<Rightarrow> packet) \<Rightarrow> ('s \<Rightarrow> 's) \<Rightarrow> bool" where
  "keeps_bytes queued taken f \<longleftrightarrow> (\<forall>sock. queued (f sock) = queued sock \<and> taken (f sock) = taken sock)"

definition sends_prefix :: "'s tcp_lib \<Rightarrow> ('s \<Rightarrow> packet) \<Rightarrow> ('s \<Rightarrow> packet) \<Rightarrow> 's \<Rightarrow> packet \<Rightarrow> bool" where
  "sends_prefix T queued taken sock bytes \<longleftrightarrow>
     (case send_slice T sock bytes of
        (Some n, sock') \<Rightarrow> n \<le> length bytes \<and> queued sock' = queued sock @ take n bytes \<and> taken sock' = taken sock
      | (None, sock') \<Rightarrow> queued sock' = queued sock \<and> taken sock' = taken sock)"

definition hands_out :: "'s tcp_lib \<Rightarrow> ('s \<Rightarrow> packet) \<Rightarrow> ('s \<Rightarrow> packet) \<Rightarrow> 's \<Rightarrow> nat \<Rightarrow> bool" where
  "hands_out T queued taken sock room \<longleftrightarrow>
     (case recv_slice T sock room of
        (Some bytes, sock') \<Rightarrow> length bytes \<le> room \<and> taken sock' = taken sock @ bytes \<and> queued sock' = queued sock
      | (None, sock') \<Rightarrow> queued sock' = queued sock \<and> taken sock' = taken sock)"

definition byte_stream :: "'s tcp_lib \<Rightarrow> ('s \<Rightarrow> packet) \<Rightarrow> ('s \<Rightarrow> packet) \<Rightarrow> bool" where
  "byte_stream T queued taken \<longleftrightarrow>
     (\<forall>sock bytes. sends_prefix T queued taken sock bytes) \<and> (\<forall>sock room. hands_out T queued taken sock room)
   \<and> keeps_bytes queued taken (tcp_close T) \<and> keeps_bytes queued taken (register_recv_waker T)
   \<and> keeps_bytes queued taken (register_send_waker T)"

fun passes_keep :: "('s \<Rightarrow> packet) \<Rightarrow> ('s \<Rightarrow> packet) \<Rightarrow> handle \<Rightarrow> 's stack_op \<Rightarrow> bool" where
  "passes_keep queued taken h (Pass polled now) = keeps_bytes queued taken (polled h)"
| "passes_keep queued taken h _ = True"

text \<open>What a stream was told is written, and what it was given to read.\<close>

definition written :: "handle \<Rightarrow> 's stack_op \<Rightarrow> reply \<Rightarrow> packet" where
  "written h op r = (case (op, r) of (Write bytes k, Write_reply (Ready (Inr n))) \<Rightarrow> if k = h then take n bytes else [] | _ \<Rightarrow> [])"

definition got :: "handle \<Rightarrow> 's stack_op \<Rightarrow> reply \<Rightarrow> packet" where
  "got h op r = (case (op, r) of (Read room k, Read_reply (Ready bytes)) \<Rightarrow> if k = h then bytes else [] | _ \<Rightarrow> [])"

definition written_by :: "handle \<Rightarrow> 's stack_op list \<Rightarrow> reply list \<Rightarrow> packet" where
  "written_by h ops rs = concat (map2 (written h) ops rs)"

definition read_by :: "handle \<Rightarrow> 's stack_op list \<Rightarrow> reply list \<Rightarrow> packet" where
  "read_by h ops rs = concat (map2 (got h) ops rs)"

lemma polls_only: "\<not> polls h op \<Longrightarrow> written h op r = [] \<and> got h op r = []"
  by (auto simp: written_def got_def split: stack_op.split reply.split poll.split sum.split)

lemma read_socket_bytes:
  assumes "byte_stream T queued taken" and "read_socket T room sock = (r, wake, sock')"
  shows "queued sock' = queued sock" and "taken sock' = taken sock @ got h (Read room h) (Read_reply r)"
proof -
  have "hands_out T queued taken sock room" "keeps_bytes queued taken (register_recv_waker T)"
    using assms(1) by (simp_all add: byte_stream_def)
  with assms(2) show "queued sock' = queued sock" "taken sock' = taken sock @ got h (Read room h) (Read_reply r)"
    by (auto simp: read_socket_def hands_out_def keeps_bytes_def got_def split: if_splits option.splits prod.splits)
qed

lemma write_socket_bytes:
  assumes "byte_stream T queued taken" and "write_socket T bytes sock = (r, wake, sock')"
  shows "taken sock' = taken sock" and "queued sock' = queued sock @ written h (Write bytes h) (Write_reply r)"
proof -
  have "sends_prefix T queued taken sock bytes" "keeps_bytes queued taken (register_send_waker T)"
    using assms(1) by (simp_all add: byte_stream_def)
  with assms(2) show "taken sock' = taken sock" "queued sock' = queued sock @ written h (Write bytes h) (Write_reply r)"
    by (auto simp: write_socket_def sends_prefix_def keeps_bytes_def written_def split: if_splits option.splits prod.splits)
qed

lemma alone_bytes:
  assumes "byte_stream T queued taken" and "passes_keep queued taken h op"
    and "fst (alone T h op sock) = (if polls h op then [r] else [])"
  shows "queued (snd (alone T h op sock)) = queued sock @ written h op r"
    and "taken (snd (alone T h op sock)) = taken sock @ got h op r"
proof -
  have "queued (snd (alone T h op sock)) = queued sock @ written h op r \<and> taken (snd (alone T h op sock)) = taken sock @ got h op r"
  proof (cases op)
    case (Read room k)
    show ?thesis
    proof (cases "k = h")
      case True
      obtain x wake sock' where "read_socket T room sock = (x, wake, sock')" using prod_cases3 by blast
      with read_socket_bytes(1)[OF assms(1) this] read_socket_bytes(2)[OF assms(1) this, of h] assms(3) Read True
      show ?thesis by (simp add: written_def)
    qed (simp add: Read polls_only)
  next
    case (Write bytes k)
    show ?thesis
    proof (cases "k = h")
      case True
      obtain x wake sock' where "write_socket T bytes sock = (x, wake, sock')" using prod_cases3 by blast
      with write_socket_bytes(1)[OF assms(1) this] write_socket_bytes(2)[OF assms(1) this, of h] assms(3) Write True
      show ?thesis by (simp add: got_def)
    qed (simp add: Write polls_only)
  next
    case (Pass polled now)
    with assms(2) show ?thesis by (simp add: keeps_bytes_def polls_only)
  next
    case (Shutdown k)
    with assms(1) show ?thesis by (simp add: byte_stream_def keeps_bytes_def written_def got_def)
  qed (simp_all add: polls_only)
  then show "queued (snd (alone T h op sock)) = queued sock @ written h op r" "taken (snd (alone T h op sock)) = taken sock @ got h op r"
    by simp_all
qed

lemma run_bytes:
  assumes "byte_stream T queued taken" and "owned s" and "h \<in> set (owners s)" and "possible_run T ops s"
    and "list_all (\<lambda>op. \<not> drops h op \<and> passes_keep queued taken h op) ops" and "sockets s h = Some sock"
    and "stack_run T ops s = Some (rs, s')"
  shows "\<exists>sock'. sockets s' h = Some sock' \<and> queued sock' = queued sock @ written_by h ops rs \<and> taken sock' = taken sock @ read_by h ops rs"
  using assms
proof (induction ops arbitrary: s sock rs)
  case Nil
  then show ?case by (simp add: written_by_def read_by_def)
next
  case (Cons op ops)
  then obtain r s1 rs1 where r: "stack_do T op s = Some (r, s1)" "stack_run T ops s1 = Some (rs1, s')" "rs = r # rs1"
    by (auto split: option.splits)
  have s1: "stack_apply T op s = Some s1" using stack_do_apply[of T op s] r(1) by simp
  have o: "owned s1" using owned_possible[OF Cons.prems(2), of op T] Cons.prems(4) s1 by auto
  have a: "h \<in> set (owners s1)" "sockets s1 h = Some (snd (alone T h op sock))"
      "fst (alone T h op sock) = (if polls h op then [r] else [])"
    using stack_do_alone[OF Cons.prems(2,3) _ _ r(1) Cons.prems(6)] Cons.prems(4,5) by simp_all
  have "possible_run T ops s1" "list_all (\<lambda>op. \<not> drops h op \<and> passes_keep queued taken h op) ops"
    using Cons.prems(4,5) s1 by simp_all
  from Cons.IH[OF Cons.prems(1) o a(1) this a(2) r(2)] alone_bytes[OF Cons.prems(1) _ a(3)] Cons.prems(5) r(3)
  show ?case by (auto simp: written_by_def read_by_def)
qed

section \<open>Properties\<close>

text \<open>C31
  A stream sees its own socket only: from every reachable state, whatever the stack task and the other streams do in
  between, opening, closing, dropping and reusing handles, as long as the stream is not dropped every operation
  returns, and its polls get exactly the replies, and leave its socket exactly as, the same polls would on that
  socket alone, advanced as the stack advanced it.\<close>

theorem streams_do_not_interfere:
  assumes "reach (\<lambda>s. s = stack_new) (stack_step T) s" and "h \<in> set (owners s)" and "possible_run T ops s"
    and "list_all (\<lambda>op. \<not> drops h op) ops"
  shows "\<exists>rs s' sock sock'. stack_run T ops s = Some (rs, s') \<and> h \<in> set (owners s')
    \<and> sockets s h = Some sock \<and> sockets s' h = Some sock' \<and> alone_run T h ops sock = (replies_to h ops rs, sock')"
proof -
  have o: "owned s" using assms(1) by (rule stack.reach_inv)
  then have "h \<in> dom (sockets s)" using assms(2) unfolding owned_def by blast
  then obtain sock where sock: "sockets s h = Some sock" by blast
  from runs_alone[OF o assms(2-4) sock] obtain rs s' where
    "stack_run T ops s = Some (rs, s')" "h \<in> set (owners s')" "sockets s' h = Some (snd (alone_run T h ops sock))"
    "replies_to h ops rs = fst (alone_run T h ops sock)" by blast
  with sock show ?thesis by (metis prod.collapse)
qed

text \<open>C32
  Bytes go through a stream once, in order and to its own connection: over any such run, what the stream was told
  is written is exactly what its own socket additionally queued for sending, and what it was given to read is
  exactly what its own socket additionally handed out, nothing lost, repeated, reordered or mixed with another
  connection's.\<close>

theorem bytes_go_through_once_in_order:
  assumes "byte_stream T queued taken" and "reach (\<lambda>s. s = stack_new) (stack_step T) s" and "h \<in> set (owners s)"
    and "possible_run T ops s" and "list_all (\<lambda>op. \<not> drops h op \<and> passes_keep queued taken h op) ops"
  shows "\<exists>rs s' sock sock'. stack_run T ops s = Some (rs, s') \<and> sockets s h = Some sock \<and> sockets s' h = Some sock'
    \<and> queued sock' = queued sock @ written_by h ops rs \<and> taken sock' = taken sock @ read_by h ops rs"
proof -
  have o: "owned s" using assms(2) by (rule stack.reach_inv)
  then have "h \<in> dom (sockets s)" using assms(3) unfolding owned_def by blast
  then obtain sock where sock: "sockets s h = Some sock" by blast
  have "list_all (\<lambda>op. \<not> drops h op) ops" using assms(5) by (simp add: list_all_iff)
  from runs_alone[OF o assms(3,4) this sock] obtain rs s' where r: "stack_run T ops s = Some (rs, s')" by blast
  from run_bytes[OF assms(1) o assms(3-5) sock r] r sock show ?thesis by blast
qed

text \<open>
  A stack whose sockets are what was queued, what was handed out and what has arrived, and send two bytes at a
  time; two connections on it, of which the second is dropped.
\<close>

definition pipe_tcp :: "(packet \<times> packet \<times> packet) tcp_lib" where
  "pipe_tcp = \<lparr>tcp_connect = \<lambda>_. Some ([], [], [7, 8, 9]), is_closed = \<lambda>_. False, is_connecting = \<lambda>_. False,
     can_recv = \<lambda>(_, _, i). i \<noteq> [], may_recv = \<lambda>_. True, can_send = \<lambda>_. True, may_send = \<lambda>_. True,
     recv_slice = \<lambda>(q, t, i) room. (Some (take room i), (q, t @ take room i, drop room i)),
     send_slice = \<lambda>(q, t, i) bs. (Some (min 2 (length bs)), (q @ take (min 2 (length bs)) bs, t, i)),
     tcp_close = \<lambda>s. s, register_recv_waker = \<lambda>s. s, register_send_waker = \<lambda>s. s\<rparr>"

lemma pipe_stream: "byte_stream pipe_tcp fst (fst \<circ> snd)"
  by (auto simp: byte_stream_def sends_prefix_def hands_out_def keeps_bytes_def pipe_tcp_def)

definition two_open :: "(packet \<times> packet \<times> packet) stack" where
  "two_open = snd (open_socket pipe_tcp 1 (snd (open_socket pipe_tcp 0 stack_new)))"

lemma two_open_simps: "owners two_open = [1, 0]" "handles two_open = [0, 1]" "abandoned two_open = hm_new"
    "sockets two_open = (\<lambda>_. None)(0 \<mapsto> ([], [], [7, 8, 9]), 1 \<mapsto> ([], [], [7, 8, 9]))"
  by (simp_all add: two_open_def open_socket_def stack_new_def pipe_tcp_def max_sockets_def)

lemma two_open_reach: "reach (\<lambda>s. s = stack_new) (stack_step pipe_tcp) two_open"
proof -
  have "stack_step pipe_tcp stack_new (snd (open_socket pipe_tcp 0 stack_new))"
    by (rule stack_stepI[of "Open 0"]) (simp_all add: stack_new_def)
  moreover have "stack_step pipe_tcp (snd (open_socket pipe_tcp 0 stack_new)) two_open"
    by (rule stack_stepI[of "Open 1"]) (simp_all add: two_open_def open_socket_def stack_new_def pipe_tcp_def max_sockets_def)
  ultimately show ?thesis by (blast intro: reach_init reach_step)
qed

definition some_ops :: "(packet \<times> packet \<times> packet) stack_op list" where
  "some_ops = [Write [1, 2, 3] 0, Write [5] 1, Pass (\<lambda>_ s. s) 4, Read 2 0, Drop 6 1, Write [3] 0]"

lemma some_ops_run: "possible_run pipe_tcp some_ops two_open"
    "stack_run pipe_tcp some_ops two_open = Some (rs, s') \<Longrightarrow>
       rs = [Write_reply (Ready (Inr 2)), Write_reply (Ready (Inr 1)), No_reply, Read_reply (Ready [7, 8]), No_reply, Write_reply (Ready (Inr 1))]"
  by (auto simp: some_ops_def two_open_simps poll_write_def poll_read_def with_socket_def write_socket_def read_socket_def pipe_tcp_def
      stack_pass_def drop_stream_def hm.get_new split: if_splits)

theorem streams_do_not_interfere_witness:
  "alone_run pipe_tcp 0 some_ops ([], [], [7, 8, 9]) =
     ([Write_reply (Ready (Inr 2)), Read_reply (Ready [7, 8]), Write_reply (Ready (Inr 1))], ([1, 2, 3], [7, 8], [9]))
   \<and> (\<exists>rs s'. stack_run pipe_tcp some_ops two_open = Some (rs, s') \<and> sockets s' 0 = Some ([1, 2, 3], [7, 8], [9]))"
proof -
  have a: "alone_run pipe_tcp 0 some_ops ([], [], [7, 8, 9]) =
     ([Write_reply (Ready (Inr 2)), Read_reply (Ready [7, 8]), Write_reply (Ready (Inr 1))], ([1, 2, 3], [7, 8], [9]))"
    by (simp add: some_ops_def write_socket_def read_socket_def pipe_tcp_def)
  have "0 \<in> set (owners two_open)" "list_all (\<lambda>op. \<not> drops 0 op) some_ops"
    by (simp_all add: two_open_simps some_ops_def)
  from streams_do_not_interfere[OF two_open_reach this(1) some_ops_run(1) this(2)] a
  show ?thesis by (auto simp: two_open_simps)
qed

theorem bytes_go_through_once_in_order_witness:
  "\<exists>rs s' sock. stack_run pipe_tcp some_ops two_open = Some (rs, s') \<and> sockets s' 0 = Some sock \<and> fst sock = [1, 2, 3]"
proof -
  have "0 \<in> set (owners two_open)" "list_all (\<lambda>op. \<not> drops 0 op \<and> passes_keep fst (fst \<circ> snd) 0 op) some_ops"
    by (simp_all add: two_open_simps some_ops_def keeps_bytes_def)
  from bytes_go_through_once_in_order[OF pipe_stream two_open_reach this(1) some_ops_run(1) this(2)]
  obtain rs s' sock sock' where r: "stack_run pipe_tcp some_ops two_open = Some (rs, s')" "sockets two_open 0 = Some sock"
    "sockets s' 0 = Some sock'" "fst sock' = fst sock @ written_by 0 some_ops rs" by blast
  have "written_by 0 some_ops rs = [1, 2, 3]"
    by (simp add: some_ops_run(2)[OF r(1)]) (simp add: written_by_def some_ops_def written_def)
  moreover have "fst sock = []" using r(2) by (auto simp: two_open_simps)
  ultimately show ?thesis using r by (intro exI[of _ rs] exI[of _ s'] exI[of _ sock']) simp
qed

end
