(* ===== verification/Openapi.thy ===== *)
theory Openapi
  imports Handlers
begin

text \<open>
  \<open>src/src/login/openapi.rs\<close> and the \<open>utoipa::path\<close> attributes on the handlers of
  \<open>src/src/login/handlers.rs\<close>: the description of the sign-in routes a service merges into its own. The
  description is data, compared here with the router and with what the handlers answer.
\<close>

section \<open>The description\<close>

datatype schema = Schema_Me

record route_doc =
  doc_route :: auth_route
  doc_method :: http_method
  doc_path :: string
  doc_tag :: string
  doc_params :: "(string \<times> string) list"
  doc_responses :: "(status_code \<times> string \<times> schema option) list"

definition login_doc :: route_doc where
  "login_doc = \<lparr>doc_route = Auth_login, doc_method = GET, doc_path = ''/auth/login'', doc_tag = ''auth'',
     doc_params = [(''returnTo'', ''Same-origin path to land on afterwards; anything else lands on /''),
       (''stepUp'', ''1 forces the user to re-enter credentials'')],
     doc_responses = [(SEE_OTHER, ''To the identity provider'', None),
       (SERVICE_UNAVAILABLE, ''The identity provider cannot be reached'', None)]\<rparr>"

definition callback_doc :: route_doc where
  "callback_doc = \<lparr>doc_route = Auth_callback, doc_method = GET, doc_path = ''/auth/callback'', doc_tag = ''auth'',
     doc_params = [(''code'', ''Authorization code from the provider''), (''state'', ''The sign-in this callback completes''),
       (''error'', ''The provider's OAuth error code'')],
     doc_responses = [(SEE_OTHER, ''Signed in, to returnTo; or sent round once more after a recoverable failure'', None),
       (BAD_REQUEST, ''The provider refused the sign-in'', None), (FORBIDDEN, ''A sign-in failed twice in a row'', None)]\<rparr>"

definition logout_doc :: route_doc where
  "logout_doc = \<lparr>doc_route = Auth_logout, doc_method = POST, doc_path = ''/auth/logout'', doc_tag = ''auth'', doc_params = [],
     doc_responses = [(NO_CONTENT, ''Signed out'', None), (FORBIDDEN, ''Not from this origin'', None)]\<rparr>"

definition me_doc :: route_doc where
  "me_doc = \<lparr>doc_route = Auth_me, doc_method = GET, doc_path = ''/auth/me'', doc_tag = ''auth'', doc_params = [],
     doc_responses = [(OK, ''The signed-in user, or authenticated: false'', Some Schema_Me)]\<rparr>"

record api_doc =
  api_paths :: "route_doc list"
  api_schemas :: "schema list"
  api_tags :: "(string \<times> string) list"

definition login_api :: api_doc where
  "login_api = \<lparr>api_paths = [login_doc, callback_doc, logout_doc, me_doc], api_schemas = [Schema_Me],
     api_tags = [(''auth'', ''Browser sign-in: OIDC authorization code + PKCE, server-side session, HttpOnly cookie'')]\<rparr>"

lemmas doc_simps = login_api_def login_doc_def callback_doc_def logout_doc_def me_doc_def

definition documented :: "auth_route \<Rightarrow> status_code list" where
  "documented r = concat (map (map fst \<circ> doc_responses) (filter (\<lambda>d. doc_route d = r) (api_paths login_api)))"

lemma documented_statuses:
  "documented Auth_login = [SEE_OTHER, SERVICE_UNAVAILABLE]" "documented Auth_callback = [SEE_OTHER, BAD_REQUEST, FORBIDDEN]"
  "documented Auth_logout = [NO_CONTENT, FORBIDDEN]" "documented Auth_me = [OK]"
  by (simp_all add: documented_def doc_simps)

section \<open>The description against the code\<close>

text \<open>It describes the routes of the router, all of them and no other, and every schema and tag it names is there.\<close>

lemma described_routes_are_the_routers:
  "map (\<lambda>d. (doc_path d, doc_method d, doc_route d)) (api_paths login_api) = login_router"
  by (simp add: doc_simps login_router_def)

lemma description_is_closed:
  "\<forall>d \<in> set (api_paths login_api). doc_tag d \<in> fst ` set (api_tags login_api)
     \<and> (\<forall>(_, _, s) \<in> set (doc_responses d). \<forall>x. s = Some x \<longrightarrow> x \<in> set (api_schemas login_api))"
  by (simp add: doc_simps)

text \<open>
  Logout and me answer only what is described; login also 500, when the sign-in cannot start, and callback
  500 and 502 (\<open>no_id_token_is_a_bad_gateway\<close>), which the description does not list.
\<close>

lemma answers_beside_the_description:
  "ans_status (fst (login_handler H L P lw lq h l)) \<in> set (documented Auth_login) \<union> {INTERNAL_SERVER_ERROR}"
  "ans_status (fst (callback_handler H L P w cq h l)) \<in> set (documented Auth_callback) \<union> {INTERNAL_SERVER_ERROR, BAD_GATEWAY}"
  "ans_status (fst (logout_handler H h l)) \<in> set (documented Auth_logout)"
  "ans_status (fst (me_handler H now h l)) \<in> set (documented Auth_me)"
  using route_statuses(1)[of H L P lw lq h l] route_statuses(2)[of H L P w cq h l] route_statuses(3)[of H h l]
    route_statuses(4)[of H now h l]
  by (auto simp: documented_statuses)

text \<open>What each description of a refusal says is what makes the handler refuse.\<close>

lemma described_refusals:
  "lo_provider l \<noteq> None \<Longrightarrow> fst (ask_client P (lw_discovery lw) l) = None \<Longrightarrow>
     ans_status (fst (login_handler H L P lw lq h l)) = SERVICE_UNAVAILABLE"
  "lo_provider l \<noteq> None \<Longrightarrow> q_error cq \<noteq> None \<Longrightarrow> ans_status (fst (callback_handler H L P w cq h l)) = BAD_REQUEST"
  "ans_status (fst (logout_handler H h l)) = FORBIDDEN \<longleftrightarrow> \<not> login_is_disabled l \<and> \<not> same_origin h (lo_origin l)"
  by (auto simp: login_handler_def callback_handler_def logout_handler_def gate_simps Let_def split: option.split prod.split)

end
