(* ===== verification/Registry.thy ===== *)
theory Registry
  imports Session Simulation
begin

text \<open>
  What \<open>src/src/login/session.rs\<close> promises, without its hash map, its sweeps and its lazy removals: a registry
  of sessions that lasts for ever, of which a lookup sees those within their lifetime. Every operation of the
  store is simulated by one of the registry, with the same reply.
\<close>

section \<open>Replies\<close>

datatype session_reply = Made "string option" | Found "session option" | Removed

fun session_do :: "session_op \<Rightarrow> session_store \<Rightarrow> session_reply \<times> session_store" where
  "session_do (Insert iter now wall nid idn auth) s = (case session_insert iter now wall nid idn auth s of (r, s') \<Rightarrow> (Made r, s'))"
| "session_do (Get i now) s = (case session_get i now s of (r, s') \<Rightarrow> (Found r, s'))"
| "session_do (Remove i) s = (Removed, session_remove i s)"

lemma session_do_apply: "snd (session_do x s) = session_apply x s"
  by (cases x) (auto split: prod.split)

text \<open>The clock an operation reads.\<close>

fun reads_clock :: "session_op \<Rightarrow> instant option" where
  "reads_clock (Insert _ now _ _ _ _) = Some now"
| "reads_clock (Get _ now) = Some now"
| "reads_clock (Remove _) = None"

section \<open>The registry\<close>

type_synonym registry = "string \<rightharpoonup> session"

definition matching :: "(session \<Rightarrow> bool) \<Rightarrow> registry \<Rightarrow> nat" where
  "matching P reg = card {i. \<exists>x. reg i = Some x \<and> P x}"

definition oldest :: "(session \<Rightarrow> bool) \<Rightarrow> registry \<Rightarrow> session \<Rightarrow> bool" where
  "oldest P reg v \<longleftrightarrow> (\<forall>i x. reg i = Some x \<and> P x \<longrightarrow> created v \<le> created x)"

definition seen :: "duration \<Rightarrow> instant \<Rightarrow> registry \<Rightarrow> string \<Rightarrow> session option" where
  "seen t now reg i = (case reg i of Some x \<Rightarrow> if live t now x then Some x else None | None \<Rightarrow> None)"

text \<open>
  There is room when the user has fewer than 20 live sessions and all together fewer than 10000. A session may be
  evicted when it is the user's oldest and they have 20, or the oldest of all and there are 10000, counting those
  that ended within the last minute.
\<close>

definition has_room :: "duration \<Rightarrow> instant \<Rightarrow> string \<Rightarrow> registry \<Rightarrow> bool" where
  "has_room t now sub reg \<longleftrightarrow> matching (\<lambda>x. live t now x \<and> is_theirs sub x) reg < 20 \<and> matching (live t now) reg < 10000"

definition may_evict :: "duration \<Rightarrow> instant \<Rightarrow> string \<Rightarrow> registry \<Rightarrow> string \<Rightarrow> bool" where
  "may_evict t now sub reg k \<longleftrightarrow>
     (\<exists>v. reg k = Some v \<and> live t now v \<and>
        (is_theirs sub v \<and> oldest (\<lambda>x. live t now x \<and> is_theirs sub x) reg v
           \<and> 20 \<le> matching (\<lambda>x. live (t + from_secs 60) now x \<and> is_theirs sub x) reg
       \<or> oldest (live t now) reg v \<and> 10000 \<le> matching (live (t + from_secs 60) now) reg))"

definition session_of :: "duration \<Rightarrow> instant \<Rightarrow> int \<Rightarrow> identity \<Rightarrow> u64 option \<Rightarrow> session" where
  "session_of t now wall idn auth =
     \<lparr>identity = idn, auth_time = auth, expires_at = unix_now wall + as_secs t, created = now, created_wall = wall\<rparr>"

inductive registry_step :: "duration \<Rightarrow> session_op \<Rightarrow> registry \<Rightarrow> session_reply \<Rightarrow> registry \<Rightarrow> bool" for t where
  no_id: "registry_step t (Insert iter now wall None idn auth) reg (Made None) reg"
| room: "has_room t now (id_sub idn) reg \<Longrightarrow>
     registry_step t (Insert iter now wall (Some i) idn auth) reg (Made (Some i)) (reg(i \<mapsto> session_of t now wall idn auth))"
| evict: "may_evict t now (id_sub idn) reg k \<Longrightarrow>
     registry_step t (Insert iter now wall (Some i) idn auth) reg (Made (Some i)) (reg(k := None, i \<mapsto> session_of t now wall idn auth))"
| lookup: "registry_step t (Get i now) reg (Found (seen t now reg i)) reg"
| ended: "registry_step t (Remove i) reg Removed (reg(i := None))"

text \<open>
  The store holds entries of the registry, all the live ones among them, and nothing that was not within its
  lifetime at the last sweep.
\<close>

definition represents :: "duration \<Rightarrow> instant \<Rightarrow> registry \<Rightarrow> session_store \<Rightarrow> bool" where
  "represents t now reg s \<longleftrightarrow> bounded s \<and> ttl s = t \<and> last_sweep s \<le> now \<and> finite (dom reg)
     \<and> (\<forall>i x. hm_get (session_map s) i = Some x \<longrightarrow> reg i = Some x
          \<and> (live t (last_sweep s) x \<or> last_sweep s \<le> created x))
     \<and> (\<forall>i x. reg i = Some x \<and> live t now x \<longrightarrow> hm_get (session_map s) i = Some x)"

lemma representsD:
  assumes "represents t now reg s"
  shows "bounded s" and "ttl s = t" and "last_sweep s \<le> now" and "finite (dom reg)" and "hm_wf (session_map s)"
    and "hm_get (session_map s) i = Some x \<Longrightarrow> reg i = Some x"
    and "hm_get (session_map s) i = Some x \<Longrightarrow> live t (last_sweep s) x \<or> last_sweep s \<le> created x"
    and "reg i = Some x \<Longrightarrow> live t now x \<Longrightarrow> hm_get (session_map s) i = Some x"
  using assms unfolding represents_def bounded_def session_wf_def by blast+

lemma representsI:
  assumes "bounded s" and "ttl s = t" and "last_sweep s \<le> now" and "finite (dom reg)"
    and "\<And>i x. hm_get (session_map s) i = Some x \<Longrightarrow> reg i = Some x \<and> (live t (last_sweep s) x \<or> last_sweep s \<le> created x)"
    and "\<And>i x. reg i = Some x \<Longrightarrow> live t now x \<Longrightarrow> hm_get (session_map s) i = Some x"
  shows "represents t now reg s"
  using assms unfolding represents_def by blast

section \<open>Every operation is simulated\<close>

lemma count_of_matching: "hm_wf m \<Longrightarrow> hm_count P m = card {k. \<exists>x. hm_get m k = Some x \<and> P x}"
  by (rule hm.count_card[unfolded hm_count_eq])

lemma finite_matching: "finite (dom reg) \<Longrightarrow> finite {i. \<exists>x. reg i = Some x \<and> P x}"
  by (rule finite_subset[rotated]) auto

text \<open>At most as many in the registry as held, fewer when one held is not in it; and the other way round.\<close>

lemma matching_le_held:
  assumes "hm_wf m" and "\<And>i x. reg i = Some x \<Longrightarrow> P x \<Longrightarrow> hm_get m i = Some x \<and> Q x"
  shows "matching P reg \<le> hm_count Q m"
  unfolding matching_def count_of_matching[OF assms(1)]
  by (rule card_mono) (use assms(2) hm.fin_matching[of m Q] in auto)

lemma matching_less_held:
  assumes "hm_wf m" and "\<And>i x. reg i = Some x \<Longrightarrow> P x \<Longrightarrow> hm_get m i = Some x \<and> Q x"
    and "hm_get m k = Some v" and "Q v" and "\<not> P v"
  shows "matching P reg < hm_count Q m"
  unfolding matching_def count_of_matching[OF assms(1)]
proof (rule psubset_card_mono)
  have "k \<notin> {i. \<exists>x. reg i = Some x \<and> P x}" using assms(2,3,5) by fastforce
  then show "{i. \<exists>x. reg i = Some x \<and> P x} \<subset> {k. \<exists>x. hm_get m k = Some x \<and> Q x}"
    using assms(2-4) by auto
qed (rule hm.fin_matching)

lemma held_le_matching:
  assumes "hm_wf m" and "finite (dom reg)" and "\<And>i x. hm_get m i = Some x \<Longrightarrow> Q x \<Longrightarrow> reg i = Some x \<and> P x"
  shows "hm_count Q m \<le> matching P reg"
  unfolding matching_def count_of_matching[OF assms(1)]
  by (rule card_mono) (use assms(3) finite_matching[OF assms(2)] in auto)

lemma len_count: "hm_len m = hm_count (\<lambda>_. True) m"
  by (simp add: hm_len_def hm_count_def)

text \<open>Whom the store evicts, if anyone.\<close>

lemma evict_choice_cases:
  assumes "iteration_order iter" and "hm_wf m"
  obtains (nobody) "evict_choice iter sub m = None" "hm_count (is_theirs sub) m < 20" "hm_len m < 10000"
    | (own) k x where "evict_choice iter sub m = Some k" "hm_get m k = Some x" "is_theirs sub x"
        "\<forall>k' x'. hm_get m k' = Some x' \<and> is_theirs sub x' \<longrightarrow> created x \<le> created x'" "20 \<le> hm_count (is_theirs sub) m"
    | (overall) k x where "evict_choice iter sub m = Some k" "hm_get m k = Some x"
        "\<forall>k' x'. hm_get m k' = Some x' \<longrightarrow> created x \<le> created x'" "hm_count (is_theirs sub) m < 20" "10000 \<le> hm_len m"
proof (cases "hm_count (is_theirs sub) m \<ge> max_per_subject")
  case True
  then show ?thesis
    by (rule evict_own[OF assms]) (rule own, use True in \<open>auto simp: max_per_subject_def\<close>)
next
  case few: False
  then have less: "hm_count (is_theirs sub) m < max_per_subject" by simp
  show ?thesis
  proof (cases "hm_len m \<ge> max_sessions")
    case True
    then show ?thesis
      by (rule evict_oldest[OF assms less]) (rule overall, use True less in \<open>auto simp: max_per_subject_def max_sessions_def\<close>)
  next
    case False
    with evict_none[OF assms(1) less] nobody less show ?thesis
      by (simp add: max_per_subject_def max_sessions_def)
  qed
qed

text \<open>The sweep an insertion may begin with is not observed.\<close>

lemma sweep_represents:
  assumes r: "represents t now reg s"
  shows "represents t now reg (after_sweep now s)"
    and "hm_get (session_map (after_sweep now s)) i = Some x \<Longrightarrow> live (t + from_secs 60) now x"
proof -
  note d = representsD[OF r]
  have swept: "hm_get (session_map (sweep now s)) i = Some x \<longleftrightarrow> hm_get (session_map s) i = Some x \<and> live t now x" for i x
    by (auto simp: sweep_def hm.get_keep[OF d(5)] d(2) split: option.splits)
  have b: "bounded (after_sweep now s)" by (rule sweep_bounded[OF d(1)])
  show "represents t now reg (after_sweep now s)"
  proof (cases "elapsed now (last_sweep s) \<ge> sweep_every")
    case True
    then have e: "after_sweep now s = sweep now s" by (simp add: after_sweep_def)
    have l: "last_sweep (sweep now s) = now" "ttl (sweep now s) = t" by (simp_all add: sweep_def d(2))
    show ?thesis
    proof (unfold e, rule representsI)
      show "bounded (sweep now s)" using b by (simp add: e)
      fix i x
      show "reg i = Some x \<and> (live t (last_sweep (sweep now s)) x \<or> last_sweep (sweep now s) \<le> created x)"
        if "hm_get (session_map (sweep now s)) i = Some x"
        unfolding l(1) using that d(6) unfolding swept by blast
      show "hm_get (session_map (sweep now s)) i = Some x" if "reg i = Some x" "live t now x"
        unfolding swept using that d(8) by blast
    qed (simp_all add: l d(4))
  qed (use r in \<open>simp add: after_sweep_def\<close>)
  assume h: "hm_get (session_map (after_sweep now s)) i = Some x"
  show "live (t + from_secs 60) now x"
  proof (cases "elapsed now (last_sweep s) \<ge> sweep_every")
    case True
    with h swept have "live t now x" by (simp add: after_sweep_def)
    then show ?thesis by (simp add: live_def)
  next
    case False
    with h d(7)[of i x] have "live t (last_sweep s) x \<or> last_sweep s \<le> created x" by (simp add: after_sweep_def)
    with False show ?thesis by (auto simp: live_def elapsed_def sweep_every_def)
  qed
qed

text \<open>The registry has room, or the store evicts someone it may.\<close>

lemma eviction_allowed:
  assumes r: "represents t now reg s" and it: "iteration_order iter"
    and lately: "\<And>i x. hm_get (session_map s) i = Some x \<Longrightarrow> live (t + from_secs 60) now x"
  obtains (unseen) "has_room t now sub reg"
      "\<And>k y. evict_choice iter sub (session_map s) = Some k \<Longrightarrow> hm_get (session_map s) k = Some y \<Longrightarrow> \<not> live t now y"
    | (away) k where "may_evict t now sub reg k" "evict_choice iter sub (session_map s) = Some k"
proof -
  let ?m = "session_map s"
  note d = representsD[OF r]
  note wf = d(5) and held = d(6) and lives = d(8)
  have caps: "hm_count (is_theirs sub) ?m \<le> 20" "hm_len ?m \<le> 10000"
    using d(1) by (simp_all add: bounded_def session_count_def max_per_subject_def max_sessions_def)
  have theirs: "matching (\<lambda>x. live t now x \<and> is_theirs sub x) reg \<le> hm_count (is_theirs sub) ?m"
    and all: "matching (live t now) reg \<le> hm_len ?m"
    unfolding len_count by (rule matching_le_held[OF wf]; use lives in blast)+
  have fewer: "matching (live t now) reg < hm_len ?m" "is_theirs sub v \<Longrightarrow> matching (\<lambda>x. live t now x \<and> is_theirs sub x) reg < hm_count (is_theirs sub) ?m"
    if "hm_get ?m k = Some v" "\<not> live t now v" for k v
    unfolding len_count by (rule matching_less_held[OF wf _ that(1)]; use lives that(2) in blast)+
  show thesis
  proof (cases rule: evict_choice_cases[OF it wf, of sub, case_names nobody own overall])
    case nobody
    with theirs all show ?thesis by (intro unseen) (auto simp: has_room_def)
  next
    case (own k v)
    show ?thesis
    proof (cases "live t now v")
      case True
      have "hm_count (is_theirs sub) ?m \<le> matching (\<lambda>x. live (t + from_secs 60) now x \<and> is_theirs sub x) reg"
        by (rule held_le_matching[OF wf d(4)]) (use held lately in blast)
      with own True held[OF own(2)] lives show ?thesis
        by (intro away[OF _ own(1)]) (auto simp: may_evict_def oldest_def)
    qed (use own(1-3) caps fewer[OF own(2)] in \<open>auto simp: has_room_def intro!: unseen\<close>)
  next
    case (overall k v)
    show ?thesis
    proof (cases "live t now v")
      case True
      have "hm_len ?m \<le> matching (live (t + from_secs 60) now) reg"
        unfolding len_count by (rule held_le_matching[OF wf d(4)]) (use held lately in blast)
      with overall True held[OF overall(2)] lives show ?thesis
        by (intro away[OF _ overall(1)]) (auto simp: may_evict_def oldest_def)
    qed (use overall(1,2,4) caps theirs fewer(1)[OF overall(2)] in \<open>auto simp: has_room_def intro!: unseen\<close>)
  qed
qed

text \<open>The store after an insertion, against a registry that changed accordingly.\<close>

lemma inserted_represents:
  assumes r: "represents t now reg s" and b: "bounded (s\<lparr>session_map := hm_insert i x (evicted c (session_map s))\<rparr>)"
    and fin: "finite (dom reg')" and new: "reg' i = Some x" "created x = now"
    and keep: "\<And>j y. j \<noteq> i \<Longrightarrow> c \<noteq> Some j \<Longrightarrow> hm_get (session_map s) j = Some y \<Longrightarrow> reg' j = Some y"
    and only: "\<And>j y. j \<noteq> i \<Longrightarrow> reg' j = Some y \<Longrightarrow> live t now y \<Longrightarrow> hm_get (session_map s) j = Some y \<and> c \<noteq> Some j"
  shows "represents t now reg' (s\<lparr>session_map := hm_insert i x (evicted c (session_map s))\<rparr>)"
proof (rule representsI)
  let ?s = "s\<lparr>session_map := hm_insert i x (evicted c (session_map s))\<rparr>"
  note d = representsD[OF r]
  have get: "hm_get (session_map ?s) j = (if j = i then Some x else if c = Some j then None else hm_get (session_map s) j)" for j
    by (cases c) (simp_all add: hm.get_put hm.get_del[OF d(5)])
  have l: "last_sweep ?s = last_sweep s" by simp
  show "bounded ?s" "ttl ?s = t" "last_sweep ?s \<le> now" "finite (dom reg')"
    using b fin d(2,3) by simp_all
  fix j y
  show "reg' j = Some y \<and> (live t (last_sweep ?s) y \<or> last_sweep ?s \<le> created y)" if "hm_get (session_map ?s) j = Some y"
    using that new keep[of j y] d(3) d(7)[of j y] unfolding get l by (auto split: if_splits)
  show "hm_get (session_map ?s) j = Some y" if "reg' j = Some y" "live t now y"
    using that new only[of j y] unfolding get by (auto split: if_splits)
qed

lemma later_represents: "represents t t0 reg s \<Longrightarrow> t0 \<le> now \<Longrightarrow> represents t now reg s"
  by (rule representsI) (blast dest: representsD intro: le_trans live_mono)+

lemma insert_simulated:
  assumes r0: "represents t t0 reg s" and it: "iteration_order iter" and now: "t0 \<le> now"
    and ins: "session_insert iter now wall (Some i) idn auth s = (res, s')"
  shows "\<exists>reg'. registry_step t (Insert iter now wall (Some i) idn auth) reg (Made res) reg' \<and> represents t now reg' s'"
proof -
  let ?s = "after_sweep now s" and ?x = "session_of t now wall idn auth"
  let ?c = "evict_choice iter (id_sub idn) (session_map ?s)"
  note swept = sweep_represents[OF later_represents[OF r0 now]]
  note d = representsD[OF swept(1)]
  have res: "res = Some i" and s': "s' = ?s\<lparr>session_map := hm_insert i ?x (evicted ?c (session_map ?s))\<rparr>"
    using ins representsD(2)[OF r0] by (auto simp: session_insert_def Let_def after_sweep_def evicted_def session_of_def split: option.split)
  have b: "bounded (?s\<lparr>session_map := hm_insert i ?x (evicted ?c (session_map ?s))\<rparr>)"
    using insert_bounded[OF representsD(1)[OF r0] it, of now wall "Some i" idn auth] ins s' by simp
  have x: "created ?x = now" by (simp add: session_of_def)
  show ?thesis
  proof (rule eviction_allowed[OF swept(1) it swept(2), where sub = "id_sub idn"])
    assume c: "has_room t now (id_sub idn) reg" "\<And>k y. ?c = Some k \<Longrightarrow> hm_get (session_map ?s) k = Some y \<Longrightarrow> \<not> live t now y"
    have "represents t now (reg(i \<mapsto> ?x)) s'"
      unfolding s'
    proof (rule inserted_represents[OF swept(1) b _ _ x])
      show "hm_get (session_map ?s) j = Some y \<and> ?c \<noteq> Some j" if "j \<noteq> i" "(reg(i \<mapsto> ?x)) j = Some y" "live t now y" for j y
        using that d(8)[of j y] c(2)[of j y] by auto
    qed (simp_all add: d(4,6))
    with c(1) show ?thesis unfolding res by (blast intro: room)
  next
    fix k
    assume k: "may_evict t now (id_sub idn) reg k" "?c = Some k"
    have "represents t now (reg(k := None, i \<mapsto> ?x)) s'"
      unfolding s'
    proof (rule inserted_represents[OF swept(1) b _ _ x])
      show "(reg(k := None, i \<mapsto> ?x)) j = Some y" if "j \<noteq> i" "?c \<noteq> Some j" "hm_get (session_map ?s) j = Some y" for j y
        using that k(2) d(6)[of j y] by simp
      show "hm_get (session_map ?s) j = Some y \<and> ?c \<noteq> Some j" if "j \<noteq> i" "(reg(k := None, i \<mapsto> ?x)) j = Some y" "live t now y" for j y
        using that k(2) d(8)[of j y] by (auto split: if_splits)
    qed (simp_all add: d(4))
    with k(1) show ?thesis unfolding res by (blast intro: evict)
  qed
qed

lemma shrink_represents:
  assumes r: "represents t now reg s" and b: "bounded (s\<lparr>session_map := hm_remove i (session_map s)\<rparr>)"
    and gone: "reg' = reg(i := None) \<or> reg' = reg \<and> (\<forall>x. reg i = Some x \<longrightarrow> \<not> live t now x)"
  shows "represents t now reg' (s\<lparr>session_map := hm_remove i (session_map s)\<rparr>)"
proof (rule representsI)
  note d = representsD[OF r]
  show "bounded (s\<lparr>session_map := hm_remove i (session_map s)\<rparr>)" by (rule b)
  show "finite (dom reg')" using gone d(4) by auto
  fix j y
  let ?s = "s\<lparr>session_map := hm_remove i (session_map s)\<rparr>"
  show "reg' j = Some y \<and> (live t (last_sweep ?s) y \<or> last_sweep ?s \<le> created y)" if "hm_get (session_map ?s) j = Some y"
    using that gone d(6,7)[of j y] by (auto simp: hm.get_del[OF d(5)] split: if_splits)
  show "hm_get (session_map ?s) j = Some y" if "reg' j = Some y" "live t now y"
    using that gone d(8)[of j y] by (auto simp: hm.get_del[OF d(5)] split: if_splits)
qed (use representsD(2,3)[OF r] in simp_all)

lemma get_simulated:
  assumes r: "represents t now reg s" and g: "session_get i now s = (res, s')"
  shows "res = seen t now reg i \<and> represents t now reg s'"
proof -
  note d = representsD[OF r]
  have b: "bounded s'" using get_bounded[OF d(1), of i now] g by simp
  show ?thesis
  proof (cases "hm_get (session_map s) i")
    case None
    have "seen t now reg i = None"
      using d(8)[of i] None by (auto simp: seen_def split: option.split)
    with None g r show ?thesis by (auto simp: session_get_def)
  next
    case (Some x)
    with d(6) have x: "reg i = Some x" by blast
    show ?thesis
    proof (cases "live t now x")
      case True
      then have "res = Some x" "s' = s" using Some g d(2) by (simp_all add: session_get_def)
      with True x r show ?thesis by (simp add: seen_def)
    next
      case False
      then have "s' = s\<lparr>session_map := hm_remove i (session_map s)\<rparr>" "res = None"
        using g Some d(2) by (auto simp: session_get_def)
      moreover from this b False x have "represents t now reg s'" by (auto intro: shrink_represents[OF r])
      ultimately show ?thesis using x False by (simp add: seen_def)
    qed
  qed
qed

interpretation sessions: forward_simulation session_do "registry_step t" reads_clock iterates "represents t"
proof
  fix t0 reg s x now r s'
  assume rep: "represents t t0 reg s" and it: "iterates x" and clock: "case reads_clock x of None \<Rightarrow> now = t0 | Some n \<Rightarrow> n = now \<and> t0 \<le> now"
    and x: "session_do x s = (r, s')"
  show "\<exists>a'. registry_step t x reg r a' \<and> represents t now a' s'"
  proof (cases x)
    case (Insert iter n wall nid idn auth)
    with clock have n: "n = now" "t0 \<le> now" by simp_all
    from x Insert n obtain res where res: "session_insert iter now wall nid idn auth s = (res, s')" "r = Made res"
      by (auto split: prod.splits)
    show ?thesis
    proof (cases nid)
      case None
      with res Insert n later_represents[OF rep n(2)] show ?thesis by (auto simp: session_insert_def intro: no_id)
    next
      case (Some i)
      with insert_simulated[OF rep _ n(2)] res it Insert n show ?thesis by (auto simp: iterates_def)
    qed
  next
    case (Get i n)
    with clock have n: "n = now" "t0 \<le> now" by simp_all
    from x Get n obtain res where "session_get i now s = (res, s')" "r = Found res" by (auto split: prod.splits)
    with get_simulated[OF later_represents[OF rep n(2)] this(1)] Get n show ?thesis by (auto intro: lookup)
  next
    case (Remove i)
    then have "now = t0" "r = Removed" "s' = s\<lparr>session_map := hm_remove i (session_map s)\<rparr>"
      using clock x by (simp_all add: session_remove_def)
    moreover from this remove_bounded[OF representsD(1)[OF rep], of i]
    have "represents t now (reg(i := None)) s'" by (auto simp: session_remove_def intro: shrink_represents[OF rep])
    ultimately show ?thesis using Remove by (auto intro: ended)
  qed
qed

section \<open>Properties\<close>

text \<open>C11
  What a service sees of the session store is a registry: from a new store, whatever sequence of sign-ins, lookups
  and sign-outs is made at times that do not go back, and in whatever order the hash map iterates, every reply
  is the registry's. A session is found, as it was stored, until its lifetime ends or it is removed, and neither
  sweeps nor removals of expired entries show. Nobody is evicted while the user has fewer than 20 live sessions and
  all fewer than 10000, unless a limit is reached counting those that ended within the last minute; who is, is
  the user's oldest or the oldest of all, and only one at a time.\<close>

theorem session_store_refines_registry:
  assumes "list_all iterates ops" and "in_order reads_clock t0 ops"
  shows "\<exists>reg. spec_run (registry_step t) ops Map.empty (replies session_do ops (session_store_new t t0)) reg"
proof (rule sessions.run_simulates[OF _ assms])
  show "represents t t0 Map.empty (session_store_new t t0)"
    by (rule representsI) (simp_all add: new_bounded, simp_all add: session_store_new_def hm.get_new)
qed

definition two_visits :: "session_op list" where
  "two_visits = [Insert rev 5 1000 (Some ''a'') \<lparr>id_sub = ''u'', id_email = None, id_name = None\<rparr> None, Get ''a'' 104, Get ''a'' 105,
     Remove ''a'', Get ''a'' 105]"

theorem session_store_refines_registry_witness:
  "\<exists>reg x. spec_run (registry_step 100) two_visits Map.empty
     [Made (Some ''a''), Found (Some x), Found None, Removed, Found None] reg"
proof -
  have ops: "list_all iterates two_visits" "in_order reads_clock 0 two_visits"
    by (simp_all add: two_visits_def iterates_def iteration_rev)
  have "\<exists>x. replies session_do two_visits (session_store_new 100 0) = [Made (Some ''a''), Found (Some x), Found None, Removed, Found None]"
    by (simp add: two_visits_def session_store_new_def session_insert_def session_get_def session_remove_def evict_choice_def
        hm_new_def hm_insert_def hm_get_def hm_len_def hm_remove_def live_def elapsed_def sweep_every_def from_secs_def nanos_per_sec_def
        max_per_subject_def max_sessions_def)
  with session_store_refines_registry[OF ops, of 100] show ?thesis by metis
qed

end
