(* ===== verification/Spec2Isabelle.thy ===== *)
theory Spec2Isabelle
  imports Jobs Text HttpBody Llm Device Server Rotation JwksGate Forward Streams Openapi Registry
begin

text \<open>
  A verification library for \<open>service-core\<close>, the crate that gives a family of web services one audited copy
  of what they share: who a request is (\<open>src/src/auth.rs\<close>, \<open>bff.rs\<close>, \<open>peer.rs\<close>), a browser sign-in of their own
  (\<open>src/src/login/\<close>), a bounded store of background jobs (\<open>jobs.rs\<close>), capped reading of response bodies
  (\<open>http.rs\<close>), a chat-completion client (\<open>llm.rs\<close>), and a user-space WireGuard forwarder (\<open>src/src/wg/\<close>).

  \<^bold>\<open>How the program hangs together.\<close> A request's identity is decided by the extractor of \<open>auth.rs\<close>: development
  mode, then the assertion of a trusted upstream, then an Authorization bearer, then the session cookie of the
  sign-in. The bearer path checks a token under the issuer's keys, which a gated, single-flight refresh keeps
  current. The cookie path asks the session store, and counts the cookie only where the request's headers show
  it was not forged by another site. Sessions come from the sign-in: \<open>/auth/login\<close> seals a flow into a cookie of
  the browser and sends it to the provider, \<open>/auth/callback\<close> opens that cookie, exchanges the code, verifies the
  ID token and stores a session, \<open>/auth/logout\<close> ends it. The provider's client is discovered on first use,
  behind a gate of the same kind. Apart from this, the forwarder's stack task moves packets between the TCP
  sockets of the accepted connections, a device of two packet queues, and the tunnel, and a watchdog replaces
  a tunnel whose handshake has gone stale.
\<close>

section \<open>Theories and the code they model\<close>

text \<open>
  Definitions bear the names of the code, and each theory opens with what it holds.

  \<^item> \<open>Prelude\<close>: words and durations, \<open>HashMap\<close> with the contract \<open>keyed_store\<close> and its interpretation \<open>hm\<close>,
    runs of operations with their invariants (\<open>guarded_invariant\<close>, \<open>uniform_invariant\<close>), reachable states
    (\<open>reach\<close>, \<open>step_invariant\<close>), statuses and header maps.
  \<^item> \<open>Text\<close>: the functions of \<open>str\<close> and \<open>char\<close> the crate calls, over UTF-8 bytes.
  \<^item> \<open>Simulation\<close>: the contract \<open>forward_simulation\<close> of an implementation and its specification, interpreted in
    \<open>Jobs\<close> and \<open>Registry\<close>.
  \<^item> \<open>Jobs\<close> (\<open>jobs.rs\<close>): \<open>job_store\<close> is \<open>JobStore\<close>, with one definition per method; its calls and replies, and
    the same of a partial map.
  \<^item> \<open>HttpBody\<close> (\<open>http.rs\<close>, \<open>login/http.rs\<close>): \<open>read_body_capped\<close> with its loop \<open>read_chunks\<close>, and the
    sign-in's HTTP adapter \<open>login_http_call\<close>. \<open>Llm\<close> (\<open>llm.rs\<close>): \<open>complete\<close> and \<open>reachable\<close>.
  \<^item> \<open>Cookie\<close>, \<open>Flow\<close>, \<open>Session\<close>, \<open>Provider\<close>, \<open>LoginCore\<close>, \<open>Handlers\<close> (\<open>login/cookie.rs\<close>, \<open>flow.rs\<close>,
    \<open>session.rs\<close>, \<open>provider.rs\<close>, \<open>mod.rs\<close>, \<open>handlers.rs\<close>): the sign-in, from cookie syntax to whole handlers.
    A handler maps the request, what the world does meanwhile and the \<open>login\<close> to its answer and the \<open>login\<close>
    it leaves. \<open>Registry\<close>: what the session store promises, as a specification it refines. \<open>Openapi\<close>
    (\<open>login/openapi.rs\<close>): the description of the routes as data, against router and handlers.
  \<^item> \<open>Stages\<close>: the callback cut at its awaits and locks; \<open>resume\<close> is one step, \<open>drive\<close> all of them.
  \<^item> \<open>Claims\<close>, \<open>Bff\<close>, \<open>Auth\<close> (\<open>auth.rs\<close>, \<open>bff.rs\<close>, \<open>peer.rs\<close>): claims, assertions, the key store, validation,
    peer tokens and the extractor \<open>from_request_parts\<close>.
  \<^item> \<open>Gate\<close>: the contract \<open>cooldown_gate\<close> of a refresher with a cooldown, interpreted twice on \<open>discover_or_drop\<close>
    in \<open>Provider\<close> and once, for the watchdog, in \<open>Forward\<close>. \<open>JwksGate\<close>: the key refresh with any number of
    requests interleaved and dropped, a step relation over \<open>refresh_decision\<close> of \<open>Auth\<close> and the two steps of its
    \<open>refresh_done\<close>.
  \<^item> \<open>Service\<close>: a service on the crate, a run of whole requests over one store with its sign-in. \<open>Server\<close>: the
    same with any number of callbacks, each between two of its steps, and requests dropped at any await; a
    ghost log records what was sealed, who was signed in and which sessions were ended. \<open>Rotation\<close>: what both
    caches of the provider's keys do when it changes them.
  \<^item> \<open>Device\<close>, \<open>Tunnel\<close> (\<open>wg/device.rs\<close>, \<open>wg/tunnel.rs\<close>); \<open>Sockets\<close>, \<open>Health\<close>, \<open>WgConfig\<close>, \<open>Forward\<close>
    (\<open>wg/forward.rs\<close>): \<open>Device\<close> implements the contract \<open>fifo\<close>; \<open>Sockets\<close> is the socket set shared by stack
    task and streams, with its reaping and the acceptor; \<open>Streams\<close> compares a stream among others with the
    same stream on a socket of its own; \<open>Forward\<close> composes all of them into \<open>loop_pass\<close>, one
    pass of the loop of \<open>run\<close>, and interleaves passes with the operations of the streams.
\<close>

section \<open>How the model is made\<close>

text \<open>
  \<^bold>\<open>State and atomicity.\<close> State is passed explicitly. Where a method holds its lock for its whole body (jobs,
  sessions, sockets) a concurrent use is some sequence of operations, and the properties are about every
  sequence. Where code awaits between its lock regions, the interleaving is a step relation (\<open>gate_step\<close>,
  \<open>stack_step\<close>, \<open>fwd_step\<close>, \<open>server_step\<close>). The handlers themselves are functions on the whole request;
  \<open>callback_is_its_steps\<close> shows that the callback's is what its steps do back to back, and \<open>drive_reach\<close>
  that a whole handler is therefore one of the runs of \<open>server_step\<close>. The other three routes await
  at most the discovery, touch the shared state in one place, and are one step each.

  \<^bold>\<open>Dropped futures.\<close> A request dropped during a key fetch is a step of \<open>JwksGate\<close>, a callback dropped at an
  await a step of \<open>Server\<close>, a request dropped during a discovery \<open>discover_dropped\<close>, and a tunnel read dropped by the \<open>select!\<close> of the stack task \<open>drop_recv\<close>.

  \<^bold>\<open>Errors and panics.\<close> Refusals are values of a sum or an option, with the status or step the code names.
  A panic (a drain past the end of a ring, a socket handle that is gone) is \<open>None\<close>, so that every theorem
  about a result also says there is no panic; \<open>forwarder_never_panics\<close> states it for the whole loop.

  \<^bold>\<open>Numbers.\<close> \<open>u64\<close>, \<open>u32\<close>, \<open>u16\<close> and \<open>u8\<close> are words, and saturating and checked operations are written out;
  \<open>Duration\<close> and \<open>Instant\<close> are nanosecond counts.

  \<^bold>\<open>Loops.\<close> \<open>read_chunks\<close> and \<open>drain\<close> may run for ever on a hostile peer and are \<open>partial_function (option)\<close>,
  \<open>None\<close> being no return; \<open>capped_read_returns\<close> and \<open>recv_delivers_or_flushes\<close> prove that they do return. All
  other loops are recursive functions; there is no fuel in the development.

  \<^bold>\<open>Libraries.\<close> What is not in \<open>src/\<close> is an argument: \<open>http_lib\<close> (header text), \<open>flow_lib\<close> (base64, the
  cipher, JSON), \<open>oidc_lib\<close> (\<open>openidconnect\<close>), \<open>jwt_lib\<close> (\<open>jsonwebtoken\<close>), \<open>url_lib\<close>, \<open>tcp_lib\<close> (smoltcp),
  \<open>tunn_lib\<close> (boringtun), and the generator, the clocks, the resolver and the network. The theorems name what they
  rely on, each with a concrete instance in its witness:

  \<^item> \<open>flow_lib_inverse\<close>: decoding and decryption undo encoding and encryption; \<open>only_sealings_decrypt\<close>: the ideal
    authenticity of the cipher, only what was sealed under the key opens, and for its own state; \<open>genuine\<close>: the
    same of one cookie and a list of sealings; \<open>json_round_trips\<close>: JSON that was written reads back.
  \<^item> \<open>decode_checks\<close>: a token decodes under a key exactly when signed with it and passing the checks set on the
    validation (\<open>passes\<close>), an absent claim failing only where it is required; in an empty key set no key is found.
  \<^item> A list of parameters is encoded as the empty query exactly when it is empty (for the restarted sign-in).
  \<^item> \<open>iteration_order\<close>: iterating a \<open>HashMap\<close> gives its entries in some order.
  \<^item> \<open>sane_stream\<close>: one chunk of a body fits in memory, as a Rust slice does.
  \<^item> \<open>session_flushes\<close>: a WireGuard session has finitely many datagrams queued. \<open>good_event\<close>: smoltcp uses the
    device only through its tokens and picks a free slot for a new socket. \<open>byte_stream\<close>: a TCP socket takes a
    prefix of what it is given, and gives what it received in order, once.
\<close>

section \<open>What is shown\<close>

text \<open>
  \<^bold>\<open>The sign-in as a whole.\<close> However the requests of a service interleave and whichever are dropped, whoever is
  admitted by a cookie signed in earlier, on a sealed flow that their callback's cookies carried, with the ID token
  verified for that flow, within the lifetime and with nothing ending the session since (\<open>Server\<close>; for whole
  requests one at a time, \<open>Service\<close>). Every callback ends after at most seven of its own steps, whatever others
  do, and a sign-in succeeds across a rotation of the provider's keys. All this rests on the handlers' own theorems: sessions appear only from this browser's verified
  flow; a started sign-in can be finished; a successful one authenticates until its lifetime ends; a failed one
  keeps every session; failures restart once and never loop; sign-in cookies are bounded; only this site signs
  out; no answer is cached, and which statuses each route answers with, described or not.

  \<^bold>\<open>Who a request is.\<close> Exactly one source in the documented precedence; a bearer only for this service, under a
  key its issuer published, and never a peer's; a peer token bound to peer and user; a cookie never enough alone; assertions round trip and are
  refused elsewhere; sign-ins and stores are built from exactly the sound options; key refreshes are single flight, spaced
  and free of deadlock however requests interleave.

  \<^bold>\<open>Bounds and contracts.\<close> Sessions, jobs, sockets and bodies stay within their ceilings; one user cannot evict
  another; reply for reply, the session store refines a registry in which sweeps do not show and the job store a partial map; the
  device refines two lossless FIFOs, the reaping loop a filter; a capped
  read returns exactly the body or refuses it, always returns and does not panic; a completion is exactly the first
  choice of such an answer, and the sign-in's HTTP client hands on exactly such answers that are no redirect.

  \<^bold>\<open>The forwarder.\<close> No interleaving of loop passes and stream operations panics; queued packets leave once, in
  order; a stream is untouched by the others sharing the socket set, and its bytes go through once and in order; a
  read delivers or flushes; a dead tunnel is bounced and a live one is not, bounces being 30 seconds apart; the
  health handle reads what was last published; the configuration is complete or refused.

  \<^bold>\<open>Where the code falls short of its comments\<close>, as lemmas: \<open>assertion_without_audience_passes\<close> (\<open>Bff\<close>), \<open>empty_issuer_is_not_disabled\<close> (\<open>Auth\<close>),
  \<open>bare_password_passes\<close> (\<open>LoginCore\<close>), \<open>abandoned_fetch_arms_nothing\<close> and \<open>dropped_store_loses_the_keys\<close> (\<open>JwksGate\<close>), \<open>dropped_discovery_arms_nothing\<close> (\<open>Provider\<close>),
  \<open>interrupted_read_loses_the_answer\<close> and \<open>unresolved_bounce_returns_to_startup_endpoint\<close> (\<open>Forward\<close>),
  \<open>no_id_token_is_a_bad_gateway\<close> (\<open>Handlers\<close>), \<open>answers_beside_the_description\<close> (\<open>Openapi\<close>), \<open>expired_sessions_are_counted\<close> (\<open>Session\<close>).
\<close>

section \<open>Not modelled\<close>

text \<open>
  Logging and metrics; the response headers the web framework adds; lock poisoning, from which the code recovers;
  how the description of the routes becomes a document, and the schemas derived from Rust types; the module files
  \<open>lib.rs\<close> and \<open>wg/mod.rs\<close>; buffer sizes and timer periods that no decision depends on; accessors that return a field;
  and the crate's tests. Cryptographic strength enters only through \<open>only_sealings_decrypt\<close> and
  \<open>decode_checks\<close>; that fresh ids do not collide is a hypothesis where a theorem needs it.
\<close>

end
